(* ===== verification/Prelude.thy ===== *)
theory Prelude
  imports Main "HOL-Library.State_Monad"
begin

text \<open>
  Shared vocabulary of the development: the state monad in which the operator's effectful
  functions are written, the two loop shapes of the source (a loop that logs an error and goes
  on, a loop that returns at the first error), and the generic lemmas on runs, lists and maps
  that the component theories rely on.

  A value of type \<open>('w, 'a) state\<close> is a computation over a world \<open>'w\<close>. The world is never
  fixed: it stands for the Kubernetes cluster, the clock and everything else that is outside
  the repository, and is only reached through the operations of the client record of theory
  \<open>Client\<close>.
\<close>

named_theorems run_simps \<open>equations that run a computation one step\<close>
named_theorems frame_simps \<open>what an operation leaves unchanged\<close>
named_theorems preserve_intros \<open>rules that show that a computation keeps a relation between states\<close>

abbreviation return :: "'a \<Rightarrow> ('w, 'a) state" where
  "return \<equiv> State_Monad.return"

abbreviation result :: "('w, 'a) state \<Rightarrow> 'w \<Rightarrow> 'a" where
  "result m w \<equiv> fst (run_state m w)"

abbreviation final :: "('w, 'a) state \<Rightarrow> 'w \<Rightarrow> 'w" where
  "final m w \<equiv> snd (run_state m w)"

subsection \<open>Loops\<close>

text \<open>
  \<open>for_each\<close> is \<^verbatim>\<open>for i := range xs { if err := f(xs[i]); err != nil { log.Error(err) } }\<close>;
  \<open>for_until_error\<close> is the same loop with \<^verbatim>\<open>return err\<close> in place of the log call.
\<close>

primrec for_each :: "'a list \<Rightarrow> ('a \<Rightarrow> ('w, 'e option) state) \<Rightarrow> ('w, unit) state" where
  "for_each [] f = return ()"
| "for_each (x # xs) f = do { _ \<leftarrow> f x; for_each xs f }"

primrec for_until_error ::
    "'a list \<Rightarrow> ('a \<Rightarrow> ('w, 'e option) state) \<Rightarrow> ('w, ('a \<times> 'e) option) state" where
  "for_until_error [] f = return None"
| "for_until_error (x # xs) f = do {
     e \<leftarrow> f x;
     (case e of Some err \<Rightarrow> return (Some (x, err)) | None \<Rightarrow> for_until_error xs f)
   }"

subsection \<open>Running computations\<close>

declare run_state_bind [simp del]

lemma run_bind [simp, run_simps]:
  "run_state (State_Monad.bind m f) w = run_state (f (result m w)) (final m w)"
  by (simp add: run_state_bind split_beta)

lemma result_final: "run_state m w = (r, w') \<longleftrightarrow> result m w = r \<and> final m w = w'"
  by (auto simp: prod_eq_iff)

declare run_state_return [run_simps]

lemma run_if [simp, run_simps]:
  "run_state (if b then m else n) w = (if b then run_state m w else run_state n w)"
  by simp

lemma run_case_sum [simp, run_simps]:
  "run_state (case x of Inl e \<Rightarrow> f e | Inr y \<Rightarrow> g y) w =
     (case x of Inl e \<Rightarrow> run_state (f e) w | Inr y \<Rightarrow> run_state (g y) w)"
  by (cases x) auto

lemma run_case_option [simp, run_simps]:
  "run_state (case x of None \<Rightarrow> m | Some y \<Rightarrow> f y) w =
     (case x of None \<Rightarrow> run_state m w | Some y \<Rightarrow> run_state (f y) w)"
  by (cases x) auto

lemma for_until_error_None_run:
  "result (for_until_error xs f) w = None \<Longrightarrow>
     final (for_until_error xs f) w = final (for_each xs f) w"
  by (induction xs arbitrary: w) (auto split: option.splits)

lemma for_each_append [run_simps]:
  "for_each (xs @ ys) f = do { _ \<leftarrow> for_each xs f; for_each ys f }"
  by (induction xs) auto

subsection \<open>Relations kept by every run\<close>

text \<open>
  \<open>state_io_rel R m\<close> of the library says that every run of \<open>m\<close> ends in a state related by
  \<open>R\<close> to the one it started in. For a preorder \<open>R\<close> it composes, so "this function writes
  nothing but \<dots>" is proved by one rule per construct.
\<close>

definition preorder_rel :: "('w \<Rightarrow> 'w \<Rightarrow> bool) \<Rightarrow> bool" where
  "preorder_rel R \<longleftrightarrow> reflp R \<and> transp R"

lemma preorder_relI:
  "(\<And>x. R x x) \<Longrightarrow> (\<And>x y z. R x y \<Longrightarrow> R y z \<Longrightarrow> R x z) \<Longrightarrow> preorder_rel R"
  by (auto simp: preorder_rel_def reflp_def transp_def)

lemma io_return [preserve_intros]: "preorder_rel R \<Longrightarrow> state_io_rel R (return x)"
  by (auto simp: preorder_rel_def reflp_def)

lemma io_bind [preserve_intros]:
  assumes "preorder_rel R" and "state_io_rel R m" and "\<And>x. state_io_rel R (f x)"
  shows "state_io_rel R (State_Monad.bind m f)"
proof
  fix y w w'
  assume run: "run_state (State_Monad.bind m f) w = (y, w')"
  have "R w (final m w)"
    using assms(2) by (simp add: state_io_rel_def)
  moreover have "R (final m w) (final (f (result m w)) (final m w))"
    using assms(3) by (simp add: state_io_rel_def)
  ultimately have "R w (final (f (result m w)) (final m w))"
    using assms(1) by (auto simp: preorder_rel_def transp_def)
  moreover have "w' = final (f (result m w)) (final m w)"
    using run by simp
  ultimately show "R w w'" by simp
qed

lemma io_if [preserve_intros]:
  "(b \<Longrightarrow> state_io_rel R m) \<Longrightarrow> (\<not> b \<Longrightarrow> state_io_rel R n) \<Longrightarrow> state_io_rel R (if b then m else n)"
  by simp

lemma io_case_sum [preserve_intros]:
  "(\<And>e. state_io_rel R (f e)) \<Longrightarrow> (\<And>y. state_io_rel R (g y)) \<Longrightarrow>
     state_io_rel R (case x of Inl e \<Rightarrow> f e | Inr y \<Rightarrow> g y)"
  by (cases x) auto

lemma io_case_option [preserve_intros]:
  "state_io_rel R m \<Longrightarrow> (\<And>y. state_io_rel R (f y)) \<Longrightarrow>
     state_io_rel R (case x of None \<Rightarrow> m | Some y \<Rightarrow> f y)"
  by (cases x) auto

lemma io_case_prod [preserve_intros]:
  "(\<And>x y. state_io_rel R (f x y)) \<Longrightarrow> state_io_rel R (case p of (x, y) \<Rightarrow> f x y)"
  by (cases p) auto

lemma io_for_each [preserve_intros]:
  assumes "preorder_rel R" and "\<And>x. x \<in> set xs \<Longrightarrow> state_io_rel R (f x)"
  shows "state_io_rel R (for_each xs f)"
  using assms(2) by (induction xs) (auto intro!: io_return io_bind assms(1))

lemma io_for_until_error [preserve_intros]:
  assumes "preorder_rel R" and "\<And>x. x \<in> set xs \<Longrightarrow> state_io_rel R (f x)"
  shows "state_io_rel R (for_until_error xs f)"
  using assms(2)
  by (induction xs) (auto intro!: io_return io_bind io_case_option assms(1))

lemma io_final: "state_io_rel R m \<Longrightarrow> R w (final m w)"
  by (simp add: state_io_rel_def)

subsection \<open>Lists and maps\<close>

lemma filter_eq_Nil_iff: "filter P xs = [] \<longleftrightarrow> (\<forall>x \<in> set xs. \<not> P x)"
  by (auto simp: filter_empty_conv)

lemma map_upd_del_id [simp]: "m k = None \<Longrightarrow> (m(k \<mapsto> v))(k := None) = m"
  by auto

lemma find_Some_mem: "find P xs = Some x \<Longrightarrow> x \<in> set xs \<and> P x"
  by (auto simp: find_Some_iff)

end
