(* ===== verification/GoLib.thy ===== *)
theory GoLib
  imports Prelude "HOL-Library.Signed_Division"
begin

text \<open>
  The parts of the Go language and of its standard library that the operator uses: fixed-width
  integers, truncating division, \<open>strconv\<close> (\<open>Itoa\<close>, \<open>FormatInt\<close>, \<open>Atoi\<close>, \<open>ParseInt\<close>),
  \<open>strings\<close> (\<open>Split\<close>, \<open>Join\<close>, \<open>Contains\<close>, \<open>ToLower\<close>) and \<open>time.Duration\<close>.

  Strings are byte strings. Times and durations are integers of nanoseconds, as \<open>time.Duration\<close>
  is. \<open>int32\<close> values are integers; where the source computes with them the result is wrapped
  by \<open>i32\<close>.
\<close>

type_synonym time = int
type_synonym duration = int

subsection \<open>Fixed-width integers\<close>

definition i32 :: "int \<Rightarrow> int" where
  "i32 x = (x + 2 ^ 31) mod 2 ^ 32 - 2 ^ 31"

abbreviation int32_range :: "int \<Rightarrow> bool" where
  "int32_range x \<equiv> - (2 ^ 31) \<le> x \<and> x < 2 ^ 31"

abbreviation int64_range :: "int \<Rightarrow> bool" where
  "int64_range x \<equiv> - (2 ^ 63) \<le> x \<and> x < 2 ^ 63"

lemma i32_id [simp]: "int32_range x \<Longrightarrow> i32 x = x"
  by (simp add: i32_def)

lemma i32_range: "int32_range (i32 x)"
proof -
  have "0 \<le> (x + 2 ^ 31) mod 2 ^ 32 \<and> (x + 2 ^ 31) mod 2 ^ 32 < (2 ^ 32 :: int)"
    by simp
  then show ?thesis by (simp add: i32_def)
qed

lemma i32_plus_i32 [simp]: "i32 (i32 x + y) = i32 (x + y)"
  by (simp add: i32_def mod_simps algebra_simps)

lemma i32_i32 [simp]: "i32 (i32 x) = i32 x"
  using i32_plus_i32 [of x 0] by simp

lemma plus_i32 [simp]: "i32 (x + i32 y) = i32 (x + y)"
  using i32_plus_i32 [of y x] by (simp add: add.commute)

definition i64 :: "int \<Rightarrow> int" where
  "i64 x = (x + 2 ^ 63) mod 2 ^ 64 - 2 ^ 63"

lemma i64_id [simp]: "int64_range x \<Longrightarrow> i64 x = x"
  by (simp add: i64_def)

lemma sdiv_nonneg: "0 \<le> a \<Longrightarrow> 0 < b \<Longrightarrow> (a :: int) sdiv b = a div b"
  by (cases "a = 0") (simp_all add: signed_divide_int_def)

subsection \<open>strconv\<close>

definition digit_char :: "nat \<Rightarrow> char" where
  "digit_char d = ''0123456789'' ! d"

definition digit_val :: "char \<Rightarrow> nat option" where
  "digit_val c = (let n = of_char c in if 48 \<le> n \<and> n \<le> 57 then Some (n - 48) else None)"

fun format_nat :: "nat \<Rightarrow> string" where
  "format_nat n =
     (if n < 10 then [digit_char n] else format_nat (n div 10) @ [digit_char (n mod 10)])"

declare format_nat.simps [simp del]

text \<open>\<open>strconv.Itoa\<close> and \<open>strconv.FormatInt(_, 10)\<close>.\<close>

definition Itoa :: "int \<Rightarrow> string" where
  "Itoa i = (if i < 0 then CHR ''-'' # format_nat (nat (- i)) else format_nat (nat i))"

datatype num_error = ErrSyntax | ErrRange

text \<open>
  \<open>strconv.ParseUint(s, 10, 64)\<close> scans the digits from the left, and reports the first
  character that is not a digit or the first digit at which the value leaves 64 bits.
\<close>

fun scan_uint :: "nat \<Rightarrow> string \<Rightarrow> num_error + nat" where
  "scan_uint n [] = Inr n"
| "scan_uint n (c # cs) =
     (case digit_val c of
        None \<Rightarrow> Inl ErrSyntax
      | Some d \<Rightarrow> if n * 10 + d \<ge> 2 ^ 64 then Inl ErrRange else scan_uint (n * 10 + d) cs)"

definition ParseUint :: "string \<Rightarrow> num_error + nat" where
  "ParseUint s = (if s = [] then Inl ErrSyntax else scan_uint 0 s)"

text \<open>\<open>strconv.ParseInt(s, 10, 64)\<close>; on the 64-bit targets of the operator \<open>strconv.Atoi\<close> agrees with it.\<close>

definition ParseInt :: "string \<Rightarrow> num_error + int" where
  "ParseInt s =
     (case s of
        [] \<Rightarrow> Inl ErrSyntax
      | c # cs \<Rightarrow>
          (let neg = (c = CHR ''-'');
               digits = (if c = CHR ''-'' \<or> c = CHR ''+'' then cs else s)
           in case ParseUint digits of
                Inl e \<Rightarrow> Inl e
              | Inr n \<Rightarrow>
                  if \<not> neg \<and> n \<ge> 2 ^ 63 then Inl ErrRange
                  else if neg \<and> n > 2 ^ 63 then Inl ErrRange
                  else Inr (if neg then - int n else int n)))"

abbreviation Atoi :: "string \<Rightarrow> num_error + int" where
  "Atoi \<equiv> ParseInt"

lemma digit_val_char: "d < 10 \<Longrightarrow> digit_val (digit_char d) = Some d"
proof -
  assume "d < 10"
  then have "d \<in> {0, 1, 2, 3, 4, 5, 6, 7, 8, 9}" by auto
  then show ?thesis by (auto simp: digit_val_def digit_char_def)
qed

lemma format_nat_Cons:
  "\<exists>d cs. d < 10 \<and> format_nat n = digit_char d # cs"
proof (induction n rule: format_nat.induct)
  case (1 n)
  show ?case
  proof (cases "n < 10")
    case True
    then show ?thesis by (auto simp: format_nat.simps [of n])
  next
    case False
    with 1 obtain d cs where "d < 10" "format_nat (n div 10) = digit_char d # cs" by blast
    with False show ?thesis by (auto simp: format_nat.simps [of n])
  qed
qed

lemma scan_uint_append:
  "scan_uint n (xs @ ys) = (case scan_uint n xs of Inl e \<Rightarrow> Inl e | Inr m \<Rightarrow> scan_uint m ys)"
  by (induction n xs rule: scan_uint.induct) (auto split: option.splits)

lemma scan_uint_format: "n < 2 ^ 64 \<Longrightarrow> scan_uint 0 (format_nat n) = Inr n"
proof (induction n rule: format_nat.induct)
  case (1 n)
  show ?case
  proof (cases "n < 10")
    case True
    then show ?thesis by (simp add: format_nat.simps [of n] digit_val_char)
  next
    case False
    moreover have "n div 10 < 2 ^ 64" using 1(2) by simp
    ultimately have "scan_uint 0 (format_nat (n div 10)) = Inr (n div 10)"
      using 1(1) by simp
    moreover have "\<not> n div 10 * 10 + n mod 10 \<ge> 2 ^ 64"
      using 1(2) by simp
    ultimately show ?thesis using False
      by (simp add: format_nat.simps [of n] scan_uint_append digit_val_char)
  qed
qed

lemma ParseUint_format: "n < 2 ^ 64 \<Longrightarrow> ParseUint (format_nat n) = Inr n"
  using format_nat_Cons [of n] by (auto simp: ParseUint_def scan_uint_format)

lemma digit_char_not_sign: "d < 10 \<Longrightarrow> digit_char d \<noteq> CHR ''-'' \<and> digit_char d \<noteq> CHR ''+''"
proof -
  assume "d < 10"
  then have "d \<in> {0, 1, 2, 3, 4, 5, 6, 7, 8, 9}" by auto
  then show ?thesis by (auto simp: digit_char_def)
qed

lemma ParseInt_format_nat: "n < 2 ^ 63 \<Longrightarrow> ParseInt (format_nat n) = Inr (int n)"
proof -
  assume n: "n < 2 ^ 63"
  obtain d cs where d: "d < 10" "format_nat n = digit_char d # cs"
    using format_nat_Cons by blast
  have "ParseUint (digit_char d # cs) = Inr n"
    using ParseUint_format [of n] n d(2) by simp
  with n d digit_char_not_sign [OF d(1)] show ?thesis by (simp add: ParseInt_def)
qed

text \<open>Printing an \<open>int64\<close> and parsing it gives the number back.\<close>

lemma ParseInt_Itoa [simp]:
  assumes "int64_range i"
  shows "ParseInt (Itoa i) = Inr i"
proof (cases "i < 0")
  case True
  have "nat (- i) < 2 ^ 64" using assms True by (simp add: nat_less_iff)
  then have "ParseUint (format_nat (nat (- i))) = Inr (nat (- i))"
    by (rule ParseUint_format)
  moreover have "\<not> nat (- i) > 2 ^ 63" using assms by (simp add: zless_nat_eq_int_zless)
  ultimately show ?thesis using True by (simp add: ParseInt_def Itoa_def)
next
  case False
  have "nat i < 2 ^ 63" using assms False by simp
  then have "ParseInt (format_nat (nat i)) = Inr (int (nat i))"
    by (rule ParseInt_format_nat)
  with False show ?thesis by (simp add: Itoa_def)
qed

lemma Itoa_first:
  "\<exists>c cs. Itoa i = c # cs \<and> (c = CHR ''-'' \<or> (\<exists>d < 10. c = digit_char d))"
proof (cases "i < 0")
  case True
  then show ?thesis by (simp add: Itoa_def)
next
  case False
  obtain d cs where "d < 10" "format_nat (nat i) = digit_char d # cs"
    using format_nat_Cons by blast
  with False show ?thesis by (auto simp: Itoa_def)
qed

text \<open>In particular no number prints as the marker \<^verbatim>\<open>nil\<close>.\<close>

lemma Itoa_not_nil [simp]: "Itoa i \<noteq> ''nil''"
proof
  assume eq: "Itoa i = ''nil''"
  from Itoa_first [of i] obtain c cs where
    c: "Itoa i = c # cs" "c = CHR ''-'' \<or> (\<exists>d < 10. c = digit_char d)" by blast
  with eq have "CHR ''n'' = CHR ''-'' \<or> (\<exists>d < 10. CHR ''n'' = digit_char d)" by simp
  then obtain d where "d < 10" "CHR ''n'' = digit_char d" by auto
  with digit_val_char [of d] have "digit_val (CHR ''n'') = Some d" by simp
  then show False by (simp add: digit_val_def)
qed

subsection \<open>strings\<close>

text \<open>\<open>strings.Split\<close> with a one-character separator.\<close>

fun Split :: "char \<Rightarrow> string \<Rightarrow> string list" where
  "Split c [] = [[]]"
| "Split c (x # xs) =
     (if x = c then [] # Split c xs
      else (case Split c xs of [] \<Rightarrow> [[x]] | p # ps \<Rightarrow> (x # p) # ps))"

fun Join :: "string \<Rightarrow> string list \<Rightarrow> string" where
  "Join sep [] = []"
| "Join sep [x] = x"
| "Join sep (x # y # zs) = x @ sep @ Join sep (y # zs)"

fun has_prefix :: "string \<Rightarrow> string \<Rightarrow> bool" where
  "has_prefix [] s = True"
| "has_prefix (c # cs) [] = False"
| "has_prefix (c # cs) (x # xs) = (c = x \<and> has_prefix cs xs)"

text \<open>\<open>strings.Contains(s, sub)\<close>.\<close>

fun Contains :: "string \<Rightarrow> string \<Rightarrow> bool" where
  "Contains [] sub = (sub = [])"
| "Contains (x # xs) sub = (has_prefix sub (x # xs) \<or> Contains xs sub)"

text \<open>\<open>strings.ToLower\<close> on the ASCII letters; other bytes are left alone.\<close>

definition lower_char :: "char \<Rightarrow> char" where
  "lower_char c = (let n = of_char c :: nat in if 65 \<le> n \<and> n \<le> 90 then char_of (n + 32) else c)"

definition ToLower :: "string \<Rightarrow> string" where
  "ToLower s = map lower_char s"

lemma Split_nonempty: "Split c s \<noteq> []"
  by (cases s) (auto split: list.splits)

lemma Split_parts_free: "p \<in> set (Split c s) \<Longrightarrow> c \<notin> set p"
proof (induction s arbitrary: p)
  case Nil
  then show ?case by simp
next
  case (Cons x xs)
  then show ?case
    by (cases "Split c xs") (auto simp: Split_nonempty split: if_splits)
qed

lemma Split_free: "c \<notin> set s \<Longrightarrow> Split c s = [s]"
  by (induction s) auto

lemma Split_append:
  "c \<notin> set p \<Longrightarrow> Split c (p @ c # s) = p # Split c s"
  by (induction p) auto

text \<open>Splitting at a separator and joining with it gives the string back.\<close>

lemma Join_Split: "Join [c] (Split c s) = s"
proof (induction s)
  case Nil
  then show ?case by simp
next
  case (Cons x xs)
  obtain p ps where s: "Split c xs = p # ps"
    using Split_nonempty [of c xs] by (cases "Split c xs") auto
  with Cons show ?case by (cases ps) auto
qed

lemma has_prefix_iff: "has_prefix p s \<longleftrightarrow> (\<exists>t. s = p @ t)"
  by (induction p s rule: has_prefix.induct) auto

lemma Contains_iff: "Contains s sub \<longleftrightarrow> (\<exists>a b. s = a @ sub @ b)"
proof (induction s)
  case Nil
  then show ?case by auto
next
  case (Cons x xs)
  show ?case
  proof
    assume "Contains (x # xs) sub"
    then consider "has_prefix sub (x # xs)" | "Contains xs sub" by auto
    then show "\<exists>a b. x # xs = a @ sub @ b"
    proof cases
      case 1
      then show ?thesis by (metis append_Nil has_prefix_iff)
    next
      case 2
      with Cons obtain a b where "xs = a @ sub @ b" by blast
      then have "x # xs = (x # a) @ sub @ b" by simp
      then show ?thesis by blast
    qed
  next
    assume "\<exists>a b. x # xs = a @ sub @ b"
    then obtain a b where ab: "x # xs = a @ sub @ b" by blast
    show "Contains (x # xs) sub"
    proof (cases a)
      case Nil
      with ab have "has_prefix sub (x # xs)" by (auto simp: has_prefix_iff)
      then show ?thesis by simp
    next
      case (Cons y ys)
      with ab have "xs = ys @ sub @ b" by simp
      with Cons.IH show ?thesis by auto
    qed
  qed
qed

subsection \<open>time\<close>

definition Second :: duration where
  "Second = 1000000000"

definition Minute :: duration where
  "Minute = 60 * Second"

text \<open>\<open>fmtFrac\<close> of package time: \<open>prec\<close> decimals, trailing zeros and an empty fraction dropped.\<close>

definition drop_trailing_zeros :: "string \<Rightarrow> string" where
  "drop_trailing_zeros s = rev (dropWhile (\<lambda>c. c = CHR ''0'') (rev s))"

definition frac_string :: "nat \<Rightarrow> nat \<Rightarrow> string" where
  "frac_string v prec =
     (let digits = format_nat (v mod 10 ^ prec);
          padded = replicate (prec - length digits) (CHR ''0'') @ digits;
          shown = drop_trailing_zeros padded
      in if shown = [] then [] else CHR ''.'' # shown)"

text \<open>\<open>Duration.String\<close>, the format behind \<^verbatim>\<open>%s\<close> in the status messages.\<close>

definition Duration_String :: "duration \<Rightarrow> string" where
  "Duration_String d =
     (let u = nat \<bar>d\<bar>; sign = (if d < 0 then ''-'' else [])
      in if u = 0 then ''0s''
         else if u < 1000 then sign @ format_nat u @ ''ns''
         else if u < 1000000 then sign @ format_nat (u div 10 ^ 3) @ frac_string u 3 @ [CHR 0xC2, CHR 0xB5, CHR ''s'']
         else if u < 1000000000 then sign @ format_nat (u div 10 ^ 6) @ frac_string u 6 @ ''ms''
         else (let secs = u div 10 ^ 9; mins = secs div 60; hours = mins div 60;
                   sec = format_nat (secs mod 60) @ frac_string u 9 @ ''s''
               in sign @
                  (if mins = 0 then sec
                   else if hours = 0 then format_nat (mins mod 60) @ ''m'' @ sec
                   else format_nat hours @ ''h'' @ format_nat (mins mod 60) @ ''m'' @ sec)))"

end
