(* ===== verification/Types.thy ===== *)
theory Types
  imports GoLib
begin

text \<open>
  The data of the operator: the \<open>NamespaceLifecyclePolicy\<close> resource of
  \<open>src/api/v1alpha1/namespacelifecyclepolicy_types.go\<close> (spec, status and their nested
  structs, field for field), and of the Kubernetes objects the fields that the operator reads or
  writes. A pointer field is an option; a string enumeration is a datatype with one more
  constructor where the source has a \<open>default\<close> branch for other strings.

  Server-managed fields that the operator never reads (\<open>resourceVersion\<close>, \<open>generation\<close>)
  are not part of the objects: a stale version shows up as a conflict answered by the client.
\<close>

type_synonym nsname = "string \<times> string"  \<comment> \<open>namespace and name, \<open>types.NamespacedName\<close>\<close>
type_synonym labels = "string \<rightharpoonup> string"
type_synonym nodeSelector = "(string \<times> string) list"  \<comment> \<open>a map the code ranges over\<close>

subsection \<open>Errors\<close>

text \<open>
  A value of Go's \<open>error\<close>: an API status error with its reason, an error of \<open>strconv\<close>, a
  message made by \<open>fmt.Errorf\<close>, and an error wrapped with a message prefix (\<^verbatim>\<open>%w\<close>). A
  run-time panic is one too: controller-runtime recovers it into an error of the handler.
\<close>

datatype reason = ReasonNotFound | ReasonConflict | ReasonOther

datatype err =
    StatusError reason string
  | NumError num_error string
  | Errorf string
  | Wrapf string err
  | Panic string

fun err_Error :: "err \<Rightarrow> string" where
  "err_Error (StatusError r msg) = msg"
| "err_Error (NumError k s) =
     ''strconv.Atoi: parsing '' @ [CHR 0x22] @ s @ [CHR 0x22] @ '': '' @
     (case k of ErrSyntax \<Rightarrow> ''invalid syntax'' | ErrRange \<Rightarrow> ''value out of range'')"
| "err_Error (Errorf msg) = msg"
| "err_Error (Wrapf pre e) = pre @ '': '' @ err_Error e"
| "err_Error (Panic msg) = msg"

fun IsNotFound :: "err \<Rightarrow> bool" where
  "IsNotFound (StatusError r msg) = (r = ReasonNotFound)"
| "IsNotFound (Wrapf pre e) = IsNotFound e"
| "IsNotFound _ = False"

fun IsConflict :: "err \<Rightarrow> bool" where
  "IsConflict (StatusError r msg) = (r = ReasonConflict)"
| "IsConflict (Wrapf pre e) = IsConflict e"
| "IsConflict _ = False"

subsection \<open>Object metadata and label selectors\<close>

record objectMeta =
  Name :: string
  Namespace :: string
  UID :: string
  Labels :: labels
  Annotations :: "string \<rightharpoonup> string"
  CreationTimestamp :: time
  DeletionTimestamp :: "time option"

definition meta_key :: "objectMeta \<Rightarrow> nsname" where
  "meta_key m = (Namespace m, Name m)"

record labelSelector =
  MatchLabels :: "(string \<times> string) list"
  MatchExpressions :: "(string \<times> string \<times> string list) list"

type_synonym selector = "labels \<Rightarrow> bool"

subsection \<open>The policy's spec\<close>

datatype LifecycleAction =
  LifecycleActionFreeze | LifecycleActionResume | LifecycleActionOther string

datatype startupPolicy =
  StartupPolicyIgnore | StartupPolicyResume | StartupPolicyFreeze | StartupPolicyOther string

datatype phase =
  PhaseUnset | PhaseIdle | PhaseFreezing | PhaseFrozen | PhaseResuming | PhaseResumed | PhaseFailed

record terminationGracePeriodConfig =
  GraceDeployment :: "int option"
  GraceStatefulSet :: "int option"

record startupNodeReadinessPolicy =
  nodes_Enabled :: bool
  nodes_TimeoutSeconds :: int
  MinReadyNodes :: int
  RequireAllNodes :: bool
  nodes_NodeSelector :: "nodeSelector option"

record nodeReadyCheckConfig =
  ready_Enabled :: bool
  WaitInterval :: int
  MaxWaitTime :: int

record nodePressureCheckConfig =
  pressure_Enabled :: bool
  PressureTypes :: "string list"
  pressure_SlowdownPercent :: int

record pendingPodsCheckConfig =
  pending_Enabled :: bool
  Threshold :: int
  pending_SlowdownPercent :: int

record metricsScrapeConfig =
  Source :: string
  CPU :: string
  Mem :: string

record nodeUsageCheckConfig =
  usage_Enabled :: bool
  CPUThresholdPercent :: int
  MemoryThresholdPercent :: int
  usage_SlowdownPercent :: int
  Scrape :: "metricsScrapeConfig option"

record containerRestartsCheckConfig =
  restarts_Enabled :: bool
  RestartThreshold :: int
  restarts_SlowdownPercent :: int

record signalChecksConfig =
  CheckNodeReady :: "nodeReadyCheckConfig option"
  CheckNodePressure :: "nodePressureCheckConfig option"
  CheckPendingPods :: "pendingPodsCheckConfig option"
  CheckNodeUsage :: "nodeUsageCheckConfig option"
  CheckContainerRestarts :: "containerRestartsCheckConfig option"

record adaptiveThrottlingConfig =
  throttle_Enabled :: bool
  InitialBatchSize :: int
  MinBatchSize :: int
  BatchInterval :: int
  SignalChecks :: "signalChecksConfig option"
  throttle_NodeSelector :: "nodeSelector option"
  FallbackOnMetricsUnavailable :: bool

record healthEndpointCheck =
  URL :: string
  ExpectedStatusCodes :: "int list"
  health_TimeoutSeconds :: int

record preConditionsConfig =
  pre_Enabled :: bool
  AppReadinessChecks :: "string list"
  HealthEndpointChecks :: "healthEndpointCheck list"
  CheckInterval :: int
  pre_TimeoutSeconds :: int
  BlockPriorityChain :: "bool option"

record policySpec =
  TargetNamespace :: string
  Selector :: "labelSelector option"
  Action :: LifecycleAction
  OperationId :: string
  StartupPolicy :: startupPolicy
  BalancePods :: bool
  BalanceWindowSeconds :: int
  TerminationGracePeriodSeconds :: "terminationGracePeriodConfig option"
  StartupNodeReadinessPolicy :: "startupNodeReadinessPolicy option"
  ResumeDelay :: duration
  ResumePriority :: int
  FreezeDelay :: duration
  FreezePriority :: int
  AdaptiveThrottling :: "adaptiveThrottlingConfig option"
  PreConditions :: "preConditionsConfig option"
  HandleNodeFailure :: bool

subsection \<open>The policy's status\<close>

datatype SignalType =
  SignalNodeNotReady | SignalNodePressure | SignalPendingPods | SignalNodeUsage | SignalContainerRestarts

datatype SignalSeverity = SignalSeverityCritical | SignalSeverityWarning | SignalSeverityInfo

record signal =
  signal_Type :: SignalType
  Severity :: SignalSeverity
  signal_Node :: string
  signal_Condition :: string
  Count :: int
  signal_Message :: string

record adaptiveProgressStatus =
  TotalWorkloads :: int
  ResumedWorkloads :: int
  CurrentBatchSize :: int
  ActiveSignals :: "signal list"
  LastCheckTime :: "time option"
  progress_Message :: string

record preConditionsStatus =
  Checking :: bool
  LastCheckedAt :: "time option"
  Passed :: bool
  pre_Message :: string

record condition =
  cond_Type :: string
  cond_Status :: string
  cond_Reason :: string
  cond_Message :: string
  cond_LastTransitionTime :: time

record policyStatus =
  Phase :: phase
  LastHandledOperationId :: string
  Message :: string
  LastStartupAt :: "time option"
  LastStartupAction :: string
  LastResumeAt :: "time option"
  StartupNodesWaited :: "int option"
  StartupReadyNodes :: "int option"
  AdaptiveProgress :: "adaptiveProgressStatus option"
  NodeReadyEventDetectedAt :: "time option"
  NodeReadyEventHandledAt :: "time option"
  NodeFailureEventDetectedAt :: "time option"
  NodeFailureEventHandledAt :: "time option"
  FailedNodeName :: string
  AffectedWorkloads :: "string list"
  PendingStartupResume :: bool
  ResumeDelayStartedAt :: "time option"
  PendingFreeze :: bool
  FreezeDelayStartedAt :: "time option"
  LastFreezeAt :: "time option"
  PreConditionsStatus :: "preConditionsStatus option"
  Conditions :: "condition list"

record policy =
  policy_Meta :: objectMeta
  Spec :: policySpec
  Status :: policyStatus

definition policy_key :: "policy \<Rightarrow> nsname" where
  "policy_key p = meta_key (policy_Meta p)"

definition policy_uid :: "policy \<Rightarrow> string" where
  "policy_uid p = UID (policy_Meta p)"

subsection \<open>Kubernetes objects, as far as the operator uses them\<close>

text \<open>
  A Deployment or a StatefulSet: metadata, \<open>spec.replicas\<close>, the pod template's annotations and
  \<open>terminationGracePeriodSeconds\<close>, and the status counters. Only Deployments have
  \<open>availableReplicas\<close> and conditions that the operator looks at.
\<close>

record workload =
  workload_Meta :: objectMeta
  Replicas :: "int option"
  TemplateAnnotations :: "string \<rightharpoonup> string"
  TemplateGracePeriod :: "int option"
  status_Replicas :: int
  ReadyReplicas :: int
  AvailableReplicas :: int
  workload_Conditions :: "(string \<times> string) list"  \<comment> \<open>type and status\<close>

definition workload_key :: "workload \<Rightarrow> nsname" where
  "workload_key d = meta_key (workload_Meta d)"

record ownerReference =
  owner_Kind :: string
  owner_Name :: string
  owner_UID :: string

record replicaSet =
  rs_OwnerReferences :: "ownerReference list"

record containerStatus =
  container_Name :: string
  WaitingReason :: "string option"
  RestartCount :: int

record podCondition =
  podcond_Type :: string
  podcond_Status :: string
  podcond_Reason :: string
  podcond_Message :: string

datatype podPhase = PodPending | PodRunning | PodSucceeded | PodFailed | PodUnknown

record pod =
  pod_Meta :: objectMeta
  OwnerReferences :: "ownerReference list"
  NodeName :: string
  pod_Phase :: podPhase
  pod_Conditions :: "podCondition list"
  ContainerStatuses :: "containerStatus list"

datatype conditionStatus = ConditionTrue | ConditionFalse | ConditionUnknown

record nodeCondition =
  nodecond_Type :: string
  nodecond_Status :: conditionStatus
  LastTransitionTime :: time

record node =
  node_Meta :: objectMeta
  node_Conditions :: "nodeCondition list"
  Addresses :: "(string \<times> string) list"  \<comment> \<open>type and address\<close>
  AllocatableMilliCPU :: int
  AllocatableMemory :: int
  TaintKeys :: "string list"

subsection \<open>Constants\<close>

definition AnnotationOriginalReplicas :: string where
  "AnnotationOriginalReplicas = ''apps.ops.dev/original-replicas''"

definition AnnotationOriginalTerminationGracePeriod :: string where
  "AnnotationOriginalTerminationGracePeriod = ''apps.ops.dev/original-termination-grace-period''"

definition nilAnnotationValue :: string where
  "nilAnnotationValue = ''nil''"

definition restartTimestamp :: string where
  "restartTimestamp = ''apps.ops.dev/restart-timestamp''"

lemma annotation_keys_distinct [simp]:
  "AnnotationOriginalReplicas \<noteq> AnnotationOriginalTerminationGracePeriod"
  "AnnotationOriginalTerminationGracePeriod \<noteq> AnnotationOriginalReplicas"
  by (simp_all add: AnnotationOriginalReplicas_def AnnotationOriginalTerminationGracePeriod_def)

end
