(* ===== verification/Client.thy ===== *)
theory Client
  imports Types Complex_Main
begin

text \<open>
  What the operator calls but the repository does not contain: the Kubernetes API through the
  controller-runtime client, \<open>retry.RetryOnConflict\<close> of client-go, the conversion of label
  selectors, the clock and timers, HTTP and the kubelet. They are the fields of one record
  \<open>'w api\<close> over an arbitrary world \<open>'w\<close>, and every effectful definition of the development
  takes this record as an argument. Nothing is assumed about the fields in the definitions.

  What the language and its library leave open are fields too: the order in which \<open>range\<close> visits a
  map, the value of an out-of-range float conversion, the order in which \<open>sort.Slice\<close> leaves equal
  elements, and how goroutines started together and awaited with a \<open>WaitGroup\<close> interleave.

  What theorems need of them is stated here as named hypotheses: \<open>retry_law\<close> (the documented
  behaviour of \<open>RetryOnConflict\<close>), \<open>quiet_cluster\<close> (the API server answers, and no other
  client writes while the function runs), and the laws of the clock and of the choice that \<open>select\<close>
  makes.
\<close>

subsection \<open>Answers of services\<close>

datatype json =
    JNull
  | JBool bool
  | JNumber rat
  | JString string
  | JArray "json list"
  | JObject "(string \<times> json) list"

record httpResponse =
  StatusCode :: int
  BodyJSON :: "err + (string \<times> json) list"  \<comment> \<open>the body decoded into \<open>map[string]interface{}\<close>\<close>

record kubeletStats =
  UsageNanoCores :: nat
  UsageBytes :: nat

text \<open>The case of a \<open>select\<close> that is taken: \<open>ctx.Done()\<close>, the channel of \<open>time.After\<close>, a ticker's.\<close>

datatype selectEvent = CtxDone err | TimeoutFired | TickerFired

subsection \<open>The client\<close>

record 'w api =
  RetryOnConflict :: "('w, err option) state \<Rightarrow> ('w, err option) state"
  Now :: "('w, time) state"
  Sleep :: "duration \<Rightarrow> ('w, unit) state"
  CtxErr :: "('w, err option) state"
  WaitUntil :: "time \<Rightarrow> ('w, err option) state"  \<comment> \<open>block until then; the error of a context cancelled before\<close>
  Draw :: "nat \<Rightarrow> ('w, nat) state"  \<comment> \<open>the pseudo-random choice among that many ready cases\<close>
  FormatRFC3339 :: "time \<Rightarrow> string"
  Int32OfFloat :: "rat \<Rightarrow> int"  \<comment> \<open>\<open>int32(f)\<close> out of range, left open by the language\<close>
  RangeOrder :: "string list \<Rightarrow> string list"  \<comment> \<open>the order in which \<open>range\<close> visits the keys of a map\<close>
  SortSlice :: "(policy \<Rightarrow> policy \<Rightarrow> bool) \<Rightarrow> policy list \<Rightarrow> policy list"  \<comment> \<open>\<open>less\<close>, slice\<close>
  GoWait :: "('w, unit option) state list \<Rightarrow> ('w, unit option) state"  \<comment> \<open>\<open>go\<close> each, then \<open>wg.Wait()\<close>\<close>
  LabelSelectorAsSelector :: "labelSelector \<Rightarrow> err + selector"
  GetPolicy :: "nsname \<Rightarrow> ('w, err + policy) state"
  ListPolicies :: "('w, err + policy list) state"
  ReaderListPolicies :: "('w, err + policy list) state"  \<comment> \<open>\<open>APIReader\<close>, past the cache\<close>
  PatchPolicyStatus :: "policy \<Rightarrow> policy \<Rightarrow> ('w, err option) state"  \<comment> \<open>object, \<open>patchBase\<close>\<close>
  UpdatePolicyStatus :: "policy \<Rightarrow> ('w, err option) state"
  UpdatePolicy :: "policy \<Rightarrow> ('w, err option) state"
  GetNamespace :: "string \<Rightarrow> ('w, err option) state"
  ListDeployments :: "string \<Rightarrow> selector option \<Rightarrow> ('w, err + workload list) state"
  GetDeployment :: "nsname \<Rightarrow> ('w, err + workload) state"
  PatchDeployment :: "workload \<Rightarrow> workload \<Rightarrow> ('w, err option) state"
  ListStatefulSets :: "string \<Rightarrow> selector option \<Rightarrow> ('w, err + workload list) state"
  GetStatefulSet :: "nsname \<Rightarrow> ('w, err + workload) state"
  PatchStatefulSet :: "workload \<Rightarrow> workload \<Rightarrow> ('w, err option) state"
  GetReplicaSet :: "nsname \<Rightarrow> ('w, err + replicaSet) state"
  ListPods :: "string option \<Rightarrow> ('w, err + pod list) state"  \<comment> \<open>\<open>None\<close>: all namespaces\<close>
  DeletePod :: "pod \<Rightarrow> int \<Rightarrow> ('w, err option) state"  \<comment> \<open>with \<open>GracePeriodSeconds\<close>\<close>
  ListNodes :: "nodeSelector option \<Rightarrow> ('w, err + node list) state"
  ReaderListNodes :: "('w, err + node list) state"
  HttpNewRequest :: "string \<Rightarrow> err option"
  HttpDo :: "duration \<Rightarrow> string \<Rightarrow> ('w, err + httpResponse) state"
  HasRESTClient :: bool
  KubeletStatsSummary :: "string \<Rightarrow> ('w, err + (err + kubeletStats)) state"  \<comment> \<open>request, decoding\<close>

subsection \<open>The get-modify-write block\<close>

text \<open>
  The block that the source repeats around every write: inside \<open>RetryOnConflict\<close> fetch the
  latest object, return its error, change it, and write it back with the fetched object as the
  patch base. \<open>change\<close> returns \<open>None\<close> where the block returns \<open>nil\<close> without a write.
\<close>

definition getModifyWrite ::
    "'w api \<Rightarrow> ('w, err + 'o) state \<Rightarrow> ('o \<Rightarrow> 'o option) \<Rightarrow> ('o \<Rightarrow> 'o \<Rightarrow> ('w, err option) state) \<Rightarrow>
     ('w, err option) state" where
  "getModifyWrite a getLatest change put =
     RetryOnConflict a (do {
       r \<leftarrow> getLatest;
       (case r of
          Inl e \<Rightarrow> return (Some e)
        | Inr latest \<Rightarrow>
            (case change latest of
               None \<Rightarrow> return None
             | Some new \<Rightarrow> put new latest))
     })"

text \<open>The block on a policy's status, written with \<open>Status().Patch\<close> or with \<open>Status().Update\<close>.\<close>

definition patchStatus ::
    "'w api \<Rightarrow> nsname \<Rightarrow> (policy \<Rightarrow> policyStatus) \<Rightarrow> ('w, err option) state" where
  "patchStatus a k change =
     getModifyWrite a (GetPolicy a k) (\<lambda>latest. Some (latest\<lparr>Status := change latest\<rparr>))
       (PatchPolicyStatus a)"

definition updateLatestStatus ::
    "'w api \<Rightarrow> nsname \<Rightarrow> (policy \<Rightarrow> policyStatus) \<Rightarrow> ('w, err option) state" where
  "updateLatestStatus a k change =
     getModifyWrite a (GetPolicy a k) (\<lambda>latest. Some (latest\<lparr>Status := change latest\<rparr>))
       (\<lambda>new base. UpdatePolicyStatus a new)"

subsection \<open>The behaviour of RetryOnConflict\<close>

text \<open>
  \<open>RetryOnConflict\<close> runs its function; while the answer is a conflict it may sleep and run it
  again, and it returns the answer of the last run.
\<close>

inductive retries :: "'w api \<Rightarrow> ('w, err option) state \<Rightarrow> 'w \<Rightarrow> err option \<times> 'w \<Rightarrow> bool" for a f where
  stop: "retries a f w (run_state f w)"
| again: "result f w = Some e \<Longrightarrow> IsConflict e \<Longrightarrow>
     retries a f (final (Sleep a d) (final f w)) out \<Longrightarrow> retries a f w out"

definition retry_law :: "'w api \<Rightarrow> bool" where
  "retry_law a \<longleftrightarrow> (\<forall>f w. retries a f w (run_state (RetryOnConflict a f) w))"

lemma retry_run:
  assumes "retry_law a" and "\<And>e. result f w = Some e \<Longrightarrow> \<not> IsConflict e"
  shows "run_state (RetryOnConflict a f) w = run_state f w"
proof -
  have "retries a f w (run_state (RetryOnConflict a f) w)"
    using assms(1) by (simp add: retry_law_def)
  then show ?thesis by cases (use assms(2) in auto)
qed

lemma retry_success_run:
  assumes "retry_law a" and "result (RetryOnConflict a f) w = None"
  shows "\<exists>w1. result f w1 = None \<and> final (RetryOnConflict a f) w = final f w1"
proof -
  have "retries a f v out \<Longrightarrow> fst out = None \<Longrightarrow> \<exists>w1. result f w1 = None \<and> snd out = final f w1"
    for v out by (induction rule: retries.induct) auto
  moreover have "retries a f w (run_state (RetryOnConflict a f) w)"
    using assms(1) by (simp add: retry_law_def)
  ultimately show ?thesis using assms(2) by blast
qed

lemma io_retry:
  assumes "retry_law a" and "preorder_rel R"
    and "state_io_rel R f" and "\<And>d. state_io_rel R (Sleep a d)"
  shows "state_io_rel R (RetryOnConflict a f)"
proof
  fix r w w'
  assume run: "run_state (RetryOnConflict a f) w = (r, w')"
  have "retries a f v out \<Longrightarrow> R v (snd out)" for v out
  proof (induction rule: retries.induct)
    case (stop w)
    show ?case using assms(3) by (rule io_final)
  next
    case (again w e d out)
    have "R w (final f w)" using assms(3) by (rule io_final)
    moreover have "R (final f w) (final (Sleep a d) (final f w))"
      using assms(4) by (rule io_final)
    ultimately show ?case
      using again.IH assms(2) unfolding preorder_rel_def transp_def by blast
  qed
  moreover have "retries a f w (run_state (RetryOnConflict a f) w)"
    using assms(1) by (simp add: retry_law_def)
  ultimately show "R w w'" using run by fastforce
qed

subsection \<open>A cluster that nobody else writes to\<close>

text \<open>
  The part of the world that the operator reads and writes. A cluster view maps a world to it.
\<close>

record cluster =
  cPolicies :: "nsname \<rightharpoonup> policy"
  cDeployments :: "nsname \<rightharpoonup> workload"
  cStatefulSets :: "nsname \<rightharpoonup> workload"
  cNamespaces :: "string set"
  cPods :: "pod list"
  cNodes :: "node list"

text \<open>
  What the API server makes of an object it stores. Timestamps of a status are serialised with
  second precision; \<open>replicas\<close> and \<open>terminationGracePeriodSeconds\<close> have the defaults 1 and 30.
\<close>

definition truncate_time :: "time option \<Rightarrow> time option" where
  "truncate_time = map_option (\<lambda>t. t - t mod Second)"

definition stored_status :: "policyStatus \<Rightarrow> policyStatus" where
  "stored_status s = s\<lparr>
     LastStartupAt := truncate_time (LastStartupAt s),
     LastResumeAt := truncate_time (LastResumeAt s),
     NodeReadyEventDetectedAt := truncate_time (NodeReadyEventDetectedAt s),
     NodeReadyEventHandledAt := truncate_time (NodeReadyEventHandledAt s),
     NodeFailureEventDetectedAt := truncate_time (NodeFailureEventDetectedAt s),
     NodeFailureEventHandledAt := truncate_time (NodeFailureEventHandledAt s),
     ResumeDelayStartedAt := truncate_time (ResumeDelayStartedAt s),
     FreezeDelayStartedAt := truncate_time (FreezeDelayStartedAt s),
     LastFreezeAt := truncate_time (LastFreezeAt s),
     AdaptiveProgress := map_option (LastCheckTime_update truncate_time) (AdaptiveProgress s),
     PreConditionsStatus := map_option (LastCheckedAt_update truncate_time) (PreConditionsStatus s),
     Conditions := map (cond_LastTransitionTime_update (\<lambda>t. t - t mod Second)) (Conditions s)\<rparr>"

definition stored_policy :: "policy \<Rightarrow> policy" where
  "stored_policy p = p\<lparr>Status := stored_status (Status p)\<rparr>"

definition stored_workload :: "workload \<Rightarrow> workload" where
  "stored_workload d = d\<lparr>
     Replicas := Some (case Replicas d of None \<Rightarrow> 1 | Some n \<Rightarrow> n),
     TemplateGracePeriod := Some (case TemplateGracePeriod d of None \<Rightarrow> 30 | Some n \<Rightarrow> n)\<rparr>"

definition reads :: "('w \<Rightarrow> cluster) \<Rightarrow> ('w, 'r) state \<Rightarrow> (cluster \<Rightarrow> 'r \<Rightarrow> bool) \<Rightarrow> bool" where
  "reads view m Q \<longleftrightarrow>
     (\<forall>w. view (final m w) = view w \<and> Q (view w) (result m w))"

definition writes :: "('w \<Rightarrow> cluster) \<Rightarrow> ('w, err option) state \<Rightarrow> (cluster \<Rightarrow> bool) \<Rightarrow>
    (cluster \<Rightarrow> cluster) \<Rightarrow> bool" where
  "writes view m pre eff \<longleftrightarrow>
     (\<forall>w. pre (view w) \<longrightarrow>
        result m w = None \<and> view (final m w) = eff (view w))"

definition found :: "'o option \<Rightarrow> err + 'o \<Rightarrow> bool" where
  "found x r \<longleftrightarrow>
     (case x of None \<Rightarrow> (\<exists>msg. r = Inl (StatusError ReasonNotFound msg)) | Some y \<Rightarrow> r = Inr y)"

definition lists :: "'o set \<Rightarrow> ('o \<Rightarrow> 'k) \<Rightarrow> err + 'o list \<Rightarrow> bool" where
  "lists S key r \<longleftrightarrow> (\<exists>xs. r = Inr xs \<and> set xs = S \<and> distinct (map key xs))"

definition in_namespace :: "(nsname \<rightharpoonup> workload) \<Rightarrow> string \<Rightarrow> selector option \<Rightarrow> workload set" where
  "in_namespace m ns sel =
     {d. \<exists>k. m k = Some d \<and> fst k = ns \<and>
        (case sel of None \<Rightarrow> True | Some s \<Rightarrow> s (Labels (workload_Meta d)))}"

text \<open>The reads of a quiet cluster answer from the view and leave it alone.\<close>

definition quiet_reads :: "'w api \<Rightarrow> ('w \<Rightarrow> cluster) \<Rightarrow> bool" where
  "quiet_reads a view \<longleftrightarrow>
     (\<forall>k. reads view (GetPolicy a k) (\<lambda>c. found (cPolicies c k))) \<and>
     (\<forall>k. reads view (GetDeployment a k) (\<lambda>c. found (cDeployments c k))) \<and>
     (\<forall>k. reads view (GetStatefulSet a k) (\<lambda>c. found (cStatefulSets c k))) \<and>
     (\<forall>ns sel. reads view (ListDeployments a ns sel)
        (\<lambda>c. lists (in_namespace (cDeployments c) ns sel) workload_key)) \<and>
     (\<forall>ns sel. reads view (ListStatefulSets a ns sel)
        (\<lambda>c. lists (in_namespace (cStatefulSets c) ns sel) workload_key)) \<and>
     reads view (ListPolicies a) (\<lambda>c. lists (ran (cPolicies c)) policy_key) \<and>
     reads view (ReaderListPolicies a) (\<lambda>c. lists (ran (cPolicies c)) policy_key) \<and>
     (\<forall>ns. reads view (GetNamespace a ns)
        (\<lambda>c r. if ns \<in> cNamespaces c then r = None
               else \<exists>msg. r = Some (StatusError ReasonNotFound msg))) \<and>
     (\<forall>ns. reads view (ListPods a ns)
        (\<lambda>c r. r = Inr (filter (\<lambda>p. ns = None \<or> ns = Some (Namespace (pod_Meta p))) (cPods c)))) \<and>
     reads view (ReaderListNodes a) (\<lambda>c r. r = Inr (cNodes c)) \<and>
     reads view (Now a) (\<lambda>c t. True) \<and>
     (\<forall>d. reads view (Sleep a d) (\<lambda>c r. True)) \<and>
     reads view (CtxErr a) (\<lambda>c r. True) \<and>
     (\<forall>t. reads view (WaitUntil a t) (\<lambda>c r. True)) \<and>
     (\<forall>n. reads view (Draw a n) (\<lambda>c r. True)) \<and>
     (\<forall>sel. reads view (ListNodes a sel) (\<lambda>c r. sel = None \<longrightarrow> r = Inr (cNodes c))) \<and>
     (\<forall>k. reads view (GetReplicaSet a k) (\<lambda>c r. True)) \<and>
     (\<forall>d url. reads view (HttpDo a d url) (\<lambda>c r. True)) \<and>
     (\<forall>n. reads view (KubeletStatsSummary a n) (\<lambda>c r. True))"

text \<open>The writes of a quiet cluster succeed when the base they were computed from is current.\<close>

definition quiet_writes :: "'w api \<Rightarrow> ('w \<Rightarrow> cluster) \<Rightarrow> bool" where
  "quiet_writes a view \<longleftrightarrow>
     (\<forall>p base. writes view (PatchPolicyStatus a p base)
        (\<lambda>c. cPolicies c (policy_key p) = Some base)
        (\<lambda>c. c\<lparr>cPolicies := (cPolicies c)(policy_key p \<mapsto> stored_policy (base\<lparr>Status := Status p\<rparr>))\<rparr>)) \<and>
     (\<forall>p q. writes view (UpdatePolicyStatus a p)
        (\<lambda>c. cPolicies c (policy_key p) = Some q \<and> p = q\<lparr>Status := Status p\<rparr>)
        (\<lambda>c. c\<lparr>cPolicies := (cPolicies c)(policy_key p \<mapsto> stored_policy p)\<rparr>)) \<and>
     (\<forall>d base. writes view (PatchDeployment a d base)
        (\<lambda>c. cDeployments c (workload_key d) = Some base)
        (\<lambda>c. c\<lparr>cDeployments := (cDeployments c)(workload_key d \<mapsto> stored_workload d)\<rparr>)) \<and>
     (\<forall>d base. writes view (PatchStatefulSet a d base)
        (\<lambda>c. cStatefulSets c (workload_key d) = Some base)
        (\<lambda>c. c\<lparr>cStatefulSets := (cStatefulSets c)(workload_key d \<mapsto> stored_workload d)\<rparr>)) \<and>
     (\<forall>p g w. \<exists>ps. view (final (DeletePod a p g) w) = (view w)\<lparr>cPods := ps\<rparr>) \<and>
     (\<forall>p q. writes view (UpdatePolicy a p)
        (\<lambda>c. cPolicies c (policy_key p) = Some q)
        (\<lambda>c. c\<lparr>cPolicies := (cPolicies c)(policy_key p \<mapsto> p\<lparr>Status := Status q\<rparr>)\<rparr>))"

text \<open>In every cluster objects are stored under their own key.\<close>

definition keyed_cluster :: "cluster \<Rightarrow> bool" where
  "keyed_cluster c \<longleftrightarrow>
     (\<forall>k p. cPolicies c k = Some p \<longrightarrow> policy_key p = k) \<and>
     (\<forall>k d. cDeployments c k = Some d \<longrightarrow> workload_key d = k) \<and>
     (\<forall>k d. cStatefulSets c k = Some d \<longrightarrow> workload_key d = k)"

definition quiet_cluster :: "'w api \<Rightarrow> ('w \<Rightarrow> cluster) \<Rightarrow> bool" where
  "quiet_cluster a view \<longleftrightarrow> 
     retry_law a \<and> quiet_reads a view \<and> quiet_writes a view \<and> (\<forall>w. keyed_cluster (view w))"

subsection \<open>Consequences for the get-modify-write block\<close>

lemma reads_view: "reads view m Q \<Longrightarrow> view (final m w) = view w"
  by (simp add: reads_def)

lemma reads_result: "reads view m Q \<Longrightarrow> Q (view w) (result m w)"
  by (simp add: reads_def)

lemma writes_ok:
  "writes view m pre eff \<Longrightarrow> pre (view w) \<Longrightarrow> result m w = None \<and> view (final m w) = eff (view w)"
  by (simp add: writes_def)

lemma found_Some [simp]: "found (Some x) r \<longleftrightarrow> r = Inr x"
  by (simp add: found_def)

lemma found_None: "found None r \<Longrightarrow> \<exists>e. r = Inl e \<and> IsNotFound e \<and> \<not> IsConflict e"
  by (auto simp: found_def)

lemma getModifyWrite_ok:
  assumes "retry_law a" and get: "reads view getLatest (\<lambda>c. found (obj c))"
    and stored: "obj (view w) = Some x" and change: "change x = Some y"
    and wr: "writes view (put y x) (\<lambda>c. obj c = Some x) eff"
  shows "result (getModifyWrite a getLatest change put) w = None"
    and "view (final (getModifyWrite a getLatest change put) w) = eff (view w)"
proof -
  let ?f = "do { r \<leftarrow> getLatest;
      (case r of Inl e \<Rightarrow> return (Some e)
       | Inr latest \<Rightarrow> (case change latest of None \<Rightarrow> return None | Some new \<Rightarrow> put new latest)) }"
  have r: "result getLatest w = Inr x" and v: "view (final getLatest w) = view w"
    using reads_result [OF get, of w] reads_view [OF get, of w] stored by simp_all
  have "result ?f w = None \<and> view (final ?f w) = eff (view w)"
    using writes_ok [OF wr, of "final getLatest w"] stored change r v by simp
  moreover from this have "run_state (RetryOnConflict a ?f) w = run_state ?f w"
    by (intro retry_run [OF assms(1)]) auto
  ultimately show "result (getModifyWrite a getLatest change put) w = None"
    and "view (final (getModifyWrite a getLatest change put) w) = eff (view w)"
    by (simp_all add: getModifyWrite_def)
qed

lemma getModifyWrite_skip:
  assumes "retry_law a" and get: "reads view getLatest (\<lambda>c. found (obj c))"
    and stored: "obj (view w) = Some x" and change: "change x = None"
  shows "result (getModifyWrite a getLatest change put) w = None"
    and "view (final (getModifyWrite a getLatest change put) w) = view w"
proof -
  let ?f = "do { r \<leftarrow> getLatest;
      (case r of Inl e \<Rightarrow> return (Some e)
       | Inr latest \<Rightarrow> (case change latest of None \<Rightarrow> return None | Some new \<Rightarrow> put new latest)) }"
  have "result ?f w = None \<and> view (final ?f w) = view w"
    using reads_result [OF get, of w] reads_view [OF get, of w] stored change by simp
  moreover from this have "run_state (RetryOnConflict a ?f) w = run_state ?f w"
    by (intro retry_run [OF assms(1)]) auto
  ultimately show "result (getModifyWrite a getLatest change put) w = None"
    and "view (final (getModifyWrite a getLatest change put) w) = view w"
    by (simp_all add: getModifyWrite_def)
qed

lemma getModifyWrite_missing:
  assumes "retry_law a" and get: "reads view getLatest (\<lambda>c. found (obj c))"
    and missing: "obj (view w) = None"
  shows "\<exists>e. result (getModifyWrite a getLatest change put) w = Some e \<and> IsNotFound e"
    and "view (final (getModifyWrite a getLatest change put) w) = view w"
proof -
  let ?f = "do { r \<leftarrow> getLatest;
      (case r of Inl e \<Rightarrow> return (Some e)
       | Inr latest \<Rightarrow> (case change latest of None \<Rightarrow> return None | Some new \<Rightarrow> put new latest)) }"
  obtain e where e: "result getLatest w = Inl e" "IsNotFound e" "\<not> IsConflict e"
    using reads_result [OF get, of w] missing found_None by metis
  then have run: "run_state (RetryOnConflict a ?f) w = run_state ?f w"
    by (intro retry_run [OF assms(1)]) auto
  show "\<exists>e. result (getModifyWrite a getLatest change put) w = Some e \<and> IsNotFound e"
    and "view (final (getModifyWrite a getLatest change put) w) = view w"
    unfolding getModifyWrite_def run using e reads_view [OF get, of w] by simp_all
qed

text \<open>
  Whatever the client answers, a successful block ended with a run of its body that fetched an
  object and either skipped it or had its changed copy written.
\<close>

lemma getModifyWrite_success:
  assumes "retry_law a" and "result (getModifyWrite a getLatest change put) w = None"
  shows "\<exists>w1 latest. result getLatest w1 = Inr latest \<and>
    (case change latest of
       None \<Rightarrow> final (getModifyWrite a getLatest change put) w = final getLatest w1
     | Some new \<Rightarrow> result (put new latest) (final getLatest w1) = None \<and>
         final (getModifyWrite a getLatest change put) w =
           final (put new latest) (final getLatest w1))"
  using retry_success_run [OF assms(1) assms(2) [unfolded getModifyWrite_def]]
  by (fastforce simp: getModifyWrite_def split: sum.splits option.splits)

subsection \<open>Extracting the laws of a quiet cluster\<close>

lemma quiet_retry [simp]: "quiet_cluster a view \<Longrightarrow> retry_law a"
  by (simp add: quiet_cluster_def)

lemma quiet_keyed:
  assumes "quiet_cluster a view"
  shows "cPolicies (view w) k = Some p \<Longrightarrow> policy_key p = k"
    and "cDeployments (view w) k = Some d \<Longrightarrow> workload_key d = k"
    and "cStatefulSets (view w) k = Some d \<Longrightarrow> workload_key d = k"
  using assms unfolding quiet_cluster_def keyed_cluster_def by metis+

lemma quiet_readD:
  assumes "quiet_cluster a view"
  shows "reads view (GetPolicy a k) (\<lambda>c. found (cPolicies c k))"
    and "reads view (GetDeployment a k) (\<lambda>c. found (cDeployments c k))"
    and "reads view (GetStatefulSet a k) (\<lambda>c. found (cStatefulSets c k))"
    and "reads view (ListDeployments a ns sel)
           (\<lambda>c. lists (in_namespace (cDeployments c) ns sel) workload_key)"
    and "reads view (ListStatefulSets a ns sel)
           (\<lambda>c. lists (in_namespace (cStatefulSets c) ns sel) workload_key)"
    and "reads view (ListPolicies a) (\<lambda>c. lists (ran (cPolicies c)) policy_key)"
    and "reads view (ReaderListPolicies a) (\<lambda>c. lists (ran (cPolicies c)) policy_key)"
    and "reads view (GetNamespace a ns)
           (\<lambda>c r. if ns \<in> cNamespaces c then r = None
                  else \<exists>msg. r = Some (StatusError ReasonNotFound msg))"
    and "reads view (ListPods a nso)
           (\<lambda>c r. r = Inr (filter (\<lambda>p. nso = None \<or> nso = Some (Namespace (pod_Meta p))) (cPods c)))"
    and "reads view (ReaderListNodes a) (\<lambda>c r. r = Inr (cNodes c))"
    and "reads view (Now a) (\<lambda>c t. True)"
    and "reads view (Sleep a d) (\<lambda>c r. True)"
    and "reads view (CtxErr a) (\<lambda>c r. True)"
    and "reads view (WaitUntil a t) (\<lambda>c r. True)"
    and "reads view (ListNodes a nsel) (\<lambda>c r. nsel = None \<longrightarrow> r = Inr (cNodes c))"
    and "reads view (GetReplicaSet a k) (\<lambda>c r. True)"
    and "reads view (HttpDo a d url) (\<lambda>c r. True)"
    and "reads view (KubeletStatsSummary a n) (\<lambda>c r. True)"
    and "reads view (Draw a cases) (\<lambda>c r. True)"
  using assms unfolding quiet_cluster_def quiet_reads_def by blast+

text \<open>The calls that leave the view alone, for \<open>simp\<close>.\<close>

lemma quiet_view:
  assumes "quiet_cluster a view"
  shows "view (final (GetPolicy a k) w) = view w" "view (final (GetDeployment a k) w) = view w"
    "view (final (GetStatefulSet a k) w) = view w" "view (final (ListDeployments a ns sel) w) = view w"
    "view (final (ListStatefulSets a ns sel) w) = view w" "view (final (ListPolicies a) w) = view w"
    "view (final (ReaderListPolicies a) w) = view w" "view (final (GetNamespace a ns) w) = view w"
    "view (final (ListPods a nso) w) = view w" "view (final (ReaderListNodes a) w) = view w"
    "view (final (Now a) w) = view w" "view (final (Sleep a d) w) = view w"
    "view (final (CtxErr a) w) = view w" "view (final (WaitUntil a t) w) = view w"
    "view (final (ListNodes a nsel) w) = view w" "view (final (GetReplicaSet a k) w) = view w"
    "view (final (HttpDo a d url) w) = view w" "view (final (KubeletStatsSummary a n) w) = view w"
    "view (final (Draw a cases) w) = view w"
  by (rule quiet_readD [OF assms, THEN reads_view])+

lemma quiet_writeD:
  assumes "quiet_cluster a view"
  shows "writes view (PatchPolicyStatus a p base)
           (\<lambda>c. cPolicies c (policy_key p) = Some base)
           (\<lambda>c. c\<lparr>cPolicies := (cPolicies c)(policy_key p \<mapsto> stored_policy (base\<lparr>Status := Status p\<rparr>))\<rparr>)"
    and "writes view (UpdatePolicyStatus a p)
           (\<lambda>c. cPolicies c (policy_key p) = Some q \<and> p = q\<lparr>Status := Status p\<rparr>)
           (\<lambda>c. c\<lparr>cPolicies := (cPolicies c)(policy_key p \<mapsto> stored_policy p)\<rparr>)"
    and "writes view (PatchDeployment a d dbase)
           (\<lambda>c. cDeployments c (workload_key d) = Some dbase)
           (\<lambda>c. c\<lparr>cDeployments := (cDeployments c)(workload_key d \<mapsto> stored_workload d)\<rparr>)"
    and "writes view (PatchStatefulSet a d dbase)
           (\<lambda>c. cStatefulSets c (workload_key d) = Some dbase)
           (\<lambda>c. c\<lparr>cStatefulSets := (cStatefulSets c)(workload_key d \<mapsto> stored_workload d)\<rparr>)"
    and "\<exists>ps. view (final (DeletePod a pd g) w) = (view w)\<lparr>cPods := ps\<rparr>"
    and "writes view (UpdatePolicy a p) (\<lambda>c. cPolicies c (policy_key p) = Some q)
           (\<lambda>c. c\<lparr>cPolicies := (cPolicies c)(policy_key p \<mapsto> p\<lparr>Status := Status q\<rparr>)\<rparr>)"
  using assms unfolding quiet_cluster_def quiet_writes_def by blast+

text \<open>The status blocks on a quiet cluster.\<close>

lemma policy_key_Status [simp]: "policy_key (p\<lparr>Status := s\<rparr>) = policy_key p"
  by (simp add: policy_key_def)

lemma patchStatus_quiet:
  assumes "quiet_cluster a view" and "cPolicies (view w) k = Some p" and "policy_key p = k"
  shows "result (patchStatus a k change) w = None"
    and "view (final (patchStatus a k change) w) =
      (view w)\<lparr>cPolicies := (cPolicies (view w))(k \<mapsto> stored_policy (p\<lparr>Status := change p\<rparr>))\<rparr>"
proof -
  have wr: "writes view (PatchPolicyStatus a (p\<lparr>Status := change p\<rparr>) p)
      (\<lambda>c. cPolicies c k = Some p)
      (\<lambda>c. c\<lparr>cPolicies := (cPolicies c)(k \<mapsto> stored_policy (p\<lparr>Status := change p\<rparr>))\<rparr>)"
    using quiet_writeD(1) [OF assms(1), of "p\<lparr>Status := change p\<rparr>" p] assms(3) by simp
  note ok = getModifyWrite_ok [where put = "PatchPolicyStatus a",
      OF quiet_retry [OF assms(1)] quiet_readD(1) [OF assms(1)] assms(2) _ wr]
  show "result (patchStatus a k change) w = None"
    and "view (final (patchStatus a k change) w) =
      (view w)\<lparr>cPolicies := (cPolicies (view w))(k \<mapsto> stored_policy (p\<lparr>Status := change p\<rparr>))\<rparr>"
    unfolding patchStatus_def by (rule ok, simp)+
qed

lemma updateLatestStatus_quiet:
  assumes "quiet_cluster a view" and "cPolicies (view w) k = Some p" and "policy_key p = k"
  shows "result (updateLatestStatus a k change) w = None"
    and "view (final (updateLatestStatus a k change) w) =
      (view w)\<lparr>cPolicies := (cPolicies (view w))(k \<mapsto> stored_policy (p\<lparr>Status := change p\<rparr>))\<rparr>"
proof -
  have wr: "writes view (UpdatePolicyStatus a (p\<lparr>Status := change p\<rparr>))
      (\<lambda>c. cPolicies c k = Some p)
      (\<lambda>c. c\<lparr>cPolicies := (cPolicies c)(k \<mapsto> stored_policy (p\<lparr>Status := change p\<rparr>))\<rparr>)"
    using quiet_writeD(2) [OF assms(1), of "p\<lparr>Status := change p\<rparr>" p] assms(3) by simp
  note ok = getModifyWrite_ok [where put = "\<lambda>new base. UpdatePolicyStatus a new",
      OF quiet_retry [OF assms(1)] quiet_readD(1) [OF assms(1)] assms(2) _ wr]
  show "result (updateLatestStatus a k change) w = None"
    and "view (final (updateLatestStatus a k change) w) =
      (view w)\<lparr>cPolicies := (cPolicies (view w))(k \<mapsto> stored_policy (p\<lparr>Status := change p\<rparr>))\<rparr>"
    unfolding updateLatestStatus_def by (rule ok, simp)+
qed

subsection \<open>Looking\<close>

text \<open>A run that leaves the view alone.\<close>

definition looks :: "('w \<Rightarrow> cluster) \<Rightarrow> ('w, 'r) state \<Rightarrow> bool" where
  "looks view m \<longleftrightarrow> (\<forall>w. view (final m w) = view w)"

lemma looksI: "(\<And>w. view (final m w) = view w) \<Longrightarrow> looks view m"
  by (simp add: looks_def)

lemma looks_final: "looks view m \<Longrightarrow> view (final m w) = view w"
  by (simp add: looks_def)

lemma looks_return: "looks view (return x)"
  by (simp add: looks_def)

lemma looks_bind: "looks view m \<Longrightarrow> (\<And>x. looks view (f x)) \<Longrightarrow> looks view (State_Monad.bind m f)"
  by (simp add: looks_def)

lemma looks_if: "looks view m \<Longrightarrow> looks view n \<Longrightarrow> looks view (if b then m else n)"
  by simp

lemma looks_case_sum:
  "(\<And>e. looks view (f e)) \<Longrightarrow> (\<And>y. looks view (g y)) \<Longrightarrow>
     looks view (case x of Inl e \<Rightarrow> f e | Inr y \<Rightarrow> g y)"
  by (cases x) auto

lemma looks_case_option:
  "looks view m \<Longrightarrow> (\<And>y. looks view (f y)) \<Longrightarrow> looks view (case x of None \<Rightarrow> m | Some y \<Rightarrow> f y)"
  by (cases x) auto

lemma looks_case_prod: "(\<And>x y. looks view (f x y)) \<Longrightarrow> looks view (case p of (x, y) \<Rightarrow> f x y)"
  by (cases p) auto

lemma looks_let: "looks view (f x) \<Longrightarrow> looks view (let y = x in f y)"
  by simp

lemmas looks_intros = looks_return looks_bind looks_if looks_case_sum looks_case_option looks_case_prod looks_let

lemma looks_calls:
  assumes "quiet_cluster a view"
  shows "looks view (ListNodes a sel)" "looks view (ListPods a ns)" "looks view (HttpDo a d url)"
    "looks view (KubeletStatsSummary a n)" "looks view (Now a)" "looks view (CtxErr a)"
    "looks view (GetPolicy a k)" "looks view (Sleep a d)" "looks view (WaitUntil a t)"
    "looks view (GetDeployment a k)" "looks view (GetStatefulSet a k)" "looks view (GetReplicaSet a k)"
    "looks view (ListPolicies a)" "looks view (ReaderListPolicies a)" "looks view (ReaderListNodes a)"
    "looks view (GetNamespace a nm)" "looks view (ListDeployments a nm ls)"
    "looks view (ListStatefulSets a nm ls)" "looks view (Draw a cases)"
  by (simp_all add: looks_def quiet_view [OF assms])

subsection \<open>Timers\<close>

text \<open>
  \<open>time.NewTicker(d)\<close> sends a tick at every multiple of \<open>d\<close> after its creation; its channel holds one
  tick, and the ticks that come while it is full are dropped. \<open>nextTick\<close> is the time of the tick that
  is in the channel, or, when the channel is empty, of the next one.
\<close>

record ticker =
  tickPeriod :: duration
  nextTick :: time

definition NewTicker :: "'w api \<Rightarrow> duration \<Rightarrow> ('w, ticker) state" where
  "NewTicker a d = do {
     now \<leftarrow> Now a;
     return \<lparr>tickPeriod = d, nextTick = now + d\<rparr>
   }"

text \<open>The ticker after its tick was received: the next tick is the first one after the receipt.\<close>

definition received :: "ticker \<Rightarrow> time \<Rightarrow> ticker" where
  "received tk now = tk\<lparr>nextTick := nextTick tk + ((now - nextTick tk) div tickPeriod tk + 1) * tickPeriod tk\<rparr>"

text \<open>
  \<open>select\<close> over \<open>ctx.Done()\<close>, a timer that fires at a deadline (when there is one) and a ticker. When
  cases are ready one of them is drawn; otherwise the \<open>select\<close> blocks until the first timer, and a
  context that is cancelled meanwhile wakes it.
\<close>

definition readyTimers :: "time \<Rightarrow> ticker \<Rightarrow> time option \<Rightarrow> selectEvent list" where
  "readyTimers now tk deadline =
     (case deadline of None \<Rightarrow> [] | Some dl \<Rightarrow> if dl \<le> now then [TimeoutFired] else []) @
     (if nextTick tk \<le> now then [TickerFired] else [])"

definition readyCases :: "err option \<Rightarrow> time \<Rightarrow> ticker \<Rightarrow> time option \<Rightarrow> selectEvent list" where
  "readyCases cancelled now tk deadline =
     readyTimers now tk deadline @ (case cancelled of None \<Rightarrow> [] | Some e \<Rightarrow> [CtxDone e])"

definition drawCase :: "'w api \<Rightarrow> selectEvent list \<Rightarrow> ('w, selectEvent) state" where
  "drawCase a cases =
     (if length cases \<le> 1 then return (hd cases)
      else do {
        n \<leftarrow> Draw a (length cases);
        return (cases ! (n mod length cases))
      })"

definition firstTimer :: "ticker \<Rightarrow> time option \<Rightarrow> time" where
  "firstTimer tk deadline = (case deadline of None \<Rightarrow> nextTick tk | Some dl \<Rightarrow> min dl (nextTick tk))"

definition selectTimers :: "'w api \<Rightarrow> ticker \<Rightarrow> time option \<Rightarrow> ('w, selectEvent \<times> ticker) state" where
  "selectTimers a tk deadline = do {
     cancelled \<leftarrow> CtxErr a;
     now \<leftarrow> Now a;
     if readyCases cancelled now tk deadline \<noteq> [] then do {
       ev \<leftarrow> drawCase a (readyCases cancelled now tk deadline);
       return (ev, if ev = TickerFired then received tk now else tk)
     } else do {
       woken \<leftarrow> WaitUntil a (firstTimer tk deadline);
       (case woken of
          Some e \<Rightarrow> return (CtxDone e, tk)
        | None \<Rightarrow> do {
            ev \<leftarrow> drawCase a (readyTimers (firstTimer tk deadline) tk deadline);
            return (ev, if ev = TickerFired then received tk (firstTimer tk deadline) else tk)
          })
     }
   }"

lemma looks_selectTimers:
  assumes "quiet_cluster a view"
  shows "looks view (selectTimers a tk deadline)" and "looks view (NewTicker a d)"
  unfolding selectTimers_def NewTicker_def drawCase_def
  by (intro looks_intros looks_calls [OF assms])+

text \<open>
  What is assumed of the time, as three laws. \<open>clock_law\<close>: a reading of the clock lies between the
  start and the end of the call, a wait ends no earlier than asked, and no call turns the clock back.
  \<open>uncancelled\<close>: the context of the run is not cancelled. \<open>draw_law\<close>: the pseudo-random choice among
  ready cases does not go against the first of them for ever: \<open>luck w\<close> bounds how often it still
  does from \<open>w\<close> on, and only \<open>Draw\<close> changes it. (Go chooses uniformly, so the number is finite with
  probability one; nothing is assumed of its size.)
\<close>

definition later :: "('w \<Rightarrow> time) \<Rightarrow> ('w \<Rightarrow> nat) \<Rightarrow> 'w \<Rightarrow> 'w \<Rightarrow> bool" where
  "later clock luck w w' \<longleftrightarrow> clock w \<le> clock w' \<and> luck w' \<le> luck w"

lemma later_preorder: "preorder_rel (later clock luck)"
  by (rule preorder_relI) (auto simp: later_def)

definition clock_law :: "'w api \<Rightarrow> ('w \<Rightarrow> time) \<Rightarrow> ('w \<Rightarrow> nat) \<Rightarrow> bool" where
  "clock_law a clock luck \<longleftrightarrow>
     (\<forall>w. clock w \<le> result (Now a) w \<and> result (Now a) w \<le> clock (final (Now a) w)) \<and>
     (\<forall>w t. result (WaitUntil a t) w = None \<longrightarrow> t \<le> clock (final (WaitUntil a t) w)) \<and>
     (\<forall>t. state_io_rel (later clock luck) (WaitUntil a t)) \<and>
     state_io_rel (later clock luck) (CtxErr a) \<and>
     (\<forall>d. state_io_rel (later clock luck) (Sleep a d)) \<and>
     state_io_rel (later clock luck) (Now a) \<and>
     (\<forall>k. state_io_rel (later clock luck) (GetPolicy a k)) \<and>
     (\<forall>k. state_io_rel (later clock luck) (GetDeployment a k)) \<and>
     (\<forall>k. state_io_rel (later clock luck) (GetStatefulSet a k)) \<and>
     (\<forall>t u. state_io_rel (later clock luck) (HttpDo a t u)) \<and>
     (\<forall>p b. state_io_rel (later clock luck) (PatchPolicyStatus a p b)) \<and>
     (\<forall>sel. state_io_rel (later clock luck) (ListNodes a sel)) \<and>
     (\<forall>ns sel. state_io_rel (later clock luck) (ListDeployments a ns sel)) \<and>
     (\<forall>ns sel. state_io_rel (later clock luck) (ListStatefulSets a ns sel))"

definition draw_law :: "'w api \<Rightarrow> ('w \<Rightarrow> time) \<Rightarrow> ('w \<Rightarrow> nat) \<Rightarrow> bool" where
  "draw_law a clock luck \<longleftrightarrow>
     (\<forall>n w. clock w \<le> clock (final (Draw a n) w) \<and>
        (result (Draw a n) w mod n \<noteq> 0 \<longrightarrow> luck (final (Draw a n) w) < luck w))"

definition uncancelled :: "'w api \<Rightarrow> bool" where
  "uncancelled a \<longleftrightarrow> (\<forall>w. result (CtxErr a) w = None) \<and> (\<forall>t w. result (WaitUntil a t) w = None)"

lemma clock_lawD:
  assumes "clock_law a clock luck"
  shows "clock w \<le> result (Now a) w" and "result (Now a) w \<le> clock (final (Now a) w)"
    and "result (WaitUntil a t) w = None \<Longrightarrow> t \<le> clock (final (WaitUntil a t) w)"
  using assms unfolding clock_law_def by metis+

lemma clock_law_io:
  assumes "clock_law a clock luck"
  shows "state_io_rel (later clock luck) (WaitUntil a t)" and "state_io_rel (later clock luck) (CtxErr a)"
    and "state_io_rel (later clock luck) (Sleep a d)" and "state_io_rel (later clock luck) (Now a)"
    and "state_io_rel (later clock luck) (GetPolicy a k)" and "state_io_rel (later clock luck) (GetDeployment a k)"
    and "state_io_rel (later clock luck) (GetStatefulSet a k)" and "state_io_rel (later clock luck) (HttpDo a t' u)"
    and "state_io_rel (later clock luck) (PatchPolicyStatus a p b)" and "state_io_rel (later clock luck) (ListNodes a nsel)"
    and "state_io_rel (later clock luck) (ListDeployments a ns sel)" and "state_io_rel (later clock luck) (ListStatefulSets a ns sel)"
  using assms unfolding clock_law_def by metis+

text \<open>
  Enough rounds of a loop over a \<open>select\<close>, entered at time \<open>t\<close>: one for every tick before the
  deadline, one for every choice that goes against the deadline, and the last; counted from \<open>t\<close>
  instead of from the next tick, one more for a tick that is already in the channel.
\<close>

definition enough_rounds :: "nat \<Rightarrow> time \<Rightarrow> ticker \<Rightarrow> time \<Rightarrow> nat \<Rightarrow> bool" where
  "enough_rounds fuel dl tk t unlucky \<longleftrightarrow>
     (\<exists>n. dl - nextTick tk \<le> int n * tickPeriod tk \<and> n + unlucky < fuel) \<or>
     (\<exists>n. dl - t \<le> int n * tickPeriod tk \<and> n + 1 + unlucky < fuel)"

lemma enough_rounds_pos: "enough_rounds fuel dl tk t l \<Longrightarrow> 0 < fuel"
  by (auto simp: enough_rounds_def)

lemma enough_rounds_later:
  assumes "enough_rounds fuel dl tk t l" and "t \<le> t'" and "l' \<le> l"
  shows "enough_rounds fuel dl tk t' l'"
  using assms(1) unfolding enough_rounds_def
proof (elim disjE exE conjE)
  fix n
  assume "dl - nextTick tk \<le> int n * tickPeriod tk" "n + l < fuel"
  moreover from this(2) assms(3) have "n + l' < fuel" by simp
  ultimately show "(\<exists>n. dl - nextTick tk \<le> int n * tickPeriod tk \<and> n + l' < fuel) \<or>
      (\<exists>n. dl - t' \<le> int n * tickPeriod tk \<and> n + 1 + l' < fuel)" by blast
next
  fix n
  assume "dl - t \<le> int n * tickPeriod tk" "n + 1 + l < fuel"
  then have "dl - t' \<le> int n * tickPeriod tk" "n + 1 + l' < fuel" using assms(2,3) by simp_all
  then show "(\<exists>n. dl - nextTick tk \<le> int n * tickPeriod tk \<and> n + l' < fuel) \<or>
      (\<exists>n. dl - t' \<le> int n * tickPeriod tk \<and> n + 1 + l' < fuel)" by blast
qed

lemma enough_rounds_tick:
  assumes "enough_rounds (Suc fuel) dl tk t l" and "0 < tickPeriod tk" and "tickPeriod tk' = tickPeriod tk"
    and "nextTick tk + tickPeriod tk \<le> nextTick tk'" and "t < nextTick tk'"
    and "l' \<le> l" and "dl \<le> nextTick tk \<Longrightarrow> l' < l"
  shows "enough_rounds fuel dl tk' t' l'"
  using assms(1) unfolding enough_rounds_def [of "Suc fuel"]
proof (elim disjE exE conjE)
  fix n
  assume n: "dl - nextTick tk \<le> int n * tickPeriod tk" "n + l < Suc fuel"
  show ?thesis
  proof (cases "dl \<le> nextTick tk")
    case True
    then have "dl - nextTick tk' \<le> int 0 * tickPeriod tk'" using assms(2,4) by simp
    moreover have "0 + l' < fuel" using assms(7) [OF True] n(2) by simp
    ultimately show ?thesis unfolding enough_rounds_def by blast
  next
    case False
    then obtain k where k: "n = Suc k" using n(1) by (cases n) auto
    then have "dl - nextTick tk' \<le> int k * tickPeriod tk'"
      using n(1) assms(3,4) by (simp add: algebra_simps)
    moreover have "k + l' < fuel" using assms(6) n(2) k by simp
    ultimately show ?thesis unfolding enough_rounds_def by blast
  qed
next
  fix n
  assume "dl - t \<le> int n * tickPeriod tk" "n + 1 + l < Suc fuel"
  then have "dl - nextTick tk' \<le> int n * tickPeriod tk'" "n + l' < fuel" using assms(3,5,6) by simp_all
  then show ?thesis unfolding enough_rounds_def by blast
qed

lemma less_next_multiple: "0 < d \<Longrightarrow> x < (x div d + 1) * d" for x d :: int
  by (simp add: distrib_right minus_mod_eq_div_mult [symmetric])

lemma received_next:
  assumes "0 < tickPeriod tk" and "nextTick tk \<le> now"
  shows "now < nextTick (received tk now)" and "nextTick tk + tickPeriod tk \<le> nextTick (received tk now)"
    and "tickPeriod (received tk now) = tickPeriod tk"
proof -
  let ?d = "tickPeriod tk" and ?x = "now - nextTick tk"
  have "?x < (?x div ?d + 1) * ?d" by (rule less_next_multiple [OF assms(1)])
  then show "now < nextTick (received tk now)" unfolding received_def by simp
  have "0 \<le> ?x div ?d" using assms by (simp add: pos_imp_zdiv_nonneg_iff)
  then have "0 \<le> ?x div ?d * ?d" using assms(1) by simp
  then show "nextTick tk + ?d \<le> nextTick (received tk now)" by (simp add: received_def distrib_right)
  show "tickPeriod (received tk now) = ?d" by (simp add: received_def)
qed

text \<open>One \<open>select\<close> with a deadline: either the deadline has passed, or a tick was received.\<close>

lemma select_round:
  assumes cl: "clock_law a clock luck" and dr: "draw_law a clock luck" and un: "uncancelled a"
    and d: "0 < tickPeriod tk"
  obtains (timeout) "result (selectTimers a tk (Some dl)) w = (TimeoutFired, tk)"
      and "dl \<le> clock (final (selectTimers a tk (Some dl)) w)"
      and "clock w \<le> clock (final (selectTimers a tk (Some dl)) w)"
  | (tick) tk' where "result (selectTimers a tk (Some dl)) w = (TickerFired, tk')"
      and "tickPeriod tk' = tickPeriod tk" and "nextTick tk + tickPeriod tk \<le> nextTick tk'"
      and "clock w < nextTick tk'"
      and "later clock luck w (final (selectTimers a tk (Some dl)) w)"
      and "dl \<le> nextTick tk \<Longrightarrow> luck (final (selectTimers a tk (Some dl)) w) < luck w"
proof -
  let ?w1 = "final (Now a) (final (CtxErr a) w)" and ?now = "result (Now a) (final (CtxErr a) w)"
  let ?f = "firstTimer tk (Some dl)" and ?s = "selectTimers a tk (Some dl)"
  let ?w2 = "final (WaitUntil a ?f) ?w1"
  have ctx: "result (CtxErr a) w = None" "\<And>t v. result (WaitUntil a t) v = None"
    using un by (simp_all add: uncancelled_def)
  have l1: "later clock luck w ?w1"
    using io_final [OF clock_law_io(2) [OF cl], of w] io_final [OF clock_law_io(4) [OF cl], of "final (CtxErr a) w"]
    unfolding later_def by linarith
  have now: "clock w \<le> ?now" "?now \<le> clock ?w1"
    using io_final [OF clock_law_io(2) [OF cl], of w] clock_lawD(1,2) [OF cl, of "final (CtxErr a) w"]
    unfolding later_def by linarith+
  have draw: thesis
    if v: "run_state ?s w = run_state (do { ev \<leftarrow> drawCase a (readyTimers m tk (Some dl));
          return (ev, if ev = TickerFired then received tk m else tk) }) v"
      and m: "m \<le> clock v" "clock w \<le> m" and lv: "later clock luck w v"
      and ne: "readyTimers m tk (Some dl) \<noteq> []" for m v
  proof -
    let ?c = "readyTimers m tk (Some dl)"
    let ?r = "drawCase a ?c"
    have s: "result ?s w = (result ?r v, if result ?r v = TickerFired then received tk m else tk)"
      "final ?s w = final ?r v"
      unfolding v by simp_all
    consider (only) "dl \<le> m" "\<not> nextTick tk \<le> m" | (due) "\<not> dl \<le> m" "nextTick tk \<le> m"
      | (both) "dl \<le> m" "nextTick tk \<le> m"
      using ne by (auto simp: readyTimers_def split: if_splits)
    then show thesis
    proof cases
      case only
      then have r: "run_state ?r v = (TimeoutFired, v)" by (simp add: drawCase_def readyTimers_def)
      show thesis using s only m by (intro timeout) (simp_all add: r)
    next
      case due
      then have r: "run_state ?r v = (TickerFired, v)" by (simp add: drawCase_def readyTimers_def)
      show thesis
        using s due m lv received_next [OF d due(2)] by (intro tick [of "received tk m"]) (simp_all add: r)
    next
      case both
      then have c: "?c = [TimeoutFired, TickerFired]" by (simp add: readyTimers_def)
      let ?n = "result (Draw a 2) v mod 2" and ?v = "final (Draw a 2) v"
      have r: "run_state ?r v = (if ?n = 0 then TimeoutFired else TickerFired, ?v)"
        unfolding c by (auto simp: drawCase_def numeral_2_eq_2)
      have law: "clock v \<le> clock ?v" "?n \<noteq> 0 \<Longrightarrow> luck ?v < luck v"
        using dr by (simp_all add: draw_law_def)
      show thesis
      proof (cases "?n = 0")
        case True
        then show thesis using s both m law(1) by (intro timeout) (simp_all add: r)
      next
        case False
        then show thesis
          using s both m lv law received_next [OF d both(2)]
          by (intro tick [of "received tk m"]) (simp_all add: r later_def)
      qed
    qed
  qed
  show thesis
  proof (cases "readyTimers ?now tk (Some dl) = []")
    case False
    show thesis
      by (rule draw [of ?now ?w1]) (use False now l1 ctx in \<open>simp_all add: selectTimers_def readyCases_def\<close>)
  next
    case True
    then have "?now < ?f" by (auto simp: readyTimers_def firstTimer_def split: if_splits)
    moreover have "later clock luck ?w1 ?w2" by (rule io_final [OF clock_law_io(1) [OF cl]])
    then have "later clock luck w ?w2" using l1 unfolding later_def by linarith
    moreover have "?f \<le> clock ?w2" by (rule clock_lawD(3) [OF cl ctx(2)])
    moreover have "readyTimers ?f tk (Some dl) \<noteq> []" by (auto simp: readyTimers_def firstTimer_def)
    ultimately show thesis
      using now True ctx by (intro draw [of ?f ?w2]) (simp_all add: selectTimers_def readyCases_def)
  qed
qed

subsection \<open>Stores\<close>

text \<open>
  A kind of object of the cluster: how its map is read and replaced, and an object's key. The
  loops of the operator run one operation per listed object; on a store each of them changes its
  own object, so the loop changes the map pointwise.
\<close>

definition on_keys :: "('o \<Rightarrow> 'o) \<Rightarrow> 'k set \<Rightarrow> ('k \<rightharpoonup> 'o) \<Rightarrow> ('k \<rightharpoonup> 'o)" where
  "on_keys g K m = (\<lambda>k. if k \<in> K then map_option g (m k) else m k)"

lemma on_keys_empty [simp]: "on_keys g {} m = m"
  by (simp add: on_keys_def)

lemma on_keys_insert:
  "k \<notin> K \<Longrightarrow> m k = Some x \<Longrightarrow> on_keys g K (m(k \<mapsto> g x)) = on_keys g (insert k K) m"
  by (auto simp: on_keys_def fun_eq_iff)

lemma on_keys_on_keys: "on_keys g K (on_keys f K m) = on_keys (g \<circ> f) K m"
  by (auto simp: on_keys_def fun_eq_iff option.map_comp)

lemma on_keys_id: "(\<And>k x. k \<in> K \<Longrightarrow> m k = Some x \<Longrightarrow> g x = x) \<Longrightarrow> on_keys g K m = m"
  by (auto simp: on_keys_def fun_eq_iff intro!: option.map_ident_strong)

locale object_store =
  fixes obj :: "cluster \<Rightarrow> nsname \<rightharpoonup> 'o"
    and put :: "(nsname \<rightharpoonup> 'o) \<Rightarrow> cluster \<Rightarrow> cluster"
    and key :: "'o \<Rightarrow> nsname"
  assumes obj_put: "obj (put m c) = m"
    and put_obj: "put (obj c) c = c"
    and put_put: "put m (put m' c) = put m c"
begin

text \<open>
  An operation called with an object that is the stored one: it changes nothing but that object,
  and, for the second predicate, it returns no error.
\<close>

definition acts :: "('w \<Rightarrow> cluster) \<Rightarrow> ('o \<Rightarrow> 'o) \<Rightarrow> 'o \<Rightarrow> ('w, 'e option) state \<Rightarrow> bool" where
  "acts view g d m \<longleftrightarrow>
     (\<forall>w. obj (view w) (key d) = Some d \<longrightarrow>
        view (final m w) = put ((obj (view w))(key d \<mapsto> g d)) (view w))"

definition succeeds :: "('w \<Rightarrow> cluster) \<Rightarrow> 'o \<Rightarrow> ('w, 'e option) state \<Rightarrow> bool" where
  "succeeds view d m \<longleftrightarrow> (\<forall>w. obj (view w) (key d) = Some d \<longrightarrow> result m w = None)"

definition listed :: "cluster \<Rightarrow> 'o list \<Rightarrow> bool" where
  "listed c ds \<longleftrightarrow> distinct (map key ds) \<and> (\<forall>d \<in> set ds. obj c (key d) = Some d)"

lemma listed_Cons:
  assumes "listed c (d # ds)"
  shows "obj c (key d) = Some d" and "key d \<notin> key ` set ds"
    and "listed (put ((obj c)(key d \<mapsto> x)) c) ds"
proof -
  show d: "obj c (key d) = Some d" "key d \<notin> key ` set ds"
    using assms by (simp_all add: listed_def)
  have "key e \<noteq> key d" if "e \<in> set ds" for e
    using d(2) that by (metis imageI)
  then show "listed (put ((obj c)(key d \<mapsto> x)) c) ds"
    using assms by (simp add: listed_def obj_put)
qed

lemma for_each_pointwise:
  assumes "\<And>d. d \<in> set ds \<Longrightarrow> acts view g d (f d)" and "listed (view w) ds"
  shows "view (final (for_each ds f) w) = put (on_keys g (key ` set ds) (obj (view w))) (view w)"
  using assms
proof (induction ds arbitrary: w)
  case Nil
  then show ?case by (simp add: put_obj)
next
  case (Cons d ds)
  note l = listed_Cons [OF Cons.prems(2)]
  have step: "view (final (f d) w) = put ((obj (view w))(key d \<mapsto> g d)) (view w)"
    using Cons.prems(1) [of d] l(1) by (simp add: acts_def)
  have "view (final (for_each ds f) (final (f d) w)) =
      put (on_keys g (key ` set ds) (obj (view (final (f d) w)))) (view (final (f d) w))"
    using Cons.prems(1) l(3) by (intro Cons.IH) (auto simp: step)
  then show ?case
    by (simp add: step obj_put put_put on_keys_insert [where m = "obj (view w)" and g = g, OF l(2,1)])
qed

lemma for_until_error_succeeds:
  assumes "\<And>d. d \<in> set ds \<Longrightarrow> acts view g d (f d)" and "\<And>d. d \<in> set ds \<Longrightarrow> succeeds view d (f d)"
    and "listed (view w) ds"
  shows "result (for_until_error ds f) w = None"
  using assms
proof (induction ds arbitrary: w)
  case (Cons d ds)
  note l = listed_Cons [OF Cons.prems(3)]
  have "view (final (f d) w) = put ((obj (view w))(key d \<mapsto> g d)) (view w)"
    using Cons.prems(1) [of d] l(1) by (simp add: acts_def)
  moreover have "result (f d) w = None"
    using Cons.prems(2) [of d] l(1) by (simp add: succeeds_def)
  moreover have "result (for_until_error ds f) (final (f d) w) = None"
    using Cons.prems(1,2) l(3) by (intro Cons.IH) (auto simp: calculation)
  ultimately show ?case by simp
qed simp

corollary for_until_error_pointwise:
  assumes "\<And>d. d \<in> set ds \<Longrightarrow> acts view g d (f d)" and "\<And>d. d \<in> set ds \<Longrightarrow> succeeds view d (f d)"
    and "listed (view w) ds"
  shows "view (final (for_until_error ds f) w) =
    put (on_keys g (key ` set ds) (obj (view w))) (view w)"
  using for_each_pointwise [of ds view g f w, OF assms(1,3)]
    for_until_error_None_run [OF for_until_error_succeeds [OF assms]] by simp

text \<open>The get-modify-write block acts on its object, and succeeds.\<close>

lemma getModifyWrite_acts:
  assumes "retry_law a"
    and get: "reads view getLatest (\<lambda>c. found (obj c (key d)))"
    and wr: "\<And>y. change d = Some y \<Longrightarrow>
      writes view (write' y d) (\<lambda>c. obj c (key d) = Some d)
        (\<lambda>c. put ((obj c)(key d \<mapsto> g d)) c)"
    and skip: "change d = None \<Longrightarrow> g d = d"
  shows "acts view g d (getModifyWrite a getLatest change write')"
    and "succeeds view d (getModifyWrite a getLatest change write')"
proof -
  have "result (getModifyWrite a getLatest change write') w = None \<and>
    view (final (getModifyWrite a getLatest change write') w) =
      put ((obj (view w))(key d \<mapsto> g d)) (view w)" if x: "obj (view w) (key d) = Some d" for w
  proof (cases "change d")
    case None
    then have "(obj (view w))(key d \<mapsto> g d) = obj (view w)"
      using skip x by auto
    then show ?thesis
      using getModifyWrite_skip [where obj = "\<lambda>c. obj c (key d)" and change = change,
          OF assms(1) get x None] by (simp add: put_obj)
  next
    case (Some y)
    then show ?thesis
      using getModifyWrite_ok [where obj = "\<lambda>c. obj c (key d)" and put = write' and change = change,
          OF assms(1) get x Some wr [OF Some]] by blast
  qed
  then show "acts view g d (getModifyWrite a getLatest change write')"
    and "succeeds view d (getModifyWrite a getLatest change write')"
    by (simp_all add: acts_def succeeds_def)
qed

end

interpretation policies: object_store cPolicies "\<lambda>m. cPolicies_update (\<lambda>_. m)" policy_key
  by unfold_locales simp_all

interpretation deployments: object_store cDeployments "\<lambda>m. cDeployments_update (\<lambda>_. m)" workload_key
  by unfold_locales simp_all

interpretation statefulSets: object_store cStatefulSets "\<lambda>m. cStatefulSets_update (\<lambda>_. m)" workload_key
  by unfold_locales simp_all

end
