(* ===== verification/Mem_Client.thy ===== *)
theory Mem_Client
  imports Client "HOL-Library.AList"
begin

text \<open>
  A concrete client: an API server kept in memory that one client uses alone. It is not a model
  of any code of the repository; it instantiates the record of theory \<open>Client\<close> so that the
  hypotheses about clients can be discharged and the definitions evaluated on concrete clusters.
\<close>

record mem =
  mPolicies :: "policy list"
  mDeployments :: "workload list"
  mStatefulSets :: "workload list"
  mNamespaces :: "string list"
  mReplicaSets :: "(nsname \<times> replicaSet) list"
  mPods :: "pod list"
  mNodes :: "node list"
  mNow :: time

definition by_key :: "('o \<Rightarrow> 'k) \<Rightarrow> 'o list \<Rightarrow> ('k \<times> 'o) list" where
  "by_key key xs = map (\<lambda>x. (key x, x)) xs"

definition lookup_key :: "('o \<Rightarrow> 'k) \<Rightarrow> 'o list \<Rightarrow> 'k \<Rightarrow> 'o option" where
  "lookup_key key xs k = map_of (by_key key xs) k"

definition list_keys :: "('o \<Rightarrow> 'k) \<Rightarrow> 'o list \<Rightarrow> 'o list" where
  "list_keys key xs = map snd (AList.clearjunk (by_key key xs))"

definition replace_key :: "('o \<Rightarrow> 'k) \<Rightarrow> 'o \<Rightarrow> 'o list \<Rightarrow> 'o list" where
  "replace_key key x xs = map (\<lambda>y. if key y = key x then x else y) xs"

definition mem_view :: "mem \<Rightarrow> cluster" where
  "mem_view m = \<lparr>
     cPolicies = lookup_key policy_key (mPolicies m),
     cDeployments = lookup_key workload_key (mDeployments m),
     cStatefulSets = lookup_key workload_key (mStatefulSets m),
     cNamespaces = set (mNamespaces m),
     cPods = mPods m,
     cNodes = mNodes m\<rparr>"

subsection \<open>The operations\<close>

definition mem_read :: "(mem \<Rightarrow> 'r) \<Rightarrow> (mem, 'r) state" where
  "mem_read f = State (\<lambda>m. (f m, m))"

definition mem_write :: "(mem \<Rightarrow> bool) \<Rightarrow> (mem \<Rightarrow> mem) \<Rightarrow> (mem, err option) state" where
  "mem_write present f =
     State (\<lambda>m. if present m then (None, f m) else (Some (StatusError ReasonNotFound ''not found''), m))"

definition mem_found :: "'o option \<Rightarrow> err + 'o" where
  "mem_found x = (case x of None \<Rightarrow> Inl (StatusError ReasonNotFound ''not found'') | Some y \<Rightarrow> Inr y)"

definition mem_sleep :: "duration \<Rightarrow> (mem, unit) state" where
  "mem_sleep d = State (\<lambda>m. ((), m\<lparr>mNow := mNow m + max 0 d\<rparr>))"

fun mem_retry :: "nat \<Rightarrow> (mem, err option) state \<Rightarrow> (mem, err option) state" where
  "mem_retry 0 f = f"
| "mem_retry (Suc n) f = do {
     r \<leftarrow> f;
     (case r of
        None \<Rightarrow> return None
      | Some e \<Rightarrow> if IsConflict e then do { _ \<leftarrow> mem_sleep 10000000; mem_retry n f } else return (Some e))
   }"

definition mem_selects :: "selector option \<Rightarrow> string \<Rightarrow> workload \<Rightarrow> bool" where
  "mem_selects sel ns d \<longleftrightarrow>
     Namespace (workload_Meta d) = ns \<and>
     (case sel of None \<Rightarrow> True | Some s \<Rightarrow> s (Labels (workload_Meta d)))"

definition mem_labels_match :: "nodeSelector \<Rightarrow> labels \<Rightarrow> bool" where
  "mem_labels_match sel l \<longleftrightarrow> list_all (\<lambda>(k, v). l k = Some v) sel"

fun insert_by :: "('a \<Rightarrow> 'a \<Rightarrow> bool) \<Rightarrow> 'a \<Rightarrow> 'a list \<Rightarrow> 'a list" where
  "insert_by lt x [] = [x]"
| "insert_by lt x (y # ys) = (if lt y x then y # insert_by lt x ys else x # y # ys)"

definition insertion_sort :: "('a \<Rightarrow> 'a \<Rightarrow> bool) \<Rightarrow> 'a list \<Rightarrow> 'a list" where
  "insertion_sort lt xs = foldr (insert_by lt) xs []"

fun in_turn :: "(mem, unit option) state list \<Rightarrow> (mem, unit option) state" where
  "in_turn [] = return (Some ())"
| "in_turn (m # ms) = do {
     r \<leftarrow> m;
     rs \<leftarrow> in_turn ms;
     return (case r of None \<Rightarrow> None | Some _ \<Rightarrow> rs)
   }"

definition mem_api :: "mem api" where
  "mem_api = \<lparr>
     RetryOnConflict = mem_retry 4,
     Now = mem_read mNow,
     Sleep = mem_sleep,
     CtxErr = return None,
     WaitUntil = (\<lambda>t. State (\<lambda>m. (None, m\<lparr>mNow := max (mNow m) t\<rparr>))),
     Draw = (\<lambda>n. return 0),
     FormatRFC3339 = (\<lambda>t. Itoa t),
     Int32OfFloat = (\<lambda>q. - (2 ^ 31)),
     RangeOrder = rev,
     SortSlice = insertion_sort,
     GoWait = in_turn,
     LabelSelectorAsSelector =
       (\<lambda>s. if MatchExpressions s = [] then Inr (mem_labels_match (MatchLabels s))
            else Inl (Errorf ''unsupported'')),
     GetPolicy = (\<lambda>k. mem_read (\<lambda>m. mem_found (lookup_key policy_key (mPolicies m) k))),
     ListPolicies = mem_read (\<lambda>m. Inr (list_keys policy_key (mPolicies m))),
     ReaderListPolicies = mem_read (\<lambda>m. Inr (list_keys policy_key (mPolicies m))),
     PatchPolicyStatus = (\<lambda>p base. mem_write
       (\<lambda>m. lookup_key policy_key (mPolicies m) (policy_key p) \<noteq> None)
       (\<lambda>m. m\<lparr>mPolicies := replace_key policy_key
          (stored_policy ((the (lookup_key policy_key (mPolicies m) (policy_key p)))\<lparr>Status := Status p\<rparr>))
          (mPolicies m)\<rparr>)),
     UpdatePolicyStatus = (\<lambda>p. mem_write
       (\<lambda>m. lookup_key policy_key (mPolicies m) (policy_key p) \<noteq> None)
       (\<lambda>m. m\<lparr>mPolicies := replace_key policy_key
          (stored_policy ((the (lookup_key policy_key (mPolicies m) (policy_key p)))\<lparr>Status := Status p\<rparr>))
          (mPolicies m)\<rparr>)),
     UpdatePolicy = (\<lambda>p. mem_write
       (\<lambda>m. lookup_key policy_key (mPolicies m) (policy_key p) \<noteq> None)
       (\<lambda>m. m\<lparr>mPolicies := replace_key policy_key
          (p\<lparr>Status := Status (the (lookup_key policy_key (mPolicies m) (policy_key p)))\<rparr>)
          (mPolicies m)\<rparr>)),
     GetNamespace = (\<lambda>ns. mem_read (\<lambda>m.
        if ns \<in> set (mNamespaces m) then None else Some (StatusError ReasonNotFound ''not found''))),
     ListDeployments = (\<lambda>ns sel. mem_read (\<lambda>m.
        Inr (filter (mem_selects sel ns) (list_keys workload_key (mDeployments m))))),
     GetDeployment = (\<lambda>k. mem_read (\<lambda>m. mem_found (lookup_key workload_key (mDeployments m) k))),
     PatchDeployment = (\<lambda>d base. mem_write
       (\<lambda>m. lookup_key workload_key (mDeployments m) (workload_key d) \<noteq> None)
       (\<lambda>m. m\<lparr>mDeployments := replace_key workload_key (stored_workload d) (mDeployments m)\<rparr>)),
     ListStatefulSets = (\<lambda>ns sel. mem_read (\<lambda>m.
        Inr (filter (mem_selects sel ns) (list_keys workload_key (mStatefulSets m))))),
     GetStatefulSet = (\<lambda>k. mem_read (\<lambda>m. mem_found (lookup_key workload_key (mStatefulSets m) k))),
     PatchStatefulSet = (\<lambda>d base. mem_write
       (\<lambda>m. lookup_key workload_key (mStatefulSets m) (workload_key d) \<noteq> None)
       (\<lambda>m. m\<lparr>mStatefulSets := replace_key workload_key (stored_workload d) (mStatefulSets m)\<rparr>)),
     GetReplicaSet = (\<lambda>k. mem_read (\<lambda>m. mem_found (map_of (mReplicaSets m) k))),
     ListPods = (\<lambda>ns. mem_read (\<lambda>m.
        Inr (filter (\<lambda>p. ns = None \<or> ns = Some (Namespace (pod_Meta p))) (mPods m)))),
     DeletePod = (\<lambda>p g. mem_write
       (\<lambda>m. \<exists>q \<in> set (mPods m). meta_key (pod_Meta q) = meta_key (pod_Meta p))
       (\<lambda>m. m\<lparr>mPods := filter (\<lambda>q. meta_key (pod_Meta q) \<noteq> meta_key (pod_Meta p)) (mPods m)\<rparr>)),
     ListNodes = (\<lambda>sel. mem_read (\<lambda>m.
        Inr (filter (\<lambda>n. case sel of None \<Rightarrow> True | Some s \<Rightarrow> mem_labels_match s (Labels (node_Meta n))) (mNodes m)))),
     ReaderListNodes = mem_read (\<lambda>m. Inr (mNodes m)),
     HttpNewRequest = (\<lambda>url. None),
     HttpDo = (\<lambda>t url. return (Inr \<lparr>StatusCode = 200, BodyJSON = Inr []\<rparr>)),
     HasRESTClient = True,
     KubeletStatsSummary = (\<lambda>n. return (Inr (Inr \<lparr>UsageNanoCores = 0, UsageBytes = 0\<rparr>)))\<rparr>"

lemma mem_ops:
  "RetryOnConflict mem_api = mem_retry 4"
  "Now mem_api = mem_read mNow"
  "Sleep mem_api = mem_sleep"
  "CtxErr mem_api = return None"
  "WaitUntil mem_api = (\<lambda>t. State (\<lambda>m. (None, m\<lparr>mNow := max (mNow m) t\<rparr>)))"
  "Draw mem_api = (\<lambda>n. return 0)"
  "FormatRFC3339 mem_api = (\<lambda>t. Itoa t)"
  "Int32OfFloat mem_api = (\<lambda>q. - (2 ^ 31))"
  "RangeOrder mem_api = rev"
  "SortSlice mem_api = insertion_sort"
  "GoWait mem_api = in_turn"
  "LabelSelectorAsSelector mem_api =
        (\<lambda>s. if MatchExpressions s = [] then Inr (mem_labels_match (MatchLabels s))
             else Inl (Errorf ''unsupported''))"
  "GetPolicy mem_api = (\<lambda>k. mem_read (\<lambda>m. mem_found (lookup_key policy_key (mPolicies m) k)))"
  "ListPolicies mem_api = mem_read (\<lambda>m. Inr (list_keys policy_key (mPolicies m)))"
  "ReaderListPolicies mem_api = mem_read (\<lambda>m. Inr (list_keys policy_key (mPolicies m)))"
  "PatchPolicyStatus mem_api = (\<lambda>p base. mem_write
        (\<lambda>m. lookup_key policy_key (mPolicies m) (policy_key p) \<noteq> None)
        (\<lambda>m. m\<lparr>mPolicies := replace_key policy_key
           (stored_policy ((the (lookup_key policy_key (mPolicies m) (policy_key p)))\<lparr>Status := Status p\<rparr>))
           (mPolicies m)\<rparr>))"
  "UpdatePolicyStatus mem_api = (\<lambda>p. mem_write
        (\<lambda>m. lookup_key policy_key (mPolicies m) (policy_key p) \<noteq> None)
        (\<lambda>m. m\<lparr>mPolicies := replace_key policy_key
           (stored_policy ((the (lookup_key policy_key (mPolicies m) (policy_key p)))\<lparr>Status := Status p\<rparr>))
           (mPolicies m)\<rparr>))"
  "UpdatePolicy mem_api = (\<lambda>p. mem_write
        (\<lambda>m. lookup_key policy_key (mPolicies m) (policy_key p) \<noteq> None)
        (\<lambda>m. m\<lparr>mPolicies := replace_key policy_key
           (p\<lparr>Status := Status (the (lookup_key policy_key (mPolicies m) (policy_key p)))\<rparr>)
           (mPolicies m)\<rparr>))"
  "GetNamespace mem_api = (\<lambda>ns. mem_read (\<lambda>m.
         if ns \<in> set (mNamespaces m) then None else Some (StatusError ReasonNotFound ''not found'')))"
  "ListDeployments mem_api = (\<lambda>ns sel. mem_read (\<lambda>m.
         Inr (filter (mem_selects sel ns) (list_keys workload_key (mDeployments m)))))"
  "GetDeployment mem_api = (\<lambda>k. mem_read (\<lambda>m. mem_found (lookup_key workload_key (mDeployments m) k)))"
  "PatchDeployment mem_api = (\<lambda>d base. mem_write
        (\<lambda>m. lookup_key workload_key (mDeployments m) (workload_key d) \<noteq> None)
        (\<lambda>m. m\<lparr>mDeployments := replace_key workload_key (stored_workload d) (mDeployments m)\<rparr>))"
  "ListStatefulSets mem_api = (\<lambda>ns sel. mem_read (\<lambda>m.
         Inr (filter (mem_selects sel ns) (list_keys workload_key (mStatefulSets m)))))"
  "GetStatefulSet mem_api = (\<lambda>k. mem_read (\<lambda>m. mem_found (lookup_key workload_key (mStatefulSets m) k)))"
  "PatchStatefulSet mem_api = (\<lambda>d base. mem_write
        (\<lambda>m. lookup_key workload_key (mStatefulSets m) (workload_key d) \<noteq> None)
        (\<lambda>m. m\<lparr>mStatefulSets := replace_key workload_key (stored_workload d) (mStatefulSets m)\<rparr>))"
  "GetReplicaSet mem_api = (\<lambda>k. mem_read (\<lambda>m. mem_found (map_of (mReplicaSets m) k)))"
  "ListPods mem_api = (\<lambda>ns. mem_read (\<lambda>m.
         Inr (filter (\<lambda>p. ns = None \<or> ns = Some (Namespace (pod_Meta p))) (mPods m))))"
  "DeletePod mem_api = (\<lambda>p g. mem_write
        (\<lambda>m. \<exists>q \<in> set (mPods m). meta_key (pod_Meta q) = meta_key (pod_Meta p))
        (\<lambda>m. m\<lparr>mPods := filter (\<lambda>q. meta_key (pod_Meta q) \<noteq> meta_key (pod_Meta p)) (mPods m)\<rparr>))"
  "ListNodes mem_api = (\<lambda>sel. mem_read (\<lambda>m.
         Inr (filter (\<lambda>n. case sel of None \<Rightarrow> True | Some s \<Rightarrow> mem_labels_match s (Labels (node_Meta n))) (mNodes m))))"
  "ReaderListNodes mem_api = mem_read (\<lambda>m. Inr (mNodes m))"
  "HttpNewRequest mem_api = (\<lambda>url. None)"
  "HttpDo mem_api = (\<lambda>t url. return (Inr \<lparr>StatusCode = 200, BodyJSON = Inr []\<rparr>))"
  "HasRESTClient mem_api = True"
  "KubeletStatsSummary mem_api = (\<lambda>n. return (Inr (Inr \<lparr>UsageNanoCores = 0, UsageBytes = 0\<rparr>)))"
  by (simp_all only: mem_api_def api.select_convs)

lemma run_mem_read [simp]: "run_state (mem_read f) m = (f m, m)"
  by (simp add: mem_read_def)

lemma run_mem_write [simp]:
  "run_state (mem_write P f) m =
     (if P m then (None, f m) else (Some (StatusError ReasonNotFound ''not found''), m))"
  by (simp add: mem_write_def)

lemma run_mem_sleep [simp]: "run_state (mem_sleep d) m = ((), m\<lparr>mNow := mNow m + max 0 d\<rparr>)"
  by (simp add: mem_sleep_def)

lemmas mem_eval = mem_ops mem_found_def lookup_key_def by_key_def list_keys_def
  replace_key_def mem_selects_def mem_labels_match_def numeral_eq_Suc

subsection \<open>It satisfies the laws\<close>

lemma mem_retry_law: "retry_law mem_api"
proof -
  have "retries mem_api f w (run_state (mem_retry n f) w)" for n f w
  proof (induction n arbitrary: w)
    case 0
    show ?case by (simp add: retries.stop)
  next
    case (Suc n)
    show ?case
    proof (cases "\<exists>e. result f w = Some e \<and> IsConflict e")
      case True
      then obtain e where e: "result f w = Some e" "IsConflict e" by blast
      then have "run_state (mem_retry (Suc n) f) w =
          run_state (mem_retry n f) (final (Sleep mem_api 10000000) (final f w))"
        by (simp add: mem_api_def)
      then show ?thesis using retries.again [OF e Suc.IH] by simp
    next
      case False
      then have "run_state (mem_retry (Suc n) f) w = run_state f w"
        by (auto split: option.splits simp: prod_eq_iff)
      then show ?thesis by (simp only: retries.stop)
    qed
  qed
  then show ?thesis by (simp add: retry_law_def mem_api_def)
qed

lemma lookup_key_Some: "lookup_key key xs k = Some x \<Longrightarrow> key x = k"
  by (auto simp: lookup_key_def by_key_def dest: map_of_SomeD)

lemma mem_view_keyed: "keyed_cluster (mem_view m)"
  by (auto simp: keyed_cluster_def mem_view_def dest: lookup_key_Some)

lemma lookup_replace_key:
  "lookup_key key xs (key x) \<noteq> None \<Longrightarrow>
     lookup_key key (replace_key key x xs) = (lookup_key key xs)(key x \<mapsto> x)"
proof -
  have "map_of (by_key key (replace_key key x xs)) k =
      (if k = key x \<and> k \<in> key ` set xs then Some x else map_of (by_key key xs) k)" for k
    by (induction xs) (auto simp: by_key_def replace_key_def)
  moreover assume "lookup_key key xs (key x) \<noteq> None"
  then have "key x \<in> key ` set xs"
    by (auto simp: lookup_key_def by_key_def map_of_eq_None_iff image_image)
  ultimately show ?thesis by (auto simp: lookup_key_def)
qed

lemma list_keys_set: "set (list_keys key xs) = ran (lookup_key key xs)"
proof -
  have "set (list_keys key xs) = ran (map_of (AList.clearjunk (by_key key xs)))"
    by (simp add: list_keys_def ran_distinct distinct_clearjunk)
  then show ?thesis by (simp add: map_of_clearjunk lookup_key_def [abs_def])
qed

lemma list_keys_distinct: "distinct (map key (list_keys key xs))"
proof -
  have eq: "map key (map snd (AList.clearjunk (by_key key xs))) = map fst (AList.clearjunk (by_key key xs))"
  proof -
    have "key v = k" if "(k, v) \<in> set (AList.clearjunk (by_key key xs))" for k v
    proof -
      have "map_of (AList.clearjunk (by_key key xs)) k = Some v"
        using that by (simp add: distinct_clearjunk)
      then show ?thesis by (auto simp: map_of_clearjunk by_key_def dest: map_of_SomeD)
    qed
    then show ?thesis by auto
  qed
  show ?thesis unfolding list_keys_def eq by (rule distinct_clearjunk)
qed

lemma list_keys_lists: "lists (ran (lookup_key key xs)) key (Inr (list_keys key xs))"
  by (simp add: lists_def list_keys_set list_keys_distinct)

lemma list_workloads_lists:
  "lists (in_namespace (lookup_key workload_key ds) ns sel) workload_key
     (Inr (filter (mem_selects sel ns) (list_keys workload_key ds)))"
proof -
  have "set (filter (mem_selects sel ns) (list_keys workload_key ds)) =
      in_namespace (lookup_key workload_key ds) ns sel"
  proof (intro set_eqI iffI)
    fix d
    assume "d \<in> set (filter (mem_selects sel ns) (list_keys workload_key ds))"
    then obtain k where k: "lookup_key workload_key ds k = Some d" and d: "mem_selects sel ns d"
      by (auto simp: list_keys_set ran_def)
    moreover from lookup_key_Some [OF k] have "fst k = Namespace (workload_Meta d)"
      by (auto simp: workload_key_def meta_key_def)
    ultimately show "d \<in> in_namespace (lookup_key workload_key ds) ns sel"
      by (cases k) (auto simp: in_namespace_def mem_selects_def)
  next
    fix d
    assume "d \<in> in_namespace (lookup_key workload_key ds) ns sel"
    then obtain k where k: "lookup_key workload_key ds k = Some d" "fst k = ns"
      "case sel of None \<Rightarrow> True | Some s \<Rightarrow> s (Labels (workload_Meta d))"
      by (auto simp: in_namespace_def)
    moreover from lookup_key_Some [OF k(1)] have "fst k = Namespace (workload_Meta d)"
      by (auto simp: workload_key_def meta_key_def)
    ultimately show "d \<in> set (filter (mem_selects sel ns) (list_keys workload_key ds))"
      by (cases k) (auto simp: list_keys_set ran_def mem_selects_def)
  qed
  then show ?thesis
    by (simp add: lists_def list_keys_distinct distinct_map_filter)
qed

lemma stored_keys [simp]:
  "policy_key (stored_policy p) = policy_key p"
  "workload_key (stored_workload d) = workload_key d"
  by (simp_all add: stored_policy_def stored_workload_def policy_key_def workload_key_def)

lemma mem_quiet_reads: "quiet_reads mem_api mem_view"
  unfolding quiet_reads_def
  by (auto simp: reads_def mem_api_def mem_view_def found_def mem_found_def list_keys_lists Let_def
      list_workloads_lists split: option.splits)

lemma lookup_replace_at:
  "lookup_key key xs k = Some y \<Longrightarrow> key x = k \<Longrightarrow>
     lookup_key key (replace_key key x xs) = (lookup_key key xs)(k \<mapsto> x)"
  using lookup_replace_key [of key xs x] by auto

lemma lookup_replace_status:
  assumes "lookup_key policy_key ps (policy_key p) = Some base"
  shows "lookup_key policy_key (replace_key policy_key (stored_policy (base\<lparr>Status := s\<rparr>)) ps) =
    (lookup_key policy_key ps)(policy_key p \<mapsto> stored_policy (base\<lparr>Status := s\<rparr>))"
  using lookup_replace_at [OF assms] lookup_key_Some [OF assms] by simp

lemma mem_quiet_writes: "quiet_writes mem_api mem_view"
  unfolding quiet_writes_def
  by (auto simp: writes_def mem_api_def mem_view_def lookup_replace_status lookup_replace_at)

lemma mem_quiet: "quiet_cluster mem_api mem_view"
  by (simp add: quiet_cluster_def mem_retry_law mem_quiet_reads mem_quiet_writes mem_view_keyed)

lemma mem_clock: "clock_law mem_api mNow (\<lambda>m. 0)"
  unfolding clock_law_def by (auto simp: mem_ops state_io_rel_def later_def)

lemma mem_draw: "draw_law mem_api mNow (\<lambda>m. 0)"
  by (simp add: draw_law_def mem_ops)

lemma mem_uncancelled: "uncancelled mem_api"
  by (simp add: uncancelled_def mem_ops)

subsection \<open>Objects for concrete runs\<close>

definition sample_meta :: "string \<Rightarrow> string \<Rightarrow> objectMeta" where
  "sample_meta ns name = \<lparr>Name = name, Namespace = ns, UID = ns @ name, Labels = Map.empty,
     Annotations = Map.empty, CreationTimestamp = 0, DeletionTimestamp = None\<rparr>"

definition sample_workload :: "string \<Rightarrow> int \<Rightarrow> workload" where
  "sample_workload name n = \<lparr>workload_Meta = sample_meta ''shop'' name, Replicas = Some n,
     TemplateAnnotations = Map.empty, TemplateGracePeriod = Some 45, status_Replicas = n,
     ReadyReplicas = n, AvailableReplicas = n, workload_Conditions = []\<rparr>"

definition sample_spec :: policySpec where
  "sample_spec = \<lparr>TargetNamespace = ''shop'', Selector = None, Action = LifecycleActionFreeze,
     OperationId = ''op-1'', StartupPolicy = StartupPolicyIgnore, BalancePods = False,
     BalanceWindowSeconds = 0,
     TerminationGracePeriodSeconds = Some \<lparr>GraceDeployment = Some 5, GraceStatefulSet = Some 6\<rparr>,
     StartupNodeReadinessPolicy = None, ResumeDelay = 0, ResumePriority = 0, FreezeDelay = 0,
     FreezePriority = 0, AdaptiveThrottling = None, PreConditions = None,
     HandleNodeFailure = False\<rparr>"

definition empty_status :: policyStatus where
  "empty_status = \<lparr>Phase = PhaseUnset, LastHandledOperationId = [], Message = [],
     LastStartupAt = None, LastStartupAction = [], LastResumeAt = None, StartupNodesWaited = None,
     StartupReadyNodes = None, AdaptiveProgress = None, NodeReadyEventDetectedAt = None,
     NodeReadyEventHandledAt = None, NodeFailureEventDetectedAt = None,
     NodeFailureEventHandledAt = None, FailedNodeName = [], AffectedWorkloads = [],
     PendingStartupResume = False, ResumeDelayStartedAt = None, PendingFreeze = False,
     FreezeDelayStartedAt = None, LastFreezeAt = None, PreConditionsStatus = None,
     Conditions = []\<rparr>"

definition sample_policy :: "string \<Rightarrow> policy" where
  "sample_policy name = \<lparr>policy_Meta = sample_meta ''ops'' name, Spec = sample_spec,
     Status = empty_status\<rparr>"

definition sample_mem :: mem where
  "sample_mem = \<lparr>mPolicies = [sample_policy ''p''], mDeployments = [sample_workload ''web'' 3],
     mStatefulSets = [sample_workload ''db'' 2], mNamespaces = [''shop''], mReplicaSets = [],
     mPods = [], mNodes = [], mNow = 1000 * Second\<rparr>"

lemmas sample_defs = sample_meta_def sample_workload_def sample_spec_def empty_status_def
  sample_policy_def sample_mem_def

lemmas key_defs = workload_key_def policy_key_def meta_key_def

end
