(* ===== verification/PolicyRules.thy ===== *)
theory PolicyRules
  imports Mem_Client "HOL-Library.List_Lexorder" "HOL-Library.Char_ord"
    "HOL-Library.Product_Lexorder"
begin

text \<open>
  The rules about policies that the handlers share, from
  \<open>src/internal/controller/namespacelifecyclepolicy_controller.go\<close>: which operation ids are
  still to be handled (\<open>shouldSkipOperation\<close>, \<open>updateStatus\<close>), which policy may resume
  (\<open>isBlockedByHigherPriorityResume\<close>), the balancing window (\<open>shouldPerformBalancing\<close>), and which
  of several policies manages a namespace (the duplicate check at the start of \<open>Reconcile\<close>).
  The gate is an instance of the locale \<open>priority_gate\<close>.
\<close>

subsection \<open>Operation ids\<close>

definition shouldSkipOperation :: "policy \<Rightarrow> bool" where
  "shouldSkipOperation policy =
     (if OperationId (Spec policy) = '''' then False
      else if (case PreConditionsStatus (Status policy) of None \<Rightarrow> False | Some s \<Rightarrow> Checking s) then False
      else if PendingStartupResume (Status policy) \<and>
              LastHandledOperationId (Status policy) \<noteq> OperationId (Spec policy) then False
      else LastHandledOperationId (Status policy) = OperationId (Spec policy))"

definition updateStatus_change ::
    "policy \<Rightarrow> phase \<Rightarrow> string \<Rightarrow> bool \<Rightarrow> policy \<Rightarrow> policyStatus" where
  "updateStatus_change policy ph message isStartupOperation latestPolicy =
     (let s = (Status latestPolicy)\<lparr>Phase := ph, Message := message\<rparr>
      in if isStartupOperation then s
         else s\<lparr>LastHandledOperationId := OperationId (Spec policy)\<rparr>)"

definition updateStatus ::
    "'w api \<Rightarrow> policy \<Rightarrow> phase \<Rightarrow> string \<Rightarrow> bool \<Rightarrow> ('w, err option) state" where
  "updateStatus a policy ph message isStartupOperation =
     patchStatus a (policy_key policy) (updateStatus_change policy ph message isStartupOperation)"

subsection \<open>The priority gate\<close>

text \<open>The priority a policy resumes with: a missing value counts as 100, lower numbers go first.\<close>

definition resumePriorityOf :: "policy \<Rightarrow> int" where
  "resumePriorityOf policy =
     (if ResumePriority (Spec policy) \<noteq> 0 then ResumePriority (Spec policy) else 100)"

fun blockedBy :: "policy \<Rightarrow> policy list \<Rightarrow> bool" where
  "blockedBy policy [] = False"
| "blockedBy policy (other # rest) =
     (if policy_uid other = policy_uid policy then blockedBy policy rest
      else if \<not> PendingStartupResume (Status other) then blockedBy policy rest
      else if resumePriorityOf other < resumePriorityOf policy then True
      else blockedBy policy rest)"

definition isBlockedByHigherPriorityResume :: "'w api \<Rightarrow> policy \<Rightarrow> ('w, err + bool) state" where
  "isBlockedByHigherPriorityResume a policy = do {
     allPolicies \<leftarrow> ReaderListPolicies a;
     (case allPolicies of
        Inl e \<Rightarrow> return (Inl e)
      | Inr items \<Rightarrow> return (Inr (blockedBy policy items)))
   }"

subsection \<open>Balancing window\<close>

definition shouldPerformBalancing :: "'w api \<Rightarrow> policy \<Rightarrow> ('w, bool) state" where
  "shouldPerformBalancing a policy =
     (case LastResumeAt (Status policy) of
        None \<Rightarrow> return False
      | Some t \<Rightarrow> do {
          now \<leftarrow> Now a;
          let w = BalanceWindowSeconds (Spec policy) * Second;
          let balanceWindow = (if w = 0 then 10 * Minute else w);
          return (now - t < balanceWindow)
        })"

subsection \<open>Node events in the status\<close>

text \<open>\<open>t.After(u)\<close> on pointers that are not nil, and the test for an event that is still to be handled.\<close>

definition afterOpt :: "time option \<Rightarrow> time option \<Rightarrow> bool" where
  "afterOpt t u = (case (t, u) of (Some x, Some y) \<Rightarrow> y < x | _ \<Rightarrow> False)"

definition unhandledEvent :: "time option \<Rightarrow> time option \<Rightarrow> bool" where
  "unhandledEvent detectedAt handledAt \<longleftrightarrow>
     detectedAt \<noteq> None \<and> (handledAt = None \<or> afterOpt detectedAt handledAt)"

definition hasNodeFailureEvent :: "policy \<Rightarrow> bool" where
  "hasNodeFailureEvent policy \<longleftrightarrow> HandleNodeFailure (Spec policy) \<and>
     unhandledEvent (NodeFailureEventDetectedAt (Status policy)) (NodeFailureEventHandledAt (Status policy))"

subsection \<open>Two policies for one namespace\<close>

text \<open>
  The loop of \<open>Reconcile\<close> that looks for a policy which already manages the target namespace,
  up to the first one the current policy has to give way to.
\<close>

fun conflictingPolicy :: "policy \<Rightarrow> policy list \<Rightarrow> policy option" where
  "conflictingPolicy policy [] = None"
| "conflictingPolicy policy (p # rest) =
     (if policy_uid p = policy_uid policy then conflictingPolicy policy rest
      else if TargetNamespace (Spec p) = TargetNamespace (Spec policy) then
        if DeletionTimestamp (policy_Meta p) \<noteq> None then conflictingPolicy policy rest
        else if Phase (Status p) = PhaseFailed then conflictingPolicy policy rest
        else if CreationTimestamp (policy_Meta p) < CreationTimestamp (policy_Meta policy) \<or>
                (CreationTimestamp (policy_Meta policy) = CreationTimestamp (policy_Meta p) \<and>
                 Name (policy_Meta p) < Name (policy_Meta policy))
             then Some p
        else conflictingPolicy policy rest
      else conflictingPolicy policy rest)"

definition conflictMessage :: "policy \<Rightarrow> policy \<Rightarrow> string" where
  "conflictMessage policy p =
     ''Conflict: Namespace '' @ [CHR 0x27] @ TargetNamespace (Spec policy) @ [CHR 0x27] @
     '' is already managed by policy '' @ [CHR 0x27] @ Name (policy_Meta p) @ [CHR 0x27]"

text \<open>
  The step of \<open>Reconcile\<close> around the loop: \<open>Inl\<close> is the return of the handler with its error,
  \<open>Inr\<close> goes on.
\<close>

definition checkDuplicate :: "'w api \<Rightarrow> policy \<Rightarrow> ('w, err option + unit) state" where
  "checkDuplicate a policy = do {
     policyList \<leftarrow> ListPolicies a;
     (case policyList of
        Inl e \<Rightarrow> return (Inl (Some e))
      | Inr items \<Rightarrow>
          (case conflictingPolicy policy items of
             None \<Rightarrow> return (Inr ())
           | Some p \<Rightarrow> do {
               err \<leftarrow> updateStatus a policy PhaseFailed (conflictMessage policy p) False;
               return (Inl err)
             }))
   }"
subsection \<open>Lemmas\<close>

text \<open>
  A priority gate over any kind of item: an item waits while another pending one has a smaller
  number. The operator's gate is the interpretation below.
\<close>

locale priority_gate =
  fixes prio :: "'p \<Rightarrow> int"
    and pending :: "'p \<Rightarrow> bool"
    and ident :: "'p \<Rightarrow> 'k"
    and blocked :: "'p \<Rightarrow> 'p list \<Rightarrow> bool"
  assumes blocked_iff:
    "blocked p ps \<longleftrightarrow> (\<exists>q \<in> set ps. ident q \<noteq> ident p \<and> pending q \<and> prio q < prio p)"
begin

lemma blocked_mono: "set ps \<subseteq> set qs \<Longrightarrow> blocked p ps \<Longrightarrow> blocked p qs"
  by (auto simp: blocked_iff)

lemma unblockedD:
  "\<not> blocked p ps \<Longrightarrow> q \<in> set ps \<Longrightarrow> ident q \<noteq> ident p \<Longrightarrow> pending q \<Longrightarrow> prio p \<le> prio q"
  by (auto simp: blocked_iff not_less)

lemma some_unblocked:
  assumes "\<exists>p \<in> set ps. pending p"
  shows "\<exists>p \<in> set ps. pending p \<and> \<not> blocked p ps"
proof -
  let ?P = "{p \<in> set ps. pending p}"
  obtain p where "p \<in> ?P" "\<And>q. q \<in> ?P \<Longrightarrow> prio p \<le> prio q"
    using assms ex_min_if_finite [of "prio ` ?P"] by fastforce
  then show ?thesis by (auto simp: blocked_iff not_less)
qed

lemma none_pending_open: "(\<And>q. q \<in> set ps \<Longrightarrow> \<not> pending q) \<Longrightarrow> \<not> blocked p ps"
  by (auto simp: blocked_iff)

end

interpretation resume_gate: priority_gate
  resumePriorityOf "\<lambda>p. PendingStartupResume (Status p)" policy_uid blockedBy
proof
  show "blockedBy p ps \<longleftrightarrow> (\<exists>q \<in> set ps. policy_uid q \<noteq> policy_uid p \<and>
      PendingStartupResume (Status q) \<and> resumePriorityOf q < resumePriorityOf p)" for p ps
    by (induction ps) auto
qed

lemma gate_reads:
  assumes "quiet_cluster a view"
  shows "\<exists>ps. set ps = ran (cPolicies (view w)) \<and>
    result (isBlockedByHigherPriorityResume a p) w = Inr (blockedBy p ps)"
    and "view (final (isBlockedByHigherPriorityResume a p) w) = view w"
  using reads_result [OF quiet_readD(7) [OF assms], of w] reads_view [OF quiet_readD(7) [OF assms], of w]
  by (auto simp: isBlockedByHigherPriorityResume_def lists_def)

text \<open>Which of two policies manages a namespace: creation time, then name.\<close>

definition precedes :: "policy \<Rightarrow> policy \<Rightarrow> bool" where
  "precedes q p \<longleftrightarrow>
     CreationTimestamp (policy_Meta q) < CreationTimestamp (policy_Meta p) \<or>
     (CreationTimestamp (policy_Meta q) = CreationTimestamp (policy_Meta p) \<and>
      Name (policy_Meta q) < Name (policy_Meta p))"

definition claims :: "string \<Rightarrow> policy \<Rightarrow> bool" where
  "claims ns p \<longleftrightarrow>
     TargetNamespace (Spec p) = ns \<and> DeletionTimestamp (policy_Meta p) = None \<and>
     Phase (Status p) \<noteq> PhaseFailed"

lemma conflictingPolicy_Some:
  "conflictingPolicy p ps = Some q \<Longrightarrow>
     q \<in> set ps \<and> policy_uid q \<noteq> policy_uid p \<and> claims (TargetNamespace (Spec p)) q \<and> precedes q p"
  by (induction ps) (auto simp: claims_def precedes_def split: if_splits)

lemma conflictingPolicy_None:
  "conflictingPolicy p ps = None \<longleftrightarrow>
     (\<forall>q \<in> set ps. policy_uid q \<noteq> policy_uid p \<longrightarrow> claims (TargetNamespace (Spec p)) q \<longrightarrow> \<not> precedes q p)"
  by (induction ps) (auto simp: claims_def precedes_def)

definition seniority :: "policy \<Rightarrow> time \<times> string" where
  "seniority p = (CreationTimestamp (policy_Meta p), Name (policy_Meta p))"

lemma precedes_iff: "precedes q p \<longleftrightarrow> seniority q < seniority p"
  by (auto simp: precedes_def seniority_def)

lemma precedes_least:
  assumes "finite S" and "S \<noteq> {}"
  shows "\<exists>p \<in> S. \<forall>q \<in> S. \<not> precedes q p"
proof -
  have "finite (seniority ` S)" "seniority ` S \<noteq> {}" using assms by auto
  from ex_min_if_finite [OF this] show ?thesis by (auto simp: precedes_iff)
qed
lemma updateStatus_quiet:
  assumes "quiet_cluster a view" and "cPolicies (view w) k = Some p" and "policy_key p = k"
    and "policy_key policy = k"
  shows "result (updateStatus a policy ph msg b) w = None"
    and "view (final (updateStatus a policy ph msg b) w) =
      (view w)\<lparr>cPolicies := (cPolicies (view w))
        (k \<mapsto> stored_policy (p\<lparr>Status := updateStatus_change policy ph msg b p\<rparr>))\<rparr>"
  unfolding updateStatus_def assms(4) by (rule patchStatus_quiet [OF assms(1-3)])+

lemma stored_policy_simps [simp]:
  "policy_Meta (stored_policy p) = policy_Meta p"
  "Spec (stored_policy p) = Spec p"
  "Status (stored_policy p) = stored_status (Status p)"
  by (simp_all add: stored_policy_def)

lemma stored_status_simps [simp]:
  "Phase (stored_status s) = Phase s"
  "LastHandledOperationId (stored_status s) = LastHandledOperationId s"
  "Message (stored_status s) = Message s"
  "LastStartupAction (stored_status s) = LastStartupAction s"
  "PendingStartupResume (stored_status s) = PendingStartupResume s"
  "PendingFreeze (stored_status s) = PendingFreeze s"
  "FailedNodeName (stored_status s) = FailedNodeName s"
  "AffectedWorkloads (stored_status s) = AffectedWorkloads s"
  "PreConditionsStatus (stored_status s) =
     map_option (LastCheckedAt_update truncate_time) (PreConditionsStatus s)"
  by (simp_all add: stored_status_def)

lemma stored_status_times:
  "LastStartupAt (stored_status s) = truncate_time (LastStartupAt s)"
  "LastResumeAt (stored_status s) = truncate_time (LastResumeAt s)"
  "NodeReadyEventDetectedAt (stored_status s) = truncate_time (NodeReadyEventDetectedAt s)"
  "NodeReadyEventHandledAt (stored_status s) = truncate_time (NodeReadyEventHandledAt s)"
  "NodeFailureEventDetectedAt (stored_status s) = truncate_time (NodeFailureEventDetectedAt s)"
  "NodeFailureEventHandledAt (stored_status s) = truncate_time (NodeFailureEventHandledAt s)"
  "ResumeDelayStartedAt (stored_status s) = truncate_time (ResumeDelayStartedAt s)"
  "FreezeDelayStartedAt (stored_status s) = truncate_time (FreezeDelayStartedAt s)"
  "LastFreezeAt (stored_status s) = truncate_time (LastFreezeAt s)"
  by (simp_all add: stored_status_def)

lemma truncate_None [simp]: "truncate_time t = None \<longleftrightarrow> t = None"
  by (simp add: truncate_time_def)

text \<open>
  A change of a status that starts nothing new for the handler: the flags of delayed operations and
  the failed node stay, and no node event becomes unhandled. Storing a status is such a change,
  although its times lose their fractions of a second.
\<close>

definition calm_change :: "policyStatus \<Rightarrow> policyStatus \<Rightarrow> bool" where
  "calm_change s s' \<longleftrightarrow> PendingFreeze s' = PendingFreeze s \<and> PendingStartupResume s' = PendingStartupResume s \<and>
     map_option Checking (PreConditionsStatus s') = map_option Checking (PreConditionsStatus s) \<and>
     FailedNodeName s' = FailedNodeName s \<and>
     (unhandledEvent (NodeFailureEventDetectedAt s') (NodeFailureEventHandledAt s') \<longrightarrow>
        unhandledEvent (NodeFailureEventDetectedAt s) (NodeFailureEventHandledAt s)) \<and>
     (unhandledEvent (NodeReadyEventDetectedAt s') (NodeReadyEventHandledAt s') \<longrightarrow>
        unhandledEvent (NodeReadyEventDetectedAt s) (NodeReadyEventHandledAt s))"

lemma calm_refl [simp]: "calm_change s s"
  by (simp add: calm_change_def)

lemma calm_trans: "calm_change s s' \<Longrightarrow> calm_change s' s'' \<Longrightarrow> calm_change s s''"
  by (auto simp: calm_change_def)

lemma truncated_event: "unhandledEvent (truncate_time t) (truncate_time u) \<Longrightarrow> unhandledEvent t u"
proof -
  have "y < x" if "y - y mod Second < x - x mod Second" for x y :: int
  proof (rule ccontr)
    assume "\<not> y < x"
    then have "x div Second * Second \<le> y div Second * Second"
      by (intro mult_right_mono zdiv_mono1) (auto simp: Second_def)
    with that show False by (simp add: minus_mod_eq_div_mult)
  qed
  then show "unhandledEvent (truncate_time t) (truncate_time u) \<Longrightarrow> unhandledEvent t u"
    by (auto simp: unhandledEvent_def afterOpt_def truncate_time_def split: option.splits)
qed

lemma stored_calm: "calm_change s s' \<Longrightarrow> calm_change s (stored_status s')"
  by (rule calm_trans, assumption)
    (auto simp: calm_change_def stored_status_times option.map_comp comp_def dest: truncated_event
      intro: option.map_cong0)

text \<open>Changes to the status of one policy that leave its spec and its handled operation id alone.\<close>

definition policy_frame :: "nsname \<Rightarrow> (nsname \<rightharpoonup> policy) \<Rightarrow> (nsname \<rightharpoonup> policy) \<Rightarrow> bool" where
  "policy_frame k m m' \<longleftrightarrow>
     (\<forall>j. j \<noteq> k \<longrightarrow> m' j = m j) \<and>
     (\<exists>p p'. m k = Some p \<and> m' k = Some p' \<and> policy_Meta p' = policy_Meta p \<and> Spec p' = Spec p \<and>
        LastHandledOperationId (Status p') = LastHandledOperationId (Status p) \<and>
        calm_change (Status p) (Status p'))"

lemma policy_frame_refl: "m k = Some p \<Longrightarrow> policy_frame k m m"
  by (auto simp: policy_frame_def)

lemma policy_frame_trans: "policy_frame k m m' \<Longrightarrow> policy_frame k m' m'' \<Longrightarrow> policy_frame k m m''"
  by (fastforce simp: policy_frame_def dest: calm_trans)

lemma policy_frame_upd:
  "m k = Some p \<Longrightarrow> LastHandledOperationId s = LastHandledOperationId (Status p) \<Longrightarrow>
     calm_change (Status p) s \<Longrightarrow> policy_frame k m (m(k \<mapsto> stored_policy (p\<lparr>Status := s\<rparr>)))"
  by (auto simp: policy_frame_def stored_calm)

subsection \<open>Properties\<close>

text \<open>
  The priority gate answers "blocked" exactly when some other policy of the cluster is
  waiting to resume with a smaller priority number (100 when unset), and writes nothing.
\<close>

theorem gate_exact:
  assumes "quiet_cluster a view"
  shows "result (isBlockedByHigherPriorityResume a p) w =
      Inr (\<exists>q \<in> ran (cPolicies (view w)). policy_uid q \<noteq> policy_uid p \<and>
        PendingStartupResume (Status q) \<and> resumePriorityOf q < resumePriorityOf p) \<and>
    view (final (isBlockedByHigherPriorityResume a p) w) = view w"
  using gate_reads [OF assms, where w = w and p = p] by (auto simp: resume_gate.blocked_iff)

theorem gate_exact_witness:
  "result (isBlockedByHigherPriorityResume mem_api (sample_policy ''p'')) sample_mem =
     Inr (\<exists>q \<in> ran (cPolicies (mem_view sample_mem)). policy_uid q \<noteq> policy_uid (sample_policy ''p'') \<and>
        PendingStartupResume (Status q) \<and> resumePriorityOf q < resumePriorityOf (sample_policy ''p''))"
  using gate_exact [OF mem_quiet, of "sample_policy ''p''" sample_mem] by blast

text \<open>
  The gate cannot deadlock: whenever some policy waits to resume, for at least one waiting
  policy the gate is open.
\<close>

theorem gate_progress:
  assumes "quiet_cluster a view" and "cPolicies (view w) k = Some p"
    and "PendingStartupResume (Status p)"
  shows "\<exists>q \<in> ran (cPolicies (view w)). PendingStartupResume (Status q) \<and>
    result (isBlockedByHigherPriorityResume a q) w = Inr False"
proof -
  obtain ps where ps: "set ps = ran (cPolicies (view w))"
    "result (ReaderListPolicies a) w = Inr ps"
    using reads_result [OF quiet_readD(7) [OF assms(1)], of w] by (auto simp: lists_def)
  have "\<exists>q \<in> set ps. PendingStartupResume (Status q)"
    using ranI [of "cPolicies (view w)", OF assms(2)] assms(3) ps(1) by auto
  from resume_gate.some_unblocked [OF this] show ?thesis
    using ps by (auto simp: isBlockedByHigherPriorityResume_def)
qed

definition pending_mem :: mem where
  "pending_mem = sample_mem\<lparr>mPolicies :=
     [(sample_policy ''p'')\<lparr>Status := empty_status\<lparr>PendingStartupResume := True\<rparr>\<rparr>,
      (sample_policy ''q'')\<lparr>Spec := sample_spec\<lparr>ResumePriority := 10\<rparr>,
                            Status := empty_status\<lparr>PendingStartupResume := True\<rparr>\<rparr>]\<rparr>"

theorem gate_progress_witness:
  "\<exists>q \<in> ran (cPolicies (mem_view pending_mem)). PendingStartupResume (Status q) \<and>
    result (isBlockedByHigherPriorityResume mem_api q) pending_mem = Inr False"
proof -
  have "cPolicies (mem_view pending_mem) (''ops'', ''p'') =
      Some ((sample_policy ''p'')\<lparr>Status := empty_status\<lparr>PendingStartupResume := True\<rparr>\<rparr>)"
    by (simp add: pending_mem_def mem_view_def lookup_key_def by_key_def sample_defs key_defs)
  from gate_progress [OF mem_quiet this] show ?thesis by simp
qed

text \<open>
  C15: of the policies that claim one namespace (not being deleted, not failed), exactly one
  passes the duplicate check, provided no two of them agree in both creation time and name.
\<close>

theorem oldest_wins:
  assumes "\<exists>p \<in> set ps. claims ns p"
    and "\<And>p q. p \<in> set ps \<Longrightarrow> q \<in> set ps \<Longrightarrow> policy_uid p = policy_uid q \<Longrightarrow> p = q"
    and "\<And>p q. p \<in> set ps \<Longrightarrow> q \<in> set ps \<Longrightarrow> claims ns p \<Longrightarrow> claims ns q \<Longrightarrow>
      seniority p = seniority q \<Longrightarrow> p = q"
  shows "\<exists>!p. p \<in> set ps \<and> claims ns p \<and> conflictingPolicy p ps = None"
proof -
  let ?S = "{p \<in> set ps. claims ns p}"
  obtain p where p: "p \<in> ?S" "\<And>q. q \<in> ?S \<Longrightarrow> \<not> precedes q p"
    using precedes_least [of ?S] assms(1) by auto
  show ?thesis
  proof (rule ex1I [of _ p])
    show "p \<in> set ps \<and> claims ns p \<and> conflictingPolicy p ps = None"
      using p by (auto simp: conflictingPolicy_None claims_def)
  next
    fix q
    assume q: "q \<in> set ps \<and> claims ns q \<and> conflictingPolicy q ps = None"
    then have "TargetNamespace (Spec q) = ns" by (simp add: claims_def)
    then have "policy_uid p = policy_uid q \<or> \<not> precedes p q"
      using q p(1) by (auto simp: conflictingPolicy_None)
    moreover have "\<not> precedes q p" using q p(2) by simp
    ultimately show "q = p"
      using assms(2,3) q p(1) by (fastforce simp: precedes_iff not_less)
  qed
qed

theorem oldest_wins_witness:
  "\<exists>!p. p \<in> set [sample_policy ''b'', sample_policy ''a''] \<and> claims ''shop'' p \<and>
     conflictingPolicy p [sample_policy ''b'', sample_policy ''a''] = None"
proof (rule oldest_wins)
  show "\<exists>p \<in> set [sample_policy ''b'', sample_policy ''a'']. claims ''shop'' p"
    by (simp add: claims_def sample_defs)
qed (auto simp: policy_uid_def seniority_def sample_defs)

text \<open>
  C38: names are unique only within a namespace. Two policies of the same name, created in the
  same second in different namespaces, both pass the duplicate check for one target namespace.
\<close>

theorem twins_both_pass:
  assumes "seniority p = seniority q"
  shows "conflictingPolicy p [p, q] = None \<and> conflictingPolicy q [p, q] = None"
  unfolding conflictingPolicy_None precedes_iff using assms by simp

theorem twins_both_pass_witness:
  "let p = sample_policy ''p'';
       q = (sample_policy ''p'')\<lparr>policy_Meta := sample_meta ''dev'' ''p''\<rparr>
   in policy_uid p \<noteq> policy_uid q \<and> claims ''shop'' p \<and> claims ''shop'' q \<and>
      conflictingPolicy p [p, q] = None \<and> conflictingPolicy q [p, q] = None"
  using twins_both_pass [of "sample_policy ''p''" "(sample_policy ''p'')\<lparr>policy_Meta := sample_meta ''dev'' ''p''\<rparr>"]
  by (simp add: seniority_def policy_uid_def claims_def sample_defs)

text \<open>
  A policy whose namespace an older live policy claims is marked \<open>Failed\<close> with its
  operation id recorded and a message that names such a policy; the handler stops without an
  error and no other object changes.
\<close>

theorem checkDuplicate_fails_junior:
  assumes "quiet_cluster a view"
    and "cPolicies (view w) (policy_key policy) = Some policy"
    and "q \<in> ran (cPolicies (view w))" and "policy_uid q \<noteq> policy_uid policy"
    and "claims (TargetNamespace (Spec policy)) q" and "precedes q policy"
  shows "result (checkDuplicate a policy) w = Inl None \<and>
    (\<exists>r \<in> ran (cPolicies (view w)). claims (TargetNamespace (Spec policy)) r \<and> precedes r policy \<and>
       view (final (checkDuplicate a policy) w) = (view w)\<lparr>cPolicies := (cPolicies (view w))
         (policy_key policy \<mapsto> stored_policy (policy\<lparr>Status := (Status policy)\<lparr>
            Phase := PhaseFailed, Message := conflictMessage policy r,
            LastHandledOperationId := OperationId (Spec policy)\<rparr>\<rparr>))\<rparr>)"
proof -
  obtain ps where ps: "set ps = ran (cPolicies (view w))" "result (ListPolicies a) w = Inr ps"
    using reads_result [OF quiet_readD(6) [OF assms(1)], of w] by (auto simp: lists_def)
  have "conflictingPolicy policy ps \<noteq> None"
    using assms(3-6) ps(1) by (auto simp: conflictingPolicy_None)
  then obtain r where r: "conflictingPolicy policy ps = Some r" by auto
  have v: "view (final (ListPolicies a) w) = view w"
    by (rule reads_view [OF quiet_readD(6) [OF assms(1)]])
  note up = updateStatus_quiet [OF assms(1), of "final (ListPolicies a) w" "policy_key policy" policy
      policy, unfolded v, OF assms(2) refl refl]
  show ?thesis
    using conflictingPolicy_Some [OF r] ps r up [of PhaseFailed "conflictMessage policy r" False]
    by (auto simp: checkDuplicate_def updateStatus_change_def Let_def intro!: bexI [of _ r])
qed

theorem checkDuplicate_fails_junior_witness:
  "let m = sample_mem\<lparr>mPolicies := [sample_policy ''b'', sample_policy ''a'']\<rparr>
   in result (checkDuplicate mem_api (sample_policy ''b'')) m = Inl None \<and>
      (\<exists>r \<in> ran (cPolicies (mem_view m)). precedes r (sample_policy ''b''))"
proof -
  let ?m = "sample_mem\<lparr>mPolicies := [sample_policy ''b'', sample_policy ''a'']\<rparr>"
  have "cPolicies (mem_view ?m) (policy_key (sample_policy ''b'')) = Some (sample_policy ''b'')"
    and a: "cPolicies (mem_view ?m) (policy_key (sample_policy ''a'')) = Some (sample_policy ''a'')"
    by (simp_all add: mem_view_def lookup_key_def by_key_def sample_defs key_defs)
  moreover have "policy_uid (sample_policy ''a'') \<noteq> policy_uid (sample_policy ''b'')"
    "claims (TargetNamespace (Spec (sample_policy ''b''))) (sample_policy ''a'')"
    "precedes (sample_policy ''a'') (sample_policy ''b'')"
    by (simp_all add: policy_uid_def claims_def precedes_def sample_defs less_char_def)
  ultimately show ?thesis
    using checkDuplicate_fails_junior [OF mem_quiet, of ?m "sample_policy ''b''"
        "sample_policy ''a''"] ranI [of "cPolicies (mem_view ?m)", OF a] by (auto simp: Let_def)
qed

text \<open>
  An operation is handled once: after a status update for a user operation, whatever the
  phase and message, the stored policy is skipped by later reconciliations as long as it keeps
  its operation id and no pre-condition check is under way.
\<close>

theorem handled_operation_skipped:
  assumes "quiet_cluster a view" and "cPolicies (view w) (policy_key p) = Some p"
    and "OperationId (Spec p) \<noteq> ''''"
    and "\<And>s. PreConditionsStatus (Status p) = Some s \<Longrightarrow> \<not> Checking s"
  shows "\<exists>p'. cPolicies (view (final (updateStatus a p ph msg False) w)) (policy_key p) = Some p' \<and>
    Phase (Status p') = ph \<and> Message (Status p') = msg \<and> Spec p' = Spec p \<and> shouldSkipOperation p'"
  using updateStatus_quiet(2) [OF assms(1,2) refl refl, of ph msg False] assms(3,4)
  by (auto simp: updateStatus_change_def shouldSkipOperation_def Let_def split: option.splits)

theorem handled_operation_skipped_witness:
  "\<exists>p'. cPolicies (mem_view (final (updateStatus mem_api (sample_policy ''p'') PhaseFrozen ''done'' False)
      sample_mem)) (''ops'', ''p'') = Some p' \<and> Phase (Status p') = PhaseFrozen \<and> shouldSkipOperation p'"
  using handled_operation_skipped [OF mem_quiet, of sample_mem "sample_policy ''p''" PhaseFrozen "''done''"]
  by (auto simp: mem_view_def lookup_key_def by_key_def sample_defs key_defs)

end
