(* ===== verification/Signals.thy ===== *)
theory Signals
  imports PolicyRules
begin

text \<open>
  The signals that slow a resume down, from \<open>src/internal/controller/signals.go\<close> and the metrics
  cache of \<open>namespacelifecyclepolicy_controller.go\<close>: node readiness and pressure, pending pods,
  container restarts, node usage from the kubelet or from a JSON endpoint, and \<open>collectSignals\<close>,
  which runs the enabled checks in turn. This theory also introduces the reconciler's own state.
  The locale \<open>signal_check\<close> is the contract of a check over listed objects.
\<close>

subsection \<open>Reconciler state\<close>

text \<open>
  \<open>nodeMetricsCache\<close> keeps one scrape for all policies; a zero \<open>fetchedAt\<close> is \<open>None\<close>. The
  reconciler's own state is this cache and the flag \<open>startupComplete\<close>; \<open>inWorld\<close> runs a function
  that uses neither. The mutex of the cache makes \<open>get\<close> and \<open>set\<close> single steps.
\<close>

record nodeMetricsCache =
  cache_signals :: "signal list"
  cache_avgCPU :: int
  cache_avgMem :: int
  fetchedAt :: "time option"
  ttl :: duration

record 'w sys =
  startupComplete :: bool
  metricsCache :: nodeMetricsCache
  world :: 'w

definition inWorld :: "('w, 'r) state \<Rightarrow> ('w sys, 'r) state" where
  "inWorld m = State (\<lambda>s. (result m (world s), s\<lparr>world := final m (world s)\<rparr>))"

lemma run_inWorld [simp, run_simps]:
  "run_state (inWorld m) s = (result m (world s), s\<lparr>world := final m (world s)\<rparr>)"
  by (simp add: inWorld_def)

definition readCache :: "('w sys, nodeMetricsCache) state" where
  "readCache = State (\<lambda>s. (metricsCache s, s))"

definition writeCache :: "nodeMetricsCache \<Rightarrow> ('w sys, unit) state" where
  "writeCache c = State (\<lambda>s. ((), s\<lparr>metricsCache := c\<rparr>))"

lemma run_cache [simp, run_simps]:
  "run_state readCache s = (metricsCache s, s)"
  "run_state (writeCache c) s = ((), s\<lparr>metricsCache := c\<rparr>)"
  by (simp_all add: readCache_def writeCache_def)

definition cache_get :: "'w api \<Rightarrow> ('w sys, signal list \<times> int \<times> int \<times> bool) state" where
  "cache_get a = do {
     c \<leftarrow> readCache;
     now \<leftarrow> inWorld (Now a);
     return (case fetchedAt c of
        None \<Rightarrow> ([], 0, 0, False)
      | Some t \<Rightarrow> if now - t < ttl c then (cache_signals c, cache_avgCPU c, cache_avgMem c, True)
                  else ([], 0, 0, False))
   }"

definition cache_set :: "'w api \<Rightarrow> signal list \<Rightarrow> int \<Rightarrow> int \<Rightarrow> ('w sys, unit) state" where
  "cache_set a signals avgCPU avgMem = do {
     now \<leftarrow> inWorld (Now a);
     c \<leftarrow> readCache;
     writeCache (c\<lparr>cache_signals := signals, cache_avgCPU := avgCPU, cache_avgMem := avgMem,
                   fetchedAt := Some now\<rparr>)
   }"

subsection \<open>Nodes\<close>

fun readyIn :: "nodeCondition list \<Rightarrow> bool" where
  "readyIn [] = False"
| "readyIn (c # cs) =
     (if nodecond_Type c = ''Ready'' then nodecond_Status c = ConditionTrue else readyIn cs)"

definition isNodeReady :: "node \<Rightarrow> bool" where
  "isNodeReady node = readyIn (node_Conditions node)"

definition node_Name :: "node \<Rightarrow> string" where
  "node_Name n = Name (node_Meta n)"

definition workerSelector :: nodeSelector where
  "workerSelector = [(''node-role.kubernetes.io/worker'', '''')]"

definition orWorkers :: "nodeSelector option \<Rightarrow> nodeSelector" where
  "orWorkers sel = (case sel of None \<Rightarrow> workerSelector | Some s \<Rightarrow> s)"

fun firstAddress :: "string \<Rightarrow> (string \<times> string) list \<Rightarrow> string option" where
  "firstAddress ty [] = None"
| "firstAddress ty ((t, addr) # rest) = (if t = ty then Some addr else firstAddress ty rest)"

definition getNodeIP :: "node \<Rightarrow> err + string" where
  "getNodeIP node =
     (case firstAddress ''InternalIP'' (Addresses node) of
        Some addr \<Rightarrow> Inr addr
      | None \<Rightarrow>
          (case firstAddress ''ExternalIP'' (Addresses node) of
             Some addr \<Rightarrow> Inr addr
           | None \<Rightarrow> Inl (Errorf (''no IP address found for node '' @ node_Name node))))"

subsection \<open>The checks on listed objects\<close>

definition nodeSignal :: "SignalType \<Rightarrow> SignalSeverity \<Rightarrow> string \<Rightarrow> string \<Rightarrow> int \<Rightarrow> string \<Rightarrow> signal" where
  "nodeSignal ty sev nd cond n msg = \<lparr>signal_Type = ty, Severity = sev, signal_Node = nd,
     signal_Condition = cond, Count = n, signal_Message = msg\<rparr>"

definition notReadySignal :: "node \<Rightarrow> signal" where
  "notReadySignal node = nodeSignal SignalNodeNotReady SignalSeverityCritical (node_Name node) '''' 0
     (''Node '' @ node_Name node @ '' is NotReady'')"

fun readinessLoop :: "node list \<Rightarrow> signal list \<times> int \<Rightarrow> signal list \<times> int" where
  "readinessLoop [] (signals, notReadyCount) = (signals, notReadyCount)"
| "readinessLoop (node # nodes) (signals, notReadyCount) =
     (if \<not> isNodeReady node
      then readinessLoop nodes (signals @ [notReadySignal node], i32 (notReadyCount + 1))
      else readinessLoop nodes (signals, notReadyCount))"

definition checkNodeReadiness ::
    "'w api \<Rightarrow> nodeSelector option \<Rightarrow> ('w, err + signal list \<times> int) state" where
  "checkNodeReadiness a nodeSelector = do {
     nodes \<leftarrow> ListNodes a (Some (orWorkers nodeSelector));
     (case nodes of
        Inl e \<Rightarrow> return (Inl e)
      | Inr items \<Rightarrow> return (Inr (readinessLoop items ([], 0))))
   }"

definition defaultPressureTypes :: "string list" where
  "defaultPressureTypes = [''MemoryPressure'', ''DiskPressure'', ''PIDPressure'', ''NetworkUnavailable'']"

definition pressureSignal :: "node \<Rightarrow> string \<Rightarrow> signal" where
  "pressureSignal node ty = nodeSignal SignalNodePressure SignalSeverityWarning (node_Name node) ty 0
     (''Node '' @ node_Name node @ '' has '' @ ty)"

text \<open>Three nested loops: nodes, their conditions, the pressure types asked for.\<close>

definition pressureSignals :: "string list \<Rightarrow> node list \<Rightarrow> signal list" where
  "pressureSignals pressureTypes nodes =
     concat (map (\<lambda>node.
       concat (map (\<lambda>c.
         concat (map (\<lambda>ty.
             if nodecond_Type c = ty \<and> nodecond_Status c = ConditionTrue
             then [pressureSignal node ty] else [])
           pressureTypes))
         (node_Conditions node)))
       nodes)"

definition checkNodePressure ::
    "'w api \<Rightarrow> nodeSelector option \<Rightarrow> string list \<Rightarrow> ('w, err + signal list) state" where
  "checkNodePressure a nodeSelector pressureTypes = do {
     nodes \<leftarrow> ListNodes a (Some (orWorkers nodeSelector));
     (case nodes of
        Inl e \<Rightarrow> return (Inl e)
      | Inr items \<Rightarrow> return (Inr (pressureSignals
          (if pressureTypes = [] then defaultPressureTypes else pressureTypes) items)))
   }"

fun resourceBlocked :: "podCondition list \<Rightarrow> bool" where
  "resourceBlocked [] = False"
| "resourceBlocked (c # cs) =
     (if podcond_Type c = ''PodScheduled'' \<and> podcond_Status c = ''False'' \<and>
         podcond_Reason c = ''Unschedulable''
      then let msg = ToLower (podcond_Message c)
           in if Contains msg ''insufficient cpu'' \<or> Contains msg ''insufficient memory'' \<or>
                 Contains msg ''insufficient pods''
              then True else resourceBlocked cs
      else resourceBlocked cs)"

fun pendingCountLoop :: "pod list \<Rightarrow> int \<Rightarrow> int" where
  "pendingCountLoop [] n = n"
| "pendingCountLoop (pod # pods) n =
     pendingCountLoop pods
       (if pod_Phase pod = PodPending \<and> resourceBlocked (pod_Conditions pod) then i32 (n + 1) else n)"

definition pendingPodsSignal :: "int \<Rightarrow> int \<Rightarrow> signal" where
  "pendingPodsSignal pendingCount threshold =
     nodeSignal SignalPendingPods SignalSeverityInfo '''' '''' pendingCount
       (Itoa pendingCount @ '' pods are pending cluster-wide due to resource constraints (threshold: '' @
        Itoa threshold @ '')'')"

definition checkPendingPods :: "'w api \<Rightarrow> int \<Rightarrow> ('w, err + signal option \<times> int) state" where
  "checkPendingPods a threshold = do {
     pods \<leftarrow> ListPods a None;
     (case pods of
        Inl e \<Rightarrow> return (Inl e)
      | Inr items \<Rightarrow>
          let pendingCount = pendingCountLoop items 0
          in return (Inr (if threshold < pendingCount
               then (Some (pendingPodsSignal pendingCount threshold), pendingCount)
               else (None, pendingCount))))
   }"

definition isCrashLoop :: "containerStatus \<Rightarrow> bool" where
  "isCrashLoop status = (WaitingReason status = Some ''CrashLoopBackOff'')"

definition restartSignal :: "pod \<Rightarrow> containerStatus \<Rightarrow> signal" where
  "restartSignal pod status =
     nodeSignal SignalContainerRestarts SignalSeverityWarning (NodeName pod) '''' (RestartCount status)
       (''Pod '' @ Namespace (pod_Meta pod) @ ''/'' @ Name (pod_Meta pod) @ '' container '' @
        container_Name status @ '' is unhealthy (Restarts: '' @ Itoa (RestartCount status) @
        '', CrashLoop: '' @ (if isCrashLoop status then ''true'' else ''false'') @ '')'')"

fun firstUnhealthy :: "int \<Rightarrow> containerStatus list \<Rightarrow> containerStatus option" where
  "firstUnhealthy threshold [] = None"
| "firstUnhealthy threshold (status # rest) =
     (if isCrashLoop status \<or> threshold \<le> RestartCount status then Some status
      else firstUnhealthy threshold rest)"

fun restartsLoop :: "int \<Rightarrow> pod list \<Rightarrow> signal list \<times> int \<Rightarrow> signal list \<times> int" where
  "restartsLoop threshold [] (signals, unhealthyCount) = (signals, unhealthyCount)"
| "restartsLoop threshold (pod # pods) (signals, unhealthyCount) =
     (case firstUnhealthy threshold (ContainerStatuses pod) of
        None \<Rightarrow> restartsLoop threshold pods (signals, unhealthyCount)
      | Some status \<Rightarrow>
          restartsLoop threshold pods (signals @ [restartSignal pod status], i32 (unhealthyCount + 1)))"

definition checkContainerRestarts ::
    "'w api \<Rightarrow> string \<Rightarrow> int \<Rightarrow> ('w, err + signal list \<times> int) state" where
  "checkContainerRestarts a targetNamespace threshold = do {
     pods \<leftarrow> ListPods a (Some targetNamespace);
     (case pods of
        Inl e \<Rightarrow> return (Inl e)
      | Inr items \<Rightarrow>
          return (Inr (restartsLoop (if threshold \<le> 0 then 10 else threshold) items ([], 0))))
   }"

subsection \<open>Reading a metric from JSON\<close>

definition quoted :: "string \<Rightarrow> string" where
  "quoted s = [CHR 0x27] @ s @ [CHR 0x27]"

fun json_type :: "json \<Rightarrow> string" where
  "json_type JNull = ''<nil>''"
| "json_type (JBool b) = ''bool''"
| "json_type (JNumber q) = ''float64''"
| "json_type (JString s) = ''string''"
| "json_type (JArray xs) = ''[]interface {}''"
| "json_type (JObject kvs) = ''map[string]interface {}''"

fun extractLoop :: "string \<Rightarrow> nat \<Rightarrow> string list \<Rightarrow> json \<Rightarrow> err + rat" where
  "extractLoop path i [] current = Inl (Errorf (''unexpected end of path '' @ quoted path))"
| "extractLoop path i (key # keys) current =
     (case current of
        JObject obj \<Rightarrow>
          (case map_of obj key of
             None \<Rightarrow> Inl (Errorf (''key '' @ quoted key @ '' not found at path segment '' @ Itoa (int i)))
           | Some value \<Rightarrow>
               if keys = [] then
                 (case value of
                    JNumber v \<Rightarrow> Inr v
                  | _ \<Rightarrow> Inl (Errorf (''value at path '' @ quoted path @ '' is not a number (got '' @
                            json_type value @ '')'')))
               else extractLoop path (Suc i) keys value)
      | _ \<Rightarrow> Inl (Errorf (''path segment '' @ quoted key @ '' at position '' @ Itoa (int i) @
                '' is not an object'')))"

definition extractJSONPath :: "(string \<times> json) list \<Rightarrow> string \<Rightarrow> err + rat" where
  "extractJSONPath data path = extractLoop path 0 (Split CHR ''.'' path) (JObject data)"

subsection \<open>Node usage\<close>

text \<open>The HTTP request that both URL readers make; the metric is named by \<open>what\<close> in the messages.\<close>

definition fetchFromURL ::
    "'w api \<Rightarrow> node \<Rightarrow> string \<Rightarrow> string \<Rightarrow> string \<Rightarrow> ('w, err + rat) state" where
  "fetchFromURL a node portAndPath what path =
     (case getNodeIP node of
        Inl e \<Rightarrow> return (Inl (Wrapf (''failed to get IP for node '' @ node_Name node) e))
      | Inr nodeIP \<Rightarrow>
          let fullURL = ''http://'' @ nodeIP @ portAndPath
          in (case HttpNewRequest a fullURL of
                Some e \<Rightarrow> return (Inl (Wrapf (''failed to create request to '' @ fullURL) e))
              | None \<Rightarrow> do {
                  resp \<leftarrow> HttpDo a (10 * Second) fullURL;
                  return (case resp of
                     Inl e \<Rightarrow> Inl (Wrapf (''failed to fetch from '' @ fullURL) e)
                   | Inr r \<Rightarrow>
                       if StatusCode r \<noteq> 200
                       then Inl (Errorf (''unexpected status code '' @ Itoa (StatusCode r) @ '' from '' @ fullURL))
                       else (case BodyJSON r of
                               Inl e \<Rightarrow> Inl (Wrapf (''failed to parse JSON response from '' @ fullURL) e)
                             | Inr jsonData \<Rightarrow>
                                 (case extractJSONPath jsonData path of
                                    Inl e \<Rightarrow> Inl (Wrapf (''failed to extract '' @ what @ '' path '' @
                                               quoted path @ '' from response'') e)
                                  | Inr v \<Rightarrow> Inr v)))
                }))"

definition getNodeCPUUsageFromURL ::
    "'w api \<Rightarrow> node \<Rightarrow> string \<Rightarrow> metricsScrapeConfig option \<Rightarrow> ('w, err + rat) state" where
  "getNodeCPUUsageFromURL a node portAndPath scrapeConfig =
     (case scrapeConfig of
        None \<Rightarrow> return (Inl (Errorf ''scrape.cpu path is required when using URL source''))
      | Some c \<Rightarrow>
          if CPU c = '''' then return (Inl (Errorf ''scrape.cpu path is required when using URL source''))
          else fetchFromURL a node portAndPath ''CPU'' (CPU c))"

definition getNodeMemoryUsageFromURL ::
    "'w api \<Rightarrow> node \<Rightarrow> string \<Rightarrow> metricsScrapeConfig option \<Rightarrow> ('w, err + rat) state" where
  "getNodeMemoryUsageFromURL a node portAndPath scrapeConfig =
     (case scrapeConfig of
        None \<Rightarrow> return (Inl (Errorf ''scrape.mem path is required when using URL source''))
      | Some c \<Rightarrow>
          if Mem c = '''' then return (Inl (Errorf ''scrape.mem path is required when using URL source''))
          else fetchFromURL a node portAndPath ''memory'' (Mem c))"

text \<open>The kubelet reports nanocores and bytes as unsigned 64-bit numbers.\<close>

definition kubeletStatsOf :: "'w api \<Rightarrow> string \<Rightarrow> ('w, err + kubeletStats) state" where
  "kubeletStatsOf a nodeName =
     (if \<not> HasRESTClient a then return (Inl (Errorf ''REST client not available''))
      else do {
        raw \<leftarrow> KubeletStatsSummary a nodeName;
        return (case raw of
           Inl e \<Rightarrow> Inl (Wrapf (''failed to query kubelet stats for node '' @ nodeName) e)
         | Inr (Inl e) \<Rightarrow> Inl (Wrapf ''failed to parse kubelet stats'' e)
         | Inr (Inr stats) \<Rightarrow> Inr stats)
      })"

definition getNodeCPUUsage :: "'w api \<Rightarrow> string \<Rightarrow> ('w, err + int) state" where
  "getNodeCPUUsage a nodeName = do {
     stats \<leftarrow> kubeletStatsOf a nodeName;
     return (case stats of
        Inl e \<Rightarrow> Inl e
      | Inr s \<Rightarrow> Inr (i64 (int (UsageNanoCores s div 1000000))))
   }"

definition getNodeMemoryUsage :: "'w api \<Rightarrow> string \<Rightarrow> ('w, err + int) state" where
  "getNodeMemoryUsage a nodeName = do {
     stats \<leftarrow> kubeletStatsOf a nodeName;
     return (case stats of
        Inl e \<Rightarrow> Inl e
      | Inr s \<Rightarrow> Inr (i64 (int (UsageBytes s))))
   }"

definition float_to_int32 :: "'w api \<Rightarrow> rat \<Rightarrow> int" where
  "float_to_int32 a q =
     (let t = (if q < 0 then \<lceil>q\<rceil> else \<lfloor>q\<rfloor>)
      in if int32_range t then t else Int32OfFloat a q)"

definition isURLSource :: "metricsScrapeConfig option \<Rightarrow> bool" where
  "isURLSource scrapeConfig =
     (case scrapeConfig of None \<Rightarrow> False | Some c \<Rightarrow> Source c \<noteq> '''' \<and> Source c \<noteq> ''kubelet'')"

definition anyReady :: "node \<Rightarrow> bool" where
  "anyReady node =
     list_ex (\<lambda>c. nodecond_Type c = ''Ready'' \<and> nodecond_Status c = ConditionTrue) (node_Conditions node)"

text \<open>The CPU and memory percentages of one node; \<open>None\<close> is a \<open>continue\<close> of the loop.\<close>

definition urlPercent ::
    "'w api \<Rightarrow> node \<Rightarrow> metricsScrapeConfig option \<Rightarrow> ('w, (int \<times> int) option) state" where
  "urlPercent a node scrapeConfig =
     (case getNodeIP node of
        Inl e \<Rightarrow> return None
      | Inr nodeIP \<Rightarrow> do {
          let source = (case scrapeConfig of None \<Rightarrow> '''' | Some c \<Rightarrow> Source c);
          cpu \<leftarrow> getNodeCPUUsageFromURL a node source scrapeConfig;
          (case cpu of
             Inl e \<Rightarrow> return None
           | Inr c \<Rightarrow> do {
               mem \<leftarrow> getNodeMemoryUsageFromURL a node source scrapeConfig;
               return (case mem of
                  Inl e \<Rightarrow> None
                | Inr m \<Rightarrow> Some (float_to_int32 a c, float_to_int32 a m))
             })
        })"

definition kubeletPercent :: "'w api \<Rightarrow> node \<Rightarrow> ('w, (int \<times> int) option) state" where
  "kubeletPercent a node = do {
     cpu \<leftarrow> getNodeCPUUsage a (node_Name node);
     (case cpu of
        Inl e \<Rightarrow> return None
      | Inr usedCPU \<Rightarrow> do {
          mem \<leftarrow> getNodeMemoryUsage a (node_Name node);
          return (case mem of
             Inl e \<Rightarrow> None
           | Inr usedMemory \<Rightarrow>
               Some (i32 (i64 (usedCPU * 100) sdiv AllocatableMilliCPU node),
                     i32 (i64 (usedMemory * 100) sdiv AllocatableMemory node)))
        })
   }"

definition nodePercent ::
    "'w api \<Rightarrow> metricsScrapeConfig option \<Rightarrow> node \<Rightarrow> ('w, (int \<times> int) option) state" where
  "nodePercent a scrapeConfig node =
     (if \<not> anyReady node then return None
      else if AllocatableMilliCPU node = 0 \<or> AllocatableMemory node = 0 then return None
      else if isURLSource scrapeConfig then urlPercent a node scrapeConfig
      else kubeletPercent a node)"

definition usageSignal :: "node \<Rightarrow> int \<Rightarrow> int \<Rightarrow> signal" where
  "usageSignal node cpuPercent memoryPercent =
     nodeSignal SignalNodeUsage SignalSeverityWarning (node_Name node) '''' 0
       (''Node '' @ node_Name node @ '' high usage (CPU: '' @ Itoa cpuPercent @ ''%, Memory: '' @
        Itoa memoryPercent @ ''%)'')"

record usageTotals =
  usage_signals :: "signal list"
  totalCPU :: int
  totalMem :: int
  nodeCount :: int

fun usageLoop :: "'w api \<Rightarrow> int \<Rightarrow> int \<Rightarrow> metricsScrapeConfig option \<Rightarrow> node list \<Rightarrow>
    usageTotals \<Rightarrow> ('w, usageTotals) state" where
  "usageLoop a cpuThreshold memoryThreshold scrapeConfig [] t = return t"
| "usageLoop a cpuThreshold memoryThreshold scrapeConfig (node # nodes) t = do {
     p \<leftarrow> nodePercent a scrapeConfig node;
     (case p of
        None \<Rightarrow> usageLoop a cpuThreshold memoryThreshold scrapeConfig nodes t
      | Some (cpuPercent, memoryPercent) \<Rightarrow>
          usageLoop a cpuThreshold memoryThreshold scrapeConfig nodes
            (t\<lparr>totalCPU := i32 (totalCPU t + cpuPercent),
               totalMem := i32 (totalMem t + memoryPercent),
               nodeCount := i32 (nodeCount t + 1),
               usage_signals :=
                 (if cpuThreshold \<le> cpuPercent \<or> memoryThreshold \<le> memoryPercent
                  then usage_signals t @ [usageSignal node cpuPercent memoryPercent]
                  else usage_signals t)\<rparr>))
   }"

definition usageAverages :: "usageTotals \<Rightarrow> signal list \<times> int \<times> int" where
  "usageAverages t =
     (usage_signals t,
      (if 0 < nodeCount t then totalCPU t sdiv nodeCount t else 0),
      (if 0 < nodeCount t then totalMem t sdiv nodeCount t else 0))"

definition checkNodeUsage ::
    "'w api \<Rightarrow> nodeSelector option \<Rightarrow> int \<Rightarrow> int \<Rightarrow> metricsScrapeConfig option \<Rightarrow>
     ('w, err + signal list \<times> int \<times> int) state" where
  "checkNodeUsage a nodeSelector cpuThreshold memoryThreshold scrapeConfig = do {
     let cpuThreshold = (if cpuThreshold = 0 then 80 else cpuThreshold);
     let memoryThreshold = (if memoryThreshold = 0 then 80 else memoryThreshold);
     workers \<leftarrow> ListNodes a (Some (orWorkers nodeSelector));
     nodes \<leftarrow> (case workers of
        Inl e \<Rightarrow> return (Inl e)
      | Inr items \<Rightarrow> if items = [] then ListNodes a None else return (Inr items));
     (case nodes of
        Inl e \<Rightarrow> return (Inl e)
      | Inr items \<Rightarrow> do {
          t \<leftarrow> usageLoop a cpuThreshold memoryThreshold scrapeConfig items
                 \<lparr>usage_signals = [], totalCPU = 0, totalMem = 0, nodeCount = 0\<rparr>;
          return (Inr (usageAverages t))
        })
   }"

subsection \<open>Collecting\<close>

record throttlingMetrics =
  NotReadyNodes :: int
  PendingPods :: int
  AvgCPUPercent :: int
  AvgMemPercent :: int
  UnhealthyPods :: int
  RestartLatency :: int

definition no_metrics :: throttlingMetrics where
  "no_metrics = \<lparr>NotReadyNodes = 0, PendingPods = 0, AvgCPUPercent = 0, AvgMemPercent = 0,
     UnhealthyPods = 0, RestartLatency = 0\<rparr>"

text \<open>
  Each numbered block of \<open>collectSignals\<close> extends the signals and metrics gathered so far, or
  makes the function return with them and an error.
\<close>

type_synonym collected = "signal list \<times> throttlingMetrics"

definition collectNodeReady ::
    "'w api \<Rightarrow> adaptiveThrottlingConfig \<Rightarrow> signalChecksConfig \<Rightarrow> collected \<Rightarrow>
     ('w sys, collected \<times> err option) state" where
  "collectNodeReady a config checks acc =
     (case CheckNodeReady checks of
        Some c \<Rightarrow>
          if ready_Enabled c then do {
            r \<leftarrow> inWorld (checkNodeReadiness a (throttle_NodeSelector config));
            return (case r of
               Inl e \<Rightarrow> (acc, Some (Wrapf ''failed to check node readiness'' e))
             | Inr (sigs, count) \<Rightarrow> ((fst acc @ sigs, (snd acc)\<lparr>NotReadyNodes := count\<rparr>), None))
          } else return (acc, None)
      | None \<Rightarrow> return (acc, None))"

definition collectNodePressure ::
    "'w api \<Rightarrow> adaptiveThrottlingConfig \<Rightarrow> signalChecksConfig \<Rightarrow> collected \<Rightarrow>
     ('w sys, collected \<times> err option) state" where
  "collectNodePressure a config checks acc =
     (case CheckNodePressure checks of
        Some c \<Rightarrow>
          if pressure_Enabled c then do {
            r \<leftarrow> inWorld (checkNodePressure a (throttle_NodeSelector config) (PressureTypes c));
            return (case r of
               Inl e \<Rightarrow> (acc, Some (Wrapf ''failed to check node pressure'' e))
             | Inr sigs \<Rightarrow> ((fst acc @ sigs, snd acc), None))
          } else return (acc, None)
      | None \<Rightarrow> return (acc, None))"

definition collectPendingPods ::
    "'w api \<Rightarrow> adaptiveThrottlingConfig \<Rightarrow> signalChecksConfig \<Rightarrow> collected \<Rightarrow>
     ('w sys, collected \<times> err option) state" where
  "collectPendingPods a config checks acc =
     (case CheckPendingPods checks of
        Some c \<Rightarrow>
          if pending_Enabled c then do {
            r \<leftarrow> inWorld (checkPendingPods a (Threshold c));
            return (case r of
               Inl e \<Rightarrow> (acc, Some (Wrapf ''failed to check pending pods'' e))
             | Inr (sigs, count) \<Rightarrow>
                 ((case sigs of None \<Rightarrow> fst acc | Some s \<Rightarrow> fst acc @ [s],
                   (snd acc)\<lparr>PendingPods := count\<rparr>), None))
          } else return (acc, None)
      | None \<Rightarrow> return (acc, None))"

text \<open>The usage check goes through the cache, whose lifetime the first configuration sets.\<close>

definition initCacheTTL :: "adaptiveThrottlingConfig \<Rightarrow> nodeMetricsCache \<Rightarrow> nodeMetricsCache" where
  "initCacheTTL config c =
     (if ttl c = 0
      then c\<lparr>ttl := (if BatchInterval config * Second = 0 then 5 * Second
                      else BatchInterval config * Second)\<rparr>
      else c)"

definition cachedNodeUsage ::
    "'w api \<Rightarrow> adaptiveThrottlingConfig \<Rightarrow> nodeUsageCheckConfig \<Rightarrow>
     ('w sys, err + signal list \<times> int \<times> int) state" where
  "cachedNodeUsage a config c = do {
     cache \<leftarrow> readCache;
     _ \<leftarrow> writeCache (initCacheTTL config cache);
     (usageSignals, avgCPU, avgMem, hit) \<leftarrow> cache_get a;
     if hit then return (Inr (usageSignals, avgCPU, avgMem))
     else do {
       r \<leftarrow> inWorld (checkNodeUsage a (throttle_NodeSelector config) (CPUThresholdPercent c)
              (MemoryThresholdPercent c) (Scrape c));
       (case r of
          Inl e \<Rightarrow> return (Inl e)
        | Inr (usageSignals, avgCPU, avgMem) \<Rightarrow> do {
            _ \<leftarrow> cache_set a usageSignals avgCPU avgMem;
            return (Inr (usageSignals, avgCPU, avgMem))
          })
     }
   }"

definition collectNodeUsage ::
    "'w api \<Rightarrow> adaptiveThrottlingConfig \<Rightarrow> signalChecksConfig \<Rightarrow> collected \<Rightarrow>
     ('w sys, collected \<times> err option) state" where
  "collectNodeUsage a config checks acc =
     (case CheckNodeUsage checks of
        Some c \<Rightarrow>
          if usage_Enabled c then do {
            r \<leftarrow> cachedNodeUsage a config c;
            return (case r of
               Inl e \<Rightarrow> (acc, Some (Wrapf ''failed to check node usage'' e))
             | Inr (sigs, avgCPU, avgMem) \<Rightarrow>
                 ((fst acc @ sigs, (snd acc)\<lparr>AvgCPUPercent := avgCPU, AvgMemPercent := avgMem\<rparr>), None))
          } else return (acc, None)
      | None \<Rightarrow> return (acc, None))"

definition collectContainerRestarts ::
    "'w api \<Rightarrow> string \<Rightarrow> adaptiveThrottlingConfig \<Rightarrow> signalChecksConfig \<Rightarrow> collected \<Rightarrow>
     ('w sys, collected \<times> err option) state" where
  "collectContainerRestarts a targetNamespace config checks acc =
     (case CheckContainerRestarts checks of
        Some c \<Rightarrow>
          if restarts_Enabled c then do {
            r \<leftarrow> inWorld (checkContainerRestarts a targetNamespace (RestartThreshold c));
            return (case r of
               Inl e \<Rightarrow> (acc, Some (Wrapf ''failed to check container restarts'' e))
             | Inr (sigs, unhealthyCount) \<Rightarrow>
                 ((fst acc @ sigs, (snd acc)\<lparr>UnhealthyPods := unhealthyCount\<rparr>), None))
          } else return (acc, None)
      | None \<Rightarrow> return (acc, None))"

fun collectInTurn ::
    "(collected \<Rightarrow> ('w sys, collected \<times> err option) state) list \<Rightarrow> collected \<Rightarrow>
     ('w sys, collected \<times> err option) state" where
  "collectInTurn [] acc = return (acc, None)"
| "collectInTurn (f # fs) acc = do {
     (acc', e) \<leftarrow> f acc;
     (case e of None \<Rightarrow> collectInTurn fs acc' | Some err \<Rightarrow> return (acc', Some err))
   }"

definition collectSignals ::
    "'w api \<Rightarrow> adaptiveThrottlingConfig option \<Rightarrow> string \<Rightarrow>
     ('w sys, collected \<times> err option) state" where
  "collectSignals a config targetNamespace =
     (case config of
        None \<Rightarrow> return (([], no_metrics), None)
      | Some cfg \<Rightarrow>
          (case SignalChecks cfg of
             None \<Rightarrow> return (([], no_metrics), None)
           | Some checks \<Rightarrow>
               collectInTurn
                 [collectNodeReady a cfg checks, collectNodePressure a cfg checks,
                  collectPendingPods a cfg checks, collectNodeUsage a cfg checks,
                  collectContainerRestarts a targetNamespace cfg checks]
                 ([], no_metrics)))"

fun hasSignal :: "signal list \<Rightarrow> SignalType \<Rightarrow> bool" where
  "hasSignal [] signalType = False"
| "hasSignal (signal # signals) signalType =
     (if signal_Type signal = signalType then True else hasSignal signals signalType)"

lemma Split_Join:
  "ks \<noteq> [] \<Longrightarrow> (\<And>k. k \<in> set ks \<Longrightarrow> c \<notin> set k) \<Longrightarrow> Split c (Join [c] ks) = ks"
proof (induction ks)
  case (Cons k ks)
  then show ?case by (cases ks) (simp_all add: Split_free Split_append)
qed simp

subsection \<open>The loops in closed form\<close>

lemma hasSignal_iff: "hasSignal sigs ty \<longleftrightarrow> (\<exists>s \<in> set sigs. signal_Type s = ty)"
  by (induction sigs) auto

lemma hasSignal_append [simp]: "hasSignal (xs @ ys) ty \<longleftrightarrow> hasSignal xs ty \<or> hasSignal ys ty"
  by (auto simp: hasSignal_iff)

lemma readinessLoop_eq:
  "i32 n = n \<Longrightarrow> readinessLoop nodes (sigs, n) =
     (sigs @ map notReadySignal (filter (\<lambda>x. \<not> isNodeReady x) nodes),
      i32 (n + int (length (filter (\<lambda>x. \<not> isNodeReady x) nodes))))"
  by (induction nodes arbitrary: sigs n) (simp_all add: ac_simps)

lemma pendingCountLoop_eq:
  "i32 n = n \<Longrightarrow> pendingCountLoop pods n =
     i32 (n + int (length (filter (\<lambda>p. pod_Phase p = PodPending \<and> resourceBlocked (pod_Conditions p)) pods)))"
  by (induction pods arbitrary: n) (simp_all add: ac_simps)

lemma resourceBlocked_iff:
  "resourceBlocked cs \<longleftrightarrow>
     (\<exists>c \<in> set cs. podcond_Type c = ''PodScheduled'' \<and> podcond_Status c = ''False'' \<and>
        podcond_Reason c = ''Unschedulable'' \<and>
        (\<exists>r \<in> {''insufficient cpu'', ''insufficient memory'', ''insufficient pods''}.
           Contains (ToLower (podcond_Message c)) r))"
  by (induction cs) (auto simp: Let_def)

definition unhealthy :: "int \<Rightarrow> containerStatus \<Rightarrow> bool" where
  "unhealthy threshold c \<longleftrightarrow> isCrashLoop c \<or> threshold \<le> RestartCount c"

lemma firstUnhealthy_find: "firstUnhealthy threshold cs = find (unhealthy threshold) cs"
  by (induction cs) (auto simp: unhealthy_def)

definition restartSignals :: "int \<Rightarrow> pod list \<Rightarrow> signal list" where
  "restartSignals threshold pods =
     List.map_filter (\<lambda>p. map_option (restartSignal p) (find (unhealthy threshold) (ContainerStatuses p))) pods"

lemma restartsLoop_eq:
  "i32 n = n \<Longrightarrow> restartsLoop threshold pods (sigs, n) =
     (sigs @ restartSignals threshold pods, i32 (n + int (length (restartSignals threshold pods))))"
  by (induction pods arbitrary: sigs n)
    (auto simp: restartSignals_def map_filter_simps firstUnhealthy_find ac_simps split: option.splits)

text \<open>
  What the four checks on listed objects promise: signals of their own type only, and at least
  one exactly when the condition they look for holds of some object.
\<close>

locale signal_check =
  fixes ty :: SignalType
    and emit :: "'x list \<Rightarrow> signal list"
    and bad :: "'x \<Rightarrow> bool"
  assumes own_type: "s \<in> set (emit xs) \<Longrightarrow> signal_Type s = ty"
    and emits_iff: "emit xs \<noteq> [] \<longleftrightarrow> (\<exists>x \<in> set xs. bad x)"
begin

lemma hasSignal_own: "hasSignal (emit xs) ty \<longleftrightarrow> (\<exists>x \<in> set xs. bad x)"
proof -
  have "hasSignal (emit xs) ty \<longleftrightarrow> emit xs \<noteq> []"
    using own_type [of _ xs] by (cases "emit xs") (auto simp: hasSignal_iff)
  then show ?thesis by (simp add: emits_iff)
qed

lemma hasSignal_other: "t \<noteq> ty \<Longrightarrow> \<not> hasSignal (emit xs) t"
  using own_type by (auto simp: hasSignal_iff)

lemma hasSignal_among:
  "\<not> hasSignal before ty \<Longrightarrow> \<not> hasSignal after ty \<Longrightarrow>
     hasSignal (before @ emit xs @ after) ty \<longleftrightarrow> (\<exists>x \<in> set xs. bad x)"
  by (simp add: hasSignal_own)

end

interpretation readiness_check: signal_check
  SignalNodeNotReady "\<lambda>nodes. map notReadySignal (filter (\<lambda>x. \<not> isNodeReady x) nodes)"
  "\<lambda>node. \<not> isNodeReady node"
  by unfold_locales (auto simp: notReadySignal_def nodeSignal_def filter_empty_conv)

interpretation pressure_check: signal_check
  SignalNodePressure "pressureSignals tys"
  "\<lambda>node. \<exists>c \<in> set (node_Conditions node). nodecond_Type c \<in> set tys \<and> nodecond_Status c = ConditionTrue"
  for tys
  by unfold_locales (auto simp: pressureSignals_def pressureSignal_def nodeSignal_def split: if_splits)

interpretation restarts_check: signal_check
  SignalContainerRestarts "restartSignals threshold"
  "\<lambda>pod. \<exists>c \<in> set (ContainerStatuses pod). unhealthy threshold c"
  for threshold
proof
  show "signal_Type s = SignalContainerRestarts" if "s \<in> set (restartSignals threshold pods)" for s pods
    using that by (auto simp: restartSignals_def map_filter_def restartSignal_def nodeSignal_def)
  show "restartSignals threshold pods \<noteq> [] \<longleftrightarrow>
      (\<exists>pod \<in> set pods. \<exists>c \<in> set (ContainerStatuses pod). unhealthy threshold c)" for pods
    by (induction pods) (auto simp: restartSignals_def map_filter_simps find_None_iff split: option.splits
        dest: find_Some_mem)
qed

text \<open>The usage loop measures every node and then sums up.\<close>

fun measureNodes :: "'w api \<Rightarrow> metricsScrapeConfig option \<Rightarrow> node list \<Rightarrow> ('w, (node \<times> int \<times> int) list) state" where
  "measureNodes a scrapeConfig [] = return []"
| "measureNodes a scrapeConfig (node # nodes) = do {
     p \<leftarrow> nodePercent a scrapeConfig node;
     ps \<leftarrow> measureNodes a scrapeConfig nodes;
     return (case p of None \<Rightarrow> ps | Some q \<Rightarrow> (node, q) # ps)
   }"

fun over :: "int \<Rightarrow> int \<Rightarrow> node \<times> int \<times> int \<Rightarrow> bool" where
  "over c m (node, cpu, mem) \<longleftrightarrow> c \<le> cpu \<or> m \<le> mem"

definition summarize :: "int \<Rightarrow> int \<Rightarrow> (node \<times> int \<times> int) list \<Rightarrow> usageTotals \<Rightarrow> usageTotals" where
  "summarize c m ps t = t\<lparr>
     usage_signals := usage_signals t @ map (\<lambda>(node, cpu, mem). usageSignal node cpu mem) (filter (over c m) ps),
     totalCPU := i32 (totalCPU t + sum_list (map (fst \<circ> snd) ps)),
     totalMem := i32 (totalMem t + sum_list (map (snd \<circ> snd) ps)),
     nodeCount := i32 (nodeCount t + int (length ps))\<rparr>"

lemma usageLoop_measure:
  assumes "i32 (totalCPU t) = totalCPU t" "i32 (totalMem t) = totalMem t" "i32 (nodeCount t) = nodeCount t"
  shows "run_state (usageLoop a c m sc nodes t) w =
    (summarize c m (result (measureNodes a sc nodes) w) t, final (measureNodes a sc nodes) w)"
  using assms
proof (induction nodes arbitrary: t w)
  case Nil
  then show ?case by (simp add: summarize_def)
next
  case (Cons node nodes)
  show ?case
  proof (cases "result (nodePercent a sc node) w")
    case None
    then show ?thesis using Cons by simp
  next
    case (Some p)
    obtain cpu mem where p: "p = (cpu, mem)" by (cases p)
    show ?thesis
      using Some p by (simp add: Cons.IH) (simp add: summarize_def ac_simps)
  qed
qed

lemma sum_list_bounds:
  assumes "\<And>x. x \<in> set xs \<Longrightarrow> lo \<le> f x \<and> f x \<le> (hi :: int)"
  shows "lo * int (length xs) \<le> sum_list (map f xs) \<and> sum_list (map f xs) \<le> hi * int (length xs)"
  using assms
proof (induction xs)
  case (Cons x xs)
  then have "lo \<le> f x" "f x \<le> hi"
    "lo * int (length xs) \<le> sum_list (map f xs)" "sum_list (map f xs) \<le> hi * int (length xs)" by auto
  then show ?case by (simp add: algebra_simps)
qed simp

text \<open>Following a path of keys through objects.\<close>

fun json_at :: "string list \<Rightarrow> json \<Rightarrow> json option" where
  "json_at [] v = Some v"
| "json_at (k # ks) v =
     (case v of JObject obj \<Rightarrow> (case map_of obj k of None \<Rightarrow> None | Some u \<Rightarrow> json_at ks u) | _ \<Rightarrow> None)"

lemma extractLoop_iff:
  "keys \<noteq> [] \<Longrightarrow> extractLoop path i keys v = Inr q \<longleftrightarrow> json_at keys v = Some (JNumber q)"
proof (induction keys arbitrary: i v)
  case (Cons k ks)
  then show ?case by (cases ks) (auto split: json.splits option.splits)
qed simp

text \<open>The collectors add signals of their own type only.\<close>

lemma initCacheTTL_keeps [simp]:
  "fetchedAt (initCacheTTL config c) = fetchedAt c"
  "cache_signals (initCacheTTL config c) = cache_signals c"
  "cache_avgCPU (initCacheTTL config c) = cache_avgCPU c"
  "cache_avgMem (initCacheTTL config c) = cache_avgMem c"
  by (simp_all add: initCacheTTL_def)

lemma initCacheTTL_id: "ttl c \<noteq> 0 \<Longrightarrow> initCacheTTL config c = c"
  by (simp add: initCacheTTL_def)

subsection \<open>What a collection contains\<close>

text \<open>
  The invariant of the cache is that it holds usage signals only. Each collector keeps it, leaves
  \<open>startupComplete\<close> alone, and appends signals of one type.
\<close>

definition cache_ok :: "'w sys \<Rightarrow> bool" where
  "cache_ok s \<longleftrightarrow> (\<forall>x \<in> set (cache_signals (metricsCache s)). signal_Type x = SignalNodeUsage)"

lemma cache_ok_world [simp]: "cache_ok (s\<lparr>world := w\<rparr>) = cache_ok s"
  by (simp add: cache_ok_def)

definition adds :: "SignalType \<Rightarrow> (collected \<Rightarrow> ('w sys, collected \<times> err option) state) \<Rightarrow> bool" where
  "adds ty f \<longleftrightarrow> (\<forall>acc s. cache_ok s \<longrightarrow>
     cache_ok (final (f acc) s) \<and> startupComplete (final (f acc) s) = startupComplete s \<and>
     (\<exists>new. fst (fst (result (f acc) s)) = fst acc @ new \<and> (\<forall>x \<in> set new. signal_Type x = ty)))"

lemma addsI:
  assumes "\<And>acc s. cache_ok s \<Longrightarrow> cache_ok (final (f acc) s)"
    and "\<And>acc s. cache_ok s \<Longrightarrow> startupComplete (final (f acc) s) = startupComplete s"
    and "\<And>acc s. cache_ok s \<Longrightarrow>
      \<exists>new. fst (fst (result (f acc) s)) = fst acc @ new \<and> (\<forall>x \<in> set new. signal_Type x = ty)"
  shows "adds ty f"
  using assms by (simp add: adds_def)

lemma adds_node_ready: "adds SignalNodeNotReady (collectNodeReady a config checks)"
  by (rule addsI)
    (auto simp: collectNodeReady_def checkNodeReadiness_def readinessLoop_eq notReadySignal_def
      nodeSignal_def split: option.splits sum.splits)

lemma adds_pressure: "adds SignalNodePressure (collectNodePressure a config checks)"
  by (rule addsI)
    (auto simp: collectNodePressure_def checkNodePressure_def
      dest: pressure_check.own_type split: option.splits sum.splits)

lemma adds_pending: "adds SignalPendingPods (collectPendingPods a config checks)"
  by (rule addsI)
    (auto simp: collectPendingPods_def checkPendingPods_def Let_def pendingPodsSignal_def nodeSignal_def
      split: option.splits sum.splits)

lemma adds_restarts: "adds SignalContainerRestarts (collectContainerRestarts a ns config checks)"
  by (rule addsI)
    (auto simp: collectContainerRestarts_def checkContainerRestarts_def restartsLoop_eq
      dest: restarts_check.own_type split: option.splits sum.splits)

lemma checkNodeUsage_types:
  "result (checkNodeUsage a sel c m sc) w = Inr (sigs, x) \<Longrightarrow> s \<in> set sigs \<Longrightarrow> signal_Type s = SignalNodeUsage"
  by (auto simp: checkNodeUsage_def Let_def usageLoop_measure usageAverages_def summarize_def
      usageSignal_def nodeSignal_def split: sum.splits if_splits)

lemma cachedNodeUsage_ok:
  assumes "cache_ok s"
  shows "cache_ok (final (cachedNodeUsage a config c) s)"
    and "startupComplete (final (cachedNodeUsage a config c) s) = startupComplete s"
    and "result (cachedNodeUsage a config c) s = Inr (sigs, x) \<Longrightarrow> y \<in> set sigs \<Longrightarrow>
      signal_Type y = SignalNodeUsage"
  using assms
  by (auto simp: cachedNodeUsage_def cache_get_def cache_set_def cache_ok_def
      split: option.splits sum.splits prod.splits if_splits dest: checkNodeUsage_types)

lemma adds_usage: "adds SignalNodeUsage (collectNodeUsage a config checks)"
  by (rule addsI)
    (auto simp: collectNodeUsage_def cachedNodeUsage_ok split: option.splits sum.splits
      dest: cachedNodeUsage_ok(3))

lemmas collectors_add = adds_node_ready adds_pressure adds_pending adds_usage adds_restarts

lemma collectInTurn_adds:
  assumes "list_all2 adds tys fs" and "cache_ok s"
  shows "cache_ok (final (collectInTurn fs acc) s) \<and>
    startupComplete (final (collectInTurn fs acc) s) = startupComplete s \<and>
    (\<exists>new. fst (fst (result (collectInTurn fs acc) s)) = fst acc @ new \<and>
       signal_Type ` set new \<subseteq> set tys)"
  using assms
proof (induction tys fs arbitrary: acc s rule: list_all2_induct)
  case (Cons ty tys f fs)
  obtain acc' e where r: "result (f acc) s = (acc', e)" by (cases "result (f acc) s")
  obtain new where f: "cache_ok (final (f acc) s)" "startupComplete (final (f acc) s) = startupComplete s"
    "fst acc' = fst acc @ new" "\<forall>x \<in> set new. signal_Type x = ty"
    using Cons.hyps(1) Cons.prems r unfolding adds_def by (metis fst_conv)
  show ?case
  proof (cases e)
    case None
    with Cons.IH [OF f(1), of acc'] obtain more where
      "cache_ok (final (collectInTurn fs acc') (final (f acc) s))"
      "startupComplete (final (collectInTurn fs acc') (final (f acc) s)) = startupComplete s"
      "fst (fst (result (collectInTurn fs acc') (final (f acc) s))) = fst acc' @ more"
      "signal_Type ` set more \<subseteq> set tys" using f(2) by auto
    then show ?thesis using r f None by (auto intro!: exI [of _ "new @ more"])
  next
    case (Some err)
    then show ?thesis using r f by auto
  qed
qed simp

lemma checkNodeReadiness_run:
  assumes "result (ListNodes a (Some (orWorkers sel))) w = Inr nodes"
  shows "run_state (checkNodeReadiness a sel) w =
    (Inr (map notReadySignal (filter (\<lambda>n. \<not> isNodeReady n) nodes),
          i32 (int (length (filter (\<lambda>n. \<not> isNodeReady n) nodes)))),
     final (ListNodes a (Some (orWorkers sel))) w)"
  using assms by (simp add: checkNodeReadiness_def readinessLoop_eq)

definition sample_node :: "string \<Rightarrow> conditionStatus \<Rightarrow> node" where
  "sample_node name ready = \<lparr>node_Meta = (sample_meta '''' name)\<lparr>Labels := [''node-role.kubernetes.io/worker'' \<mapsto> '''']\<rparr>,
     node_Conditions = [\<lparr>nodecond_Type = ''Ready'', nodecond_Status = ready, LastTransitionTime = 0\<rparr>],
     Addresses = [(''InternalIP'', ''10.0.0.1'')], AllocatableMilliCPU = 1000, AllocatableMemory = 1000,
     TaintKeys = []\<rparr>"

definition busy_api :: "mem api" where
  "busy_api = mem_api\<lparr>KubeletStatsSummary :=
     (\<lambda>n. return (Inr (Inr \<lparr>UsageNanoCores = 900000000, UsageBytes = 400\<rparr>)))\<rparr>"

subsection \<open>Properties\<close>

text \<open>
  The readiness check reports exactly the listed nodes whose first \<open>Ready\<close> condition is not
  \<open>True\<close>, in order, one critical signal each, with their number; a failed list is passed on.
\<close>

theorem checkNodeReadiness_exact:
  "result (checkNodeReadiness a sel) w =
     (case result (ListNodes a (Some (orWorkers sel))) w of
        Inl e \<Rightarrow> Inl e
      | Inr nodes \<Rightarrow>
          let down = filter (\<lambda>n. \<not> isNodeReady n) nodes
          in Inr (map notReadySignal down, i32 (int (length down))))"
  by (simp add: checkNodeReadiness_def readinessLoop_eq Let_def split: sum.splits)

text \<open>
  The pending-pods check counts the pods that are \<open>Pending\<close> with an \<open>Unschedulable\<close>
  condition whose message names CPU, memory or pods as insufficient, and signals exactly when
  more of them exist than the threshold allows.
\<close>

theorem checkPendingPods_exact:
  assumes "result (ListPods a None) w = Inr pods" and "int (length pods) < 2 ^ 31"
  shows "\<exists>sig. result (checkPendingPods a threshold) w =
      Inr (sig, int (length (filter (\<lambda>p. pod_Phase p = PodPending \<and> resourceBlocked (pod_Conditions p)) pods))) \<and>
    (sig \<noteq> None \<longleftrightarrow> threshold < int (length
       (filter (\<lambda>p. pod_Phase p = PodPending \<and> resourceBlocked (pod_Conditions p)) pods)))"
proof -
  let ?n = "int (length (filter (\<lambda>p. pod_Phase p = PodPending \<and> resourceBlocked (pod_Conditions p)) pods))"
  have "?n < 2 ^ 31"
    using assms(2) length_filter_le [of _ pods] by (meson le_less_trans of_nat_le_iff)
  then have "pendingCountLoop pods 0 = ?n"
    by (simp add: pendingCountLoop_eq)
  then show ?thesis using assms(1) by (simp add: checkPendingPods_def Let_def)
qed

definition sample_pod :: "string \<Rightarrow> podPhase \<Rightarrow> string \<Rightarrow> pod" where
  "sample_pod name ph msg = \<lparr>pod_Meta = sample_meta ''shop'' name, OwnerReferences = [],
     NodeName = ''n1'', pod_Phase = ph,
     pod_Conditions = [\<lparr>podcond_Type = ''PodScheduled'', podcond_Status = ''False'',
       podcond_Reason = ''Unschedulable'', podcond_Message = msg\<rparr>],
     ContainerStatuses = [\<lparr>container_Name = ''c'', WaitingReason = None, RestartCount = 12\<rparr>]\<rparr>"

theorem checkPendingPods_exact_witness:
  "\<exists>sig. result (checkPendingPods mem_api 0)
       (sample_mem\<lparr>mPods := [sample_pod ''a'' PodPending ''0/3 nodes: Insufficient CPU'']\<rparr>) = Inr (sig, 1) \<and> sig \<noteq> None"
proof -
  let ?p = "sample_pod ''a'' PodPending ''0/3 nodes: Insufficient CPU''"
  have "resourceBlocked (pod_Conditions ?p)" "pod_Phase ?p = PodPending"
    by code_simp+
  moreover have "result (ListPods mem_api None) (sample_mem\<lparr>mPods := [?p]\<rparr>) = Inr [?p]"
    by (simp add: mem_ops)
  ultimately show ?thesis
    using checkPendingPods_exact [of mem_api "sample_mem\<lparr>mPods := [?p]\<rparr>" "[?p]" 0] by simp
qed

text \<open>
  The restart check reports each pod of the namespace that has a container in
  \<open>CrashLoopBackOff\<close> or at the restart threshold (10 when unset) exactly once, for the first
  such container.
\<close>

theorem checkContainerRestarts_exact:
  assumes "result (ListPods a (Some ns)) w = Inr pods" and "int (length pods) < 2 ^ 31"
  shows "let limit = (if threshold \<le> 0 then 10 else threshold);
             ill = filter (\<lambda>p. \<exists>c \<in> set (ContainerStatuses p). unhealthy limit c) pods
         in result (checkContainerRestarts a ns threshold) w =
              Inr (map (\<lambda>p. restartSignal p (the (find (unhealthy limit) (ContainerStatuses p)))) ill,
                   int (length ill))"
proof -
  let ?l = "if threshold \<le> 0 then 10 else threshold"
  let ?ill = "filter (\<lambda>p. \<exists>c \<in> set (ContainerStatuses p). unhealthy ?l c) pods"
  have eq: "restartSignals ?l pods =
      map (\<lambda>p. restartSignal p (the (find (unhealthy ?l) (ContainerStatuses p)))) ?ill"
    by (induction pods) (auto simp: restartSignals_def map_filter_simps find_None_iff
        dest: find_Some_mem split: option.splits)
  have "int (length ?ill) < 2 ^ 31"
    using assms(2) length_filter_le [of _ pods] by (meson le_less_trans of_nat_le_iff)
  then show ?thesis
    using assms(1) by (simp add: checkContainerRestarts_def restartsLoop_eq eq Let_def)
qed

theorem checkContainerRestarts_exact_witness:
  "result (checkContainerRestarts mem_api ''shop'' 0) (sample_mem\<lparr>mPods := [sample_pod ''a'' PodRunning '''']\<rparr>) =
     Inr ([restartSignal (sample_pod ''a'' PodRunning '''')
             \<lparr>container_Name = ''c'', WaitingReason = None, RestartCount = 12\<rparr>], 1)"
  using checkContainerRestarts_exact [of mem_api "''shop''"
      "sample_mem\<lparr>mPods := [sample_pod ''a'' PodRunning '''']\<rparr>" "[sample_pod ''a'' PodRunning '''']" 0]
  by (simp add: mem_ops sample_pod_def unhealthy_def Let_def sample_meta_def)

text \<open>
  C33: \<open>extractJSONPath\<close> returns a number exactly when following the path's dot-separated keys
  through nested objects leads to that number; every other document gives an error.
\<close>

theorem extractJSONPath_exact:
  "extractJSONPath data path = Inr q \<longleftrightarrow>
     json_at (Split CHR ''.'' path) (JObject data) = Some (JNumber q)"
  using Split_nonempty by (simp add: extractJSONPath_def extractLoop_iff)

text \<open>
  C32: the averages of the usage check lie between the smallest and the largest percentage
  measured, and are 0 when no node could be measured; the signals are exactly those of the
  measured nodes at or above a threshold (80 when unset).
\<close>

theorem checkNodeUsage_exact:
  assumes "result (ListNodes a (Some (orWorkers sel))) w = Inr nodes" and "nodes \<noteq> []"
    and "v = final (ListNodes a (Some (orWorkers sel))) w"
    and "ps = result (measureNodes a sc nodes) v"
    and bounds: "\<And>node cpu mem. (node, cpu, mem) \<in> set ps \<Longrightarrow> lo \<le> cpu \<and> cpu \<le> hi \<and> lo \<le> mem \<and> mem \<le> hi"
    and "0 \<le> lo" and "lo \<le> hi" and "hi * int (length ps) < 2 ^ 31" and "int (length ps) < 2 ^ 31"
  shows "\<exists>avgCPU avgMem. result (checkNodeUsage a sel cpuT memT sc) w =
      Inr (map (\<lambda>(node, cpu, mem). usageSignal node cpu mem)
             (filter (over (if cpuT = 0 then 80 else cpuT) (if memT = 0 then 80 else memT)) ps),
           avgCPU, avgMem) \<and>
    (if ps = [] then avgCPU = 0 \<and> avgMem = 0
     else lo \<le> avgCPU \<and> avgCPU \<le> hi \<and> lo \<le> avgMem \<and> avgMem \<le> hi)"
proof -
  let ?n = "int (length ps)"
  have avg: "i32 (sum_list (map f ps)) = sum_list (map f ps) \<and>
      (ps \<noteq> [] \<longrightarrow> lo \<le> sum_list (map f ps) div ?n \<and> sum_list (map f ps) div ?n \<le> hi) \<and>
      0 \<le> sum_list (map f ps)"
    if f: "\<And>x. x \<in> set ps \<Longrightarrow> lo \<le> f x \<and> f x \<le> hi" for f
  proof -
    have s: "lo * ?n \<le> sum_list (map f ps)" "sum_list (map f ps) \<le> hi * ?n"
      using sum_list_bounds [of ps lo f hi] f by auto
    then have nn: "0 \<le> sum_list (map f ps)"
      using assms(6) by (meson mult_nonneg_nonneg of_nat_0_le_iff order_trans)
    have "lo \<le> sum_list (map f ps) div ?n \<and> sum_list (map f ps) div ?n \<le> hi" if "ps \<noteq> []"
      using s that zdiv_mono1 [OF s(1), of ?n] zdiv_mono1 [OF s(2), of ?n] by simp
    moreover have "i32 (sum_list (map f ps)) = sum_list (map f ps)"
      using s(2) nn assms(8) by simp
    ultimately show ?thesis using nn by blast
  qed
  have c: "\<And>x. x \<in> set ps \<Longrightarrow> lo \<le> (fst \<circ> snd) x \<and> (fst \<circ> snd) x \<le> hi"
    and m: "\<And>x. x \<in> set ps \<Longrightarrow> lo \<le> (snd \<circ> snd) x \<and> (snd \<circ> snd) x \<le> hi"
    using bounds by auto
  let ?t = "summarize (if cpuT = 0 then 80 else cpuT) (if memT = 0 then 80 else memT) ps
    \<lparr>usage_signals = [], totalCPU = 0, totalMem = 0, nodeCount = 0\<rparr>"
  have run: "result (checkNodeUsage a sel cpuT memT sc) w = Inr (usageAverages ?t)"
    using assms(1-4) by (simp add: checkNodeUsage_def Let_def usageLoop_measure)
  have "0 < ?n" if "ps \<noteq> []" using that by simp
  then show ?thesis
    unfolding run using avg [of "fst \<circ> snd", OF c] avg [of "snd \<circ> snd", OF m] assms(9)
    by (cases "ps = []") (simp_all add: summarize_def usageAverages_def sdiv_nonneg)
qed

theorem checkNodeUsage_exact_witness:
  "\<exists>avgCPU avgMem. result (checkNodeUsage busy_api None 0 0 None)
       (sample_mem\<lparr>mNodes := [sample_node ''n1'' ConditionTrue]\<rparr>) =
      Inr ([usageSignal (sample_node ''n1'' ConditionTrue) 90 40], avgCPU, avgMem) \<and>
    40 \<le> avgCPU \<and> avgCPU \<le> 90 \<and> 40 \<le> avgMem \<and> avgMem \<le> 90"
proof -
  let ?n = "sample_node ''n1'' ConditionTrue"
  let ?w = "sample_mem\<lparr>mNodes := [?n]\<rparr>"
  have l: "run_state (ListNodes busy_api (Some (orWorkers None))) ?w = (Inr [?n], ?w)"
    by (simp add: busy_api_def mem_ops mem_labels_match_def orWorkers_def workerSelector_def sample_node_def sample_meta_def)
  have m: "result (nodePercent busy_api None ?n) ?w = Some (90, 40)"
    by (simp add: nodePercent_def anyReady_def isURLSource_def kubeletPercent_def getNodeCPUUsage_def
        getNodeMemoryUsage_def kubeletStatsOf_def busy_api_def mem_ops sample_node_def sdiv_nonneg)
  show ?thesis
    using checkNodeUsage_exact [where a = busy_api and sel = None and w = ?w and nodes = "[?n]"
        and v = ?w and ps = "[(?n, 90, 40)]" and sc = None and lo = 40 and hi = 90
        and cpuT = 0 and memT = 0] l m
    by simp
qed

text \<open>
  C37: the cached scrape is shared by all policies: within its lifetime the usage check returns
  the cached signals and averages for any configuration whatsoever, so the thresholds and the
  node selector of the asking policy have no influence, and nothing but the clock is consulted.
\<close>

theorem cached_usage_ignores_config:
  assumes "ttl (metricsCache s) \<noteq> 0" and "fetchedAt (metricsCache s) = Some t"
    and "result (Now a) (world s) - t < ttl (metricsCache s)"
  shows "run_state (cachedNodeUsage a config c) s =
    (Inr (cache_signals (metricsCache s), cache_avgCPU (metricsCache s), cache_avgMem (metricsCache s)),
     s\<lparr>world := final (Now a) (world s)\<rparr>)"
  using assms by (simp add: cachedNodeUsage_def cache_get_def initCacheTTL_id)

theorem cached_usage_ignores_config_witness:
  "\<forall>config c. result (cachedNodeUsage mem_api config c)
     \<lparr>startupComplete = True,
      metricsCache = \<lparr>cache_signals = [], cache_avgCPU = 95, cache_avgMem = 20,
        fetchedAt = Some (999 * Second), ttl = 5 * Second\<rparr>,
      world = sample_mem\<rparr> = Inr ([], 95, 20)"
  using cached_usage_ignores_config [of "\<lparr>startupComplete = True,
      metricsCache = \<lparr>cache_signals = [], cache_avgCPU = 95, cache_avgMem = 20,
        fetchedAt = Some (999 * Second), ttl = 5 * Second\<rparr>,
      world = sample_mem\<rparr>" "999 * Second" mem_api]
  by (simp add: mem_ops sample_mem_def Second_def)

text \<open>
  C29: a collection that succeeds contains a \<open>NodeNotReady\<close> signal exactly when the readiness
  check is enabled and some listed node is not ready; whatever the other checks find, they cannot
  add or hide one. The reconciler's cache keeps holding usage signals only, and its startup flag
  is not touched.
\<close>

theorem collectSignals_not_ready:
  assumes "cache_ok s" and "SignalChecks cfg = Some checks"
    and "CheckNodeReady checks = Some c" and "ready_Enabled c"
    and "result (ListNodes a (Some (orWorkers (throttle_NodeSelector cfg)))) (world s) = Inr nodes"
    and "result (collectSignals a (Some cfg) ns) s = ((sigs, metrics), None)"
  shows "(hasSignal sigs SignalNodeNotReady \<longleftrightarrow> (\<exists>n \<in> set nodes. \<not> isNodeReady n)) \<and>
    cache_ok (final (collectSignals a (Some cfg) ns) s) \<and>
    startupComplete (final (collectSignals a (Some cfg) ns) s) = startupComplete s"
proof -
  let ?down = "map notReadySignal (filter (\<lambda>n. \<not> isNodeReady n) nodes)"
  let ?rest = "[collectNodePressure a cfg checks, collectPendingPods a cfg checks,
     collectNodeUsage a cfg checks, collectContainerRestarts a ns cfg checks]"
  let ?tys = "[SignalNodePressure, SignalPendingPods, SignalNodeUsage, SignalContainerRestarts]"
  let ?s1 = "final (collectNodeReady a cfg checks ([], no_metrics)) s"
  obtain m where first: "result (collectNodeReady a cfg checks ([], no_metrics)) s = ((?down, m), None)"
    and ok: "cache_ok ?s1" "startupComplete ?s1 = startupComplete s"
    using assms(1,3-5) checkNodeReadiness_run [OF assms(5)] by (simp add: collectNodeReady_def)
  have run: "run_state (collectSignals a (Some cfg) ns) s = run_state (collectInTurn ?rest (?down, m)) ?s1"
    using assms(2) first by (simp add: collectSignals_def)
  have "list_all2 adds ?tys ?rest" by (simp add: collectors_add)
  from collectInTurn_adds [OF this ok(1), of "(?down, m)"] obtain new where
    new: "cache_ok (final (collectInTurn ?rest (?down, m)) ?s1)"
      "startupComplete (final (collectInTurn ?rest (?down, m)) ?s1) = startupComplete ?s1"
      "fst (fst (result (collectInTurn ?rest (?down, m)) ?s1)) = ?down @ new"
      "signal_Type ` set new \<subseteq> set ?tys" by auto
  have "sigs = ?down @ new"
    using new(3) assms(6) unfolding run by simp
  moreover have "\<not> hasSignal new SignalNodeNotReady"
    using new(4) by (auto simp: hasSignal_iff)
  ultimately show ?thesis
    unfolding run using new(1,2) ok(2) readiness_check.hasSignal_own [of nodes] by simp
qed

theorem collectSignals_not_ready_witness:
  "let cfg = \<lparr>throttle_Enabled = True, InitialBatchSize = 3, MinBatchSize = 1, BatchInterval = 5,
         SignalChecks = Some \<lparr>CheckNodeReady = Some \<lparr>ready_Enabled = True, WaitInterval = 10, MaxWaitTime = 300\<rparr>,
           CheckNodePressure = None, CheckPendingPods = None, CheckNodeUsage = None,
           CheckContainerRestarts = None\<rparr>,
         throttle_NodeSelector = None, FallbackOnMetricsUnavailable = True\<rparr>;
       s = \<lparr>startupComplete = True, metricsCache = \<lparr>cache_signals = [], cache_avgCPU = 0, cache_avgMem = 0,
              fetchedAt = None, ttl = 0\<rparr>,
            world = sample_mem\<lparr>mNodes := [sample_node ''n1'' ConditionFalse]\<rparr>\<rparr>
   in \<exists>sigs. fst (fst (result (collectSignals mem_api (Some cfg) ''shop'') s)) = sigs \<and>
        hasSignal sigs SignalNodeNotReady"
proof -
  let ?checks = "\<lparr>CheckNodeReady = Some \<lparr>ready_Enabled = True, WaitInterval = 10, MaxWaitTime = 300\<rparr>,
     CheckNodePressure = None, CheckPendingPods = None, CheckNodeUsage = None,
     CheckContainerRestarts = None\<rparr>"
  let ?cfg = "\<lparr>throttle_Enabled = True, InitialBatchSize = 3, MinBatchSize = 1, BatchInterval = 5,
     SignalChecks = Some ?checks, throttle_NodeSelector = None, FallbackOnMetricsUnavailable = True\<rparr>"
  let ?s = "\<lparr>startupComplete = True, metricsCache = \<lparr>cache_signals = [], cache_avgCPU = 0, cache_avgMem = 0,
     fetchedAt = None, ttl = 0\<rparr>, world = sample_mem\<lparr>mNodes := [sample_node ''n1'' ConditionFalse]\<rparr>\<rparr>"
  have l: "result (ListNodes mem_api (Some (orWorkers (throttle_NodeSelector ?cfg)))) (world ?s) =
      Inr [sample_node ''n1'' ConditionFalse]"
    by (simp add: mem_ops mem_labels_match_def orWorkers_def workerSelector_def sample_node_def sample_meta_def)
  have ok: "cache_ok ?s" by (simp add: cache_ok_def)
  obtain sigs m where r: "result (collectSignals mem_api (Some ?cfg) ''shop'') ?s = ((sigs, m), None)"
    using checkNodeReadiness_run [OF l]
    by (simp add: collectSignals_def collectNodeReady_def collectNodePressure_def collectPendingPods_def
        collectNodeUsage_def collectContainerRestarts_def)
  from collectSignals_not_ready [OF ok _ _ _ l r] r show ?thesis
    by (simp add: isNodeReady_def sample_node_def Let_def)
qed

end
