(* ===== verification/Workloads.thy ===== *)
theory Workloads
  imports Mem_Client
begin

text \<open>
  Freezing and resuming one workload: \<open>listDeployments\<close>, \<open>listStatefulSets\<close>,
  \<open>freezeDeployment\<close>, \<open>freezeStatefulSet\<close>, \<open>resumeDeployment\<close>, \<open>resumeStatefulSet\<close>,
  \<open>filterWorkloadsRequiringResume\<close> and the rolling restarts of
  \<open>src/internal/controller/namespacelifecyclepolicy_controller.go\<close>.

  Each function is the client call around a pure change of the fetched object
  (\<open>freezeDeployment_change\<close> and so on). The locale \<open>freeze_kind\<close> states what the two kinds of
  workload promise about that change; the round trip is proved in it once and obtained for
  Deployments and StatefulSets by interpretation.
\<close>

subsection \<open>Listing\<close>

definition listDeployments ::
    "'w api \<Rightarrow> string \<Rightarrow> labelSelector option \<Rightarrow> ('w, err + workload list) state" where
  "listDeployments a ns sel =
     (case sel of
        None \<Rightarrow> ListDeployments a ns None
      | Some s \<Rightarrow>
          (case LabelSelectorAsSelector a s of
             Inl e \<Rightarrow> return (Inl e)
           | Inr labelSelector \<Rightarrow> ListDeployments a ns (Some labelSelector)))"

definition listStatefulSets ::
    "'w api \<Rightarrow> string \<Rightarrow> labelSelector option \<Rightarrow> ('w, err + workload list) state" where
  "listStatefulSets a ns sel =
     (case sel of
        None \<Rightarrow> ListStatefulSets a ns None
      | Some s \<Rightarrow>
          (case LabelSelectorAsSelector a s of
             Inl e \<Rightarrow> return (Inl e)
           | Inr labelSelector \<Rightarrow> ListStatefulSets a ns (Some labelSelector)))"

subsection \<open>Freezing\<close>

abbreviation workload_Annotations :: "workload \<Rightarrow> string \<rightharpoonup> string" where
  "workload_Annotations d \<equiv> Annotations (workload_Meta d)"

abbreviation set_Annotations :: "(string \<rightharpoonup> string) \<Rightarrow> workload \<Rightarrow> workload" where
  "set_Annotations m \<equiv> workload_Meta_update (Annotations_update (\<lambda>_. m))"

definition deploymentGrace :: "policy option \<Rightarrow> int option" where
  "deploymentGrace policy =
     (case policy of
        None \<Rightarrow> None
      | Some p \<Rightarrow> (case TerminationGracePeriodSeconds (Spec p) of
                    None \<Rightarrow> None
                  | Some g \<Rightarrow> GraceDeployment g))"

definition statefulSetGrace :: "policy option \<Rightarrow> int option" where
  "statefulSetGrace policy =
     (case policy of
        None \<Rightarrow> None
      | Some p \<Rightarrow> (case TerminationGracePeriodSeconds (Spec p) of
                    None \<Rightarrow> None
                  | Some g \<Rightarrow> GraceStatefulSet g))"

text \<open>The body of the retry block: \<open>None\<close> when the workload already has no replicas.\<close>

definition freezeDeployment_change :: "policy option \<Rightarrow> workload \<Rightarrow> workload option" where
  "freezeDeployment_change policy latest =
     (if Replicas latest = Some 0 then None
      else
        let originalReplicas = (case Replicas latest of None \<Rightarrow> 1 | Some n \<Rightarrow> n);
            ann = (workload_Annotations latest)(AnnotationOriginalReplicas \<mapsto> Itoa originalReplicas)
        in Some (case deploymentGrace policy of
             None \<Rightarrow> (set_Annotations ann latest)\<lparr>Replicas := Some 0\<rparr>
           | Some grace \<Rightarrow>
               (set_Annotations
                  (ann(AnnotationOriginalTerminationGracePeriod \<mapsto>
                     (case TemplateGracePeriod latest of Some v \<Rightarrow> Itoa v | None \<Rightarrow> nilAnnotationValue)))
                  latest)\<lparr>TemplateGracePeriod := Some grace, Replicas := Some 0\<rparr>))"

definition freezeDeployment ::
    "'w api \<Rightarrow> workload \<Rightarrow> policy option \<Rightarrow> ('w, err option) state" where
  "freezeDeployment a deployment policy =
     getModifyWrite a (GetDeployment a (workload_key deployment))
       (freezeDeployment_change policy) (PatchDeployment a)"

definition freezeStatefulSet_change :: "policy option \<Rightarrow> workload \<Rightarrow> workload option" where
  "freezeStatefulSet_change policy latest =
     (if Replicas latest = Some 0 then None
      else
        let originalReplicas = (case Replicas latest of None \<Rightarrow> 1 | Some n \<Rightarrow> n);
            ann = (workload_Annotations latest)(AnnotationOriginalReplicas \<mapsto> Itoa originalReplicas)
        in Some (case statefulSetGrace policy of
             None \<Rightarrow> (set_Annotations ann latest)\<lparr>Replicas := Some 0\<rparr>
           | Some grace \<Rightarrow>
               (set_Annotations
                  (ann(AnnotationOriginalTerminationGracePeriod \<mapsto>
                     (case TemplateGracePeriod latest of Some v \<Rightarrow> Itoa v | None \<Rightarrow> nilAnnotationValue)))
                  latest)\<lparr>TemplateGracePeriod := Some grace, Replicas := Some 0\<rparr>))"

definition freezeStatefulSet ::
    "'w api \<Rightarrow> workload \<Rightarrow> policy option \<Rightarrow> ('w, err option) state" where
  "freezeStatefulSet a sts policy =
     getModifyWrite a (GetStatefulSet a (workload_key sts))
       (freezeStatefulSet_change policy) (PatchStatefulSet a)"

subsection \<open>Resuming\<close>

text \<open>
  The replica count is parsed from the annotation of the object that was passed in, the grace
  period from the annotation of the object that is fetched inside the retry block.
\<close>

definition resumeDeployment_change :: "int \<Rightarrow> workload \<Rightarrow> workload option" where
  "resumeDeployment_change originalReplicas latest =
     (if workload_Annotations latest AnnotationOriginalReplicas = None then None
      else
        let grace =
              (case workload_Annotations latest AnnotationOriginalTerminationGracePeriod of
                 None \<Rightarrow> TemplateGracePeriod latest
               | Some s \<Rightarrow>
                   if s = nilAnnotationValue then None
                   else (case ParseInt s of Inr v \<Rightarrow> Some v | Inl _ \<Rightarrow> TemplateGracePeriod latest));
            ann = (workload_Annotations latest)
                    (AnnotationOriginalTerminationGracePeriod := None,
                     AnnotationOriginalReplicas := None)
        in Some ((set_Annotations ann latest)
             \<lparr>Replicas := Some (i32 originalReplicas), TemplateGracePeriod := grace\<rparr>))"

definition resumeDeployment :: "'w api \<Rightarrow> workload \<Rightarrow> ('w, err option) state" where
  "resumeDeployment a deployment =
     (case workload_Annotations deployment AnnotationOriginalReplicas of
        None \<Rightarrow> return None
      | Some s \<Rightarrow>
          (case Atoi s of
             Inl e \<Rightarrow> return (Some (NumError e s))
           | Inr originalReplicas \<Rightarrow>
               getModifyWrite a (GetDeployment a (workload_key deployment))
                 (resumeDeployment_change originalReplicas) (PatchDeployment a)))"

definition resumeStatefulSet_change :: "int \<Rightarrow> workload \<Rightarrow> workload option" where
  "resumeStatefulSet_change originalReplicas latest =
     (if workload_Annotations latest AnnotationOriginalReplicas = None then None
      else
        let grace =
              (case workload_Annotations latest AnnotationOriginalTerminationGracePeriod of
                 None \<Rightarrow> TemplateGracePeriod latest
               | Some s \<Rightarrow>
                   if s = nilAnnotationValue then None
                   else (case ParseInt s of Inr v \<Rightarrow> Some v | Inl _ \<Rightarrow> TemplateGracePeriod latest));
            ann = (workload_Annotations latest)
                    (AnnotationOriginalTerminationGracePeriod := None,
                     AnnotationOriginalReplicas := None)
        in Some ((set_Annotations ann latest)
             \<lparr>Replicas := Some (i32 originalReplicas), TemplateGracePeriod := grace\<rparr>))"

definition resumeStatefulSet :: "'w api \<Rightarrow> workload \<Rightarrow> ('w, err option) state" where
  "resumeStatefulSet a sts =
     (case workload_Annotations sts AnnotationOriginalReplicas of
        None \<Rightarrow> return None
      | Some s \<Rightarrow>
          (case Atoi s of
             Inl e \<Rightarrow> return (Some (NumError e s))
           | Inr originalReplicas \<Rightarrow>
               getModifyWrite a (GetStatefulSet a (workload_key sts))
                 (resumeStatefulSet_change originalReplicas) (PatchStatefulSet a)))"

definition filterWorkloadsRequiringResume ::
    "workload list \<Rightarrow> workload list \<Rightarrow> workload list \<times> workload list" where
  "filterWorkloadsRequiringResume deployments statefulSets =
     (filter (\<lambda>d. workload_Annotations d AnnotationOriginalReplicas \<noteq> None) deployments,
      filter (\<lambda>s. workload_Annotations s AnnotationOriginalReplicas \<noteq> None) statefulSets)"

subsection \<open>Rolling restarts\<close>

definition triggerRollingRestart :: "'w api \<Rightarrow> workload \<Rightarrow> ('w, err option) state" where
  "triggerRollingRestart a deployment = do {
     now \<leftarrow> Now a;
     PatchDeployment a
       (deployment\<lparr>TemplateAnnotations :=
          (TemplateAnnotations deployment)(restartTimestamp \<mapsto> FormatRFC3339 a now)\<rparr>)
       deployment
   }"

definition triggerRollingRestartSts :: "'w api \<Rightarrow> workload \<Rightarrow> ('w, err option) state" where
  "triggerRollingRestartSts a sts = do {
     now \<leftarrow> Now a;
     PatchStatefulSet a
       (sts\<lparr>TemplateAnnotations :=
          (TemplateAnnotations sts)(restartTimestamp \<mapsto> FormatRFC3339 a now)\<rparr>)
       sts
   }"

definition performBalancing :: "'w api \<Rightarrow> policy \<Rightarrow> ('w, err option) state" where
  "performBalancing a policy = do {
     deployments \<leftarrow> listDeployments a (TargetNamespace (Spec policy)) (Selector (Spec policy));
     (case deployments of
        Inl e \<Rightarrow> return (Some e)
      | Inr ds \<Rightarrow> do {
          _ \<leftarrow> for_each ds (triggerRollingRestart a);
          statefulSets \<leftarrow> listStatefulSets a (TargetNamespace (Spec policy)) (Selector (Spec policy));
          (case statefulSets of
             Inl e \<Rightarrow> return (Some e)
           | Inr ss \<Rightarrow> do {
               _ \<leftarrow> for_each ss (triggerRollingRestartSts a);
               return None
             })
        })
   }"

subsection \<open>What freezing a kind of workload promises\<close>

abbreviation unfrozen_marks :: "workload \<Rightarrow> bool" where
  "unfrozen_marks d \<equiv>
     workload_Annotations d AnnotationOriginalReplicas = None \<and>
     workload_Annotations d AnnotationOriginalTerminationGracePeriod = None"

lemma set_own_Annotations [simp]: "set_Annotations (workload_Annotations d) d = d"
  by (cases d) (simp add: objectMeta.equality)

lemma set_Annotations_key [simp]: "workload_key (set_Annotations m d) = workload_key d"
  by (simp add: workload_key_def meta_key_def)

lemma workload_key_updates [simp]:
  "workload_key (d\<lparr>Replicas := r\<rparr>) = workload_key d"
  "workload_key (d\<lparr>TemplateGracePeriod := g\<rparr>) = workload_key d"
  "workload_key (d\<lparr>TemplateAnnotations := t\<rparr>) = workload_key d"
  by (simp_all add: workload_key_def)

locale freeze_kind =
  fixes grace :: "policy option \<Rightarrow> int option"
    and freeze :: "policy option \<Rightarrow> workload \<Rightarrow> workload option"
    and resume :: "int \<Rightarrow> workload \<Rightarrow> workload option"
  assumes freeze_skip: "freeze p d = None \<longleftrightarrow> Replicas d = Some 0"
    and freeze_zero: "freeze p d = Some d' \<Longrightarrow> Replicas d' = Some 0"
    and freeze_count: "freeze p d = Some d' \<Longrightarrow>
      workload_Annotations d' AnnotationOriginalReplicas =
        Some (Itoa (case Replicas d of None \<Rightarrow> 1 | Some n \<Rightarrow> n))"
    and freeze_grace: "freeze p d = Some d' \<Longrightarrow>
      (TemplateGracePeriod d', workload_Annotations d' AnnotationOriginalTerminationGracePeriod) =
        (case grace p of
           None \<Rightarrow> (TemplateGracePeriod d,
                    workload_Annotations d AnnotationOriginalTerminationGracePeriod)
         | Some g \<Rightarrow> (Some g, Some (case TemplateGracePeriod d of
                                    Some v \<Rightarrow> Itoa v | None \<Rightarrow> nilAnnotationValue)))"
    and freeze_frame: "freeze p d = Some d' \<Longrightarrow>
      d = (set_Annotations (workload_Annotations d) d')
            \<lparr>Replicas := Replicas d, TemplateGracePeriod := TemplateGracePeriod d\<rparr> \<and>
      (\<forall>k. k \<noteq> AnnotationOriginalReplicas \<longrightarrow> k \<noteq> AnnotationOriginalTerminationGracePeriod \<longrightarrow>
        workload_Annotations d' k = workload_Annotations d k)"
    and resume_skip: "resume n d = None \<longleftrightarrow> workload_Annotations d AnnotationOriginalReplicas = None"
    and resume_some: "resume n d = Some d' \<Longrightarrow>
      d' = (set_Annotations ((workload_Annotations d)
              (AnnotationOriginalTerminationGracePeriod := None, AnnotationOriginalReplicas := None)) d)
            \<lparr>Replicas := Some (i32 n),
             TemplateGracePeriod :=
               (case workload_Annotations d AnnotationOriginalTerminationGracePeriod of
                  None \<Rightarrow> TemplateGracePeriod d
                | Some s \<Rightarrow> if s = nilAnnotationValue then None
                            else (case ParseInt s of Inr v \<Rightarrow> Some v | Inl _ \<Rightarrow> TemplateGracePeriod d))\<rparr>"
begin

lemma freeze_key: "freeze p d = Some d' \<Longrightarrow> workload_key d' = workload_key d"
  using freeze_frame [of p d d'] by (metis set_Annotations_key workload_key_updates(1,2))

lemma resume_key: "resume n d = Some d' \<Longrightarrow> workload_key d' = workload_key d"
  using resume_some [of n d d'] by simp

lemma freeze_unless_zero: "Replicas d \<noteq> Some 0 \<Longrightarrow> \<exists>d'. freeze p d = Some d'"
  using freeze_skip [of p d] by (cases "freeze p d") auto

lemma frozen_grace_restored:
  assumes "freeze p d = Some d'"
    and "workload_Annotations d AnnotationOriginalTerminationGracePeriod = None"
    and "\<And>g. TemplateGracePeriod d = Some g \<Longrightarrow> int64_range g"
  shows "(case workload_Annotations d' AnnotationOriginalTerminationGracePeriod of
       None \<Rightarrow> TemplateGracePeriod d'
     | Some s \<Rightarrow> if s = nilAnnotationValue then None
                 else (case ParseInt s of Inr v \<Rightarrow> Some v | Inl _ \<Rightarrow> TemplateGracePeriod d'))
     = TemplateGracePeriod d"
proof (cases "grace p")
  case None
  with freeze_grace [OF assms(1)] assms(2) show ?thesis by simp
next
  case (Some g)
  with freeze_grace [OF assms(1)]
  have s: "workload_Annotations d' AnnotationOriginalTerminationGracePeriod =
      Some (case TemplateGracePeriod d of Some v \<Rightarrow> Itoa v | None \<Rightarrow> nilAnnotationValue)" by simp
  show ?thesis
    using assms(3) by (cases "TemplateGracePeriod d") (simp_all add: s nilAnnotationValue_def)
qed

lemma freeze_resume:
  assumes "freeze p d = Some d'" and "unfrozen_marks d"
    and "Replicas d = Some n" and "int32_range n"
    and "\<And>g. TemplateGracePeriod d = Some g \<Longrightarrow> int64_range g"
  shows "resume n d' = Some d"
proof -
  have "resume n d' \<noteq> None"
    using freeze_count [OF assms(1)] by (simp add: resume_skip)
  then obtain e where e: "resume n d' = Some e" by auto
  have marks: "(workload_Annotations d')
      (AnnotationOriginalTerminationGracePeriod := None, AnnotationOriginalReplicas := None)
      = workload_Annotations d"
    using freeze_frame [OF assms(1)] assms(2) by auto
  have "e = (set_Annotations (workload_Annotations d) d')
      \<lparr>Replicas := Some n, TemplateGracePeriod := TemplateGracePeriod d\<rparr>"
    using resume_some [OF e] frozen_grace_restored [OF assms(1) _ assms(5)] assms(2,4)
    by (simp only: marks) simp
  also have "\<dots> = d"
    using freeze_frame [OF assms(1)] assms(3) by simp
  finally show ?thesis using e by simp
qed

text \<open>A workload that was frozen, scaled up by hand and frozen again loses its own grace period.\<close>

lemma refreeze_grace:
  assumes "freeze p d = Some d1" and "grace p = Some g" and "int64_range g"
    and "freeze p (d1\<lparr>Replicas := Some m\<rparr>) = Some d2" and "resume m d2 = Some d3"
  shows "TemplateGracePeriod d3 = Some g"
proof -
  have "TemplateGracePeriod d1 = Some g"
    using freeze_grace [OF assms(1)] assms(2) by simp
  then have "workload_Annotations d2 AnnotationOriginalTerminationGracePeriod = Some (Itoa g)"
    using freeze_grace [OF assms(4)] assms(2) by simp
  then show ?thesis
    using resume_some [OF assms(5)] assms(3) by (simp add: nilAnnotationValue_def)
qed

end

interpretation deployment_kind: freeze_kind deploymentGrace freezeDeployment_change resumeDeployment_change
  by unfold_locales
    (auto simp: freezeDeployment_change_def resumeDeployment_change_def Let_def
      split: if_splits option.splits)

interpretation statefulSet_kind: freeze_kind statefulSetGrace freezeStatefulSet_change resumeStatefulSet_change
  by unfold_locales
    (auto simp: freezeStatefulSet_change_def resumeStatefulSet_change_def Let_def
      split: if_splits option.splits)

subsection \<open>The operations on a cluster\<close>

text \<open>
  A kind of workload with its store and its client calls. The lemmas are about the effectful
  functions on a cluster that nobody else writes to: what one call does to the stored object, what
  a loop of calls does to all of them, and that resuming undoes freezing.
\<close>

abbreviation server_defaulted :: "workload \<Rightarrow> bool" where
  "server_defaulted d \<equiv> Replicas d \<noteq> None \<and> TemplateGracePeriod d \<noteq> None"

lemma stored_id: "server_defaulted d \<Longrightarrow> stored_workload d = d"
  by (auto simp: stored_workload_def)

lemma stored_Annotations [simp]: "workload_Annotations (stored_workload d) = workload_Annotations d"
  by (simp add: stored_workload_def)

definition changed :: "(workload \<Rightarrow> workload option) \<Rightarrow> workload \<Rightarrow> workload" where
  "changed f x = (case f x of None \<Rightarrow> x | Some y \<Rightarrow> stored_workload y)"

definition count_annotation :: "workload \<Rightarrow> (num_error + int) option" where
  "count_annotation d = map_option Atoi (workload_Annotations d AnnotationOriginalReplicas)"

text \<open>
  A workload as users and the API server leave it: no annotation of the operator, defaults filled
  in, and numbers within the widths of the API's types.
\<close>

definition unfrozen_workload :: "workload \<Rightarrow> bool" where
  "unfrozen_workload d \<longleftrightarrow>
     unfrozen_marks d \<and>
     (\<exists>n. Replicas d = Some n \<and> int32_range n) \<and>
     (\<exists>g. TemplateGracePeriod d = Some g \<and> int64_range g)"

locale workload_kind =
  object_store obj put workload_key + freeze_kind grace freeze resume
  for obj :: "cluster \<Rightarrow> nsname \<rightharpoonup> workload"
    and put :: "(nsname \<rightharpoonup> workload) \<Rightarrow> cluster \<Rightarrow> cluster"
    and grace :: "policy option \<Rightarrow> int option"
    and freeze :: "policy option \<Rightarrow> workload \<Rightarrow> workload option"
    and resume :: "int \<Rightarrow> workload \<Rightarrow> workload option" +
  fixes getObj :: "'w api \<Rightarrow> nsname \<Rightarrow> ('w, err + workload) state"
    and patchObj :: "'w api \<Rightarrow> workload \<Rightarrow> workload \<Rightarrow> ('w, err option) state"
    and freezeObj :: "'w api \<Rightarrow> workload \<Rightarrow> policy option \<Rightarrow> ('w, err option) state"
    and resumeObj :: "'w api \<Rightarrow> workload \<Rightarrow> ('w, err option) state"
  assumes get_reads: "quiet_cluster a view \<Longrightarrow> reads view (getObj a k) (\<lambda>c. found (obj c k))"
    and patch_writes: "quiet_cluster a view \<Longrightarrow>
      writes view (patchObj a d base) (\<lambda>c. obj c (workload_key d) = Some base)
        (\<lambda>c. put ((obj c)(workload_key d \<mapsto> stored_workload d)) c)"
    and quiet_key: "quiet_cluster a view \<Longrightarrow> obj (view w) k = Some d \<Longrightarrow> workload_key d = k"
    and freezeObj_eq: "freezeObj a d p =
      getModifyWrite a (getObj a (workload_key d)) (freeze p) (patchObj a)"
    and resumeObj_eq: "resumeObj a d =
      (case workload_Annotations d AnnotationOriginalReplicas of
         None \<Rightarrow> return None
       | Some s \<Rightarrow>
           (case Atoi s of
              Inl e \<Rightarrow> return (Some (NumError e s))
            | Inr n \<Rightarrow> getModifyWrite a (getObj a (workload_key d)) (resume n) (patchObj a)))"
begin

lemma block_acts:
  assumes "quiet_cluster a view"
    and key: "\<And>y. change d = Some y \<Longrightarrow> workload_key y = workload_key d"
  shows "acts view (changed change) d
      (getModifyWrite a (getObj a (workload_key d)) change (patchObj a))"
    and "succeeds view d (getModifyWrite a (getObj a (workload_key d)) change (patchObj a))"
proof -
  have wr: "writes view (patchObj a y d) (\<lambda>c. obj c (workload_key d) = Some d)
      (\<lambda>c. put ((obj c)(workload_key d \<mapsto> changed change d)) c)" if "change d = Some y" for y
    using patch_writes [OF assms(1), of y d] that key [OF that] by (simp add: changed_def)
  have skip: "changed change d = d" if "change d = None"
    using that by (simp add: changed_def)
  show "acts view (changed change) d
      (getModifyWrite a (getObj a (workload_key d)) change (patchObj a))"
    and "succeeds view d (getModifyWrite a (getObj a (workload_key d)) change (patchObj a))"
    using getModifyWrite_acts [where g = "changed change" and write' = "patchObj a" and change = change,
        OF quiet_retry [OF assms(1)] get_reads [OF assms(1)] wr skip] by blast+
qed

text \<open>Whatever the argument, a call touches nothing but the store of its kind.\<close>

lemma block_frame:
  assumes "quiet_cluster a view"
    and key: "\<And>x y. change x = Some y \<Longrightarrow> workload_key y = workload_key x"
  shows "\<exists>m. view (final (getModifyWrite a (getObj a k) change (patchObj a)) w) = put m (view w)"
proof (cases "obj (view w) k")
  case None
  then show ?thesis
    using getModifyWrite_missing(2) [where obj = "\<lambda>c. obj c k", OF quiet_retry [OF assms(1)] get_reads [OF assms(1)] None]
    by (metis put_obj)
next
  case (Some x)
  note get = get_reads [OF assms(1), of k]
  show ?thesis
  proof (cases "change x")
    case None
    then show ?thesis
      using getModifyWrite_skip(2) [where obj = "\<lambda>c. obj c k" and change = change, OF quiet_retry [OF assms(1)] get Some None]
      by (metis put_obj)
  next
    case (Some y)
    have "workload_key y = k"
      using key [OF Some] quiet_key [OF assms(1) \<open>obj (view w) k = Some x\<close>] by simp
    then have "writes view (patchObj a y x) (\<lambda>c. obj c k = Some x)
        (\<lambda>c. put ((obj c)(k \<mapsto> stored_workload y)) c)"
      using patch_writes [OF assms(1), of y x] by simp
    from getModifyWrite_ok(2) [where obj = "\<lambda>c. obj c k" and put = "patchObj a" and change = change,
        OF quiet_retry [OF assms(1)] get \<open>obj (view w) k = Some x\<close> Some this]
    show ?thesis by blast
  qed
qed

lemma freeze_only:
  "quiet_cluster a view \<Longrightarrow> \<exists>m. view (final (freezeObj a d p) w) = put m (view w)"
  unfolding freezeObj_eq by (rule block_frame) (auto dest: freeze_key)

lemma resume_only:
  "quiet_cluster a view \<Longrightarrow> \<exists>m. view (final (resumeObj a d) w) = put m (view w)"
  unfolding resumeObj_eq using block_frame [of a view "resume _", OF _ resume_key]
  by (auto split: option.split sum.split intro: exI [of _ "obj (view w)"] simp: put_obj)

text \<open>What a call makes of the stored workload.\<close>

definition frozen :: "policy option \<Rightarrow> workload \<Rightarrow> workload" where
  "frozen p = changed (freeze p)"

definition resumed :: "workload \<Rightarrow> workload" where
  "resumed d = (case count_annotation d of
     None \<Rightarrow> d | Some (Inl _) \<Rightarrow> d | Some (Inr n) \<Rightarrow> changed (resume n) d)"

lemma freeze_acts:
  assumes "quiet_cluster a view"
  shows "acts view (frozen p) d (freezeObj a d p)" and "succeeds view d (freezeObj a d p)"
  unfolding freezeObj_eq frozen_def
  using block_acts [where change = "freeze p", OF assms freeze_key [of p]] by blast+

lemma resume_acts:
  assumes "quiet_cluster a view"
  shows "acts view resumed d (resumeObj a d)"
    and "(\<And>e. count_annotation d \<noteq> Some (Inl e)) \<Longrightarrow> succeeds view d (resumeObj a d)"
proof -
  have "acts view resumed d (resumeObj a d) \<and>
      ((\<forall>e. count_annotation d \<noteq> Some (Inl e)) \<longrightarrow> succeeds view d (resumeObj a d))"
  proof (cases "count_annotation d")
    case None
    then show ?thesis
      by (auto simp: acts_def succeeds_def resumeObj_eq resumed_def count_annotation_def
          map_upd_triv put_obj)
  next
    case (Some r)
    then obtain s where s: "workload_Annotations d AnnotationOriginalReplicas = Some s" "Atoi s = r"
      by (auto simp: count_annotation_def)
    show ?thesis
    proof (cases r)
      case (Inl e)
      then show ?thesis
        using s Some by (auto simp: acts_def resumeObj_eq resumed_def map_upd_triv put_obj)
    next
      case (Inr n)
      have "acts view resumed d m = acts view (changed (resume n)) d m"
        for m :: "('w, err option) state"
        using Some Inr by (simp add: acts_def resumed_def)
      then show ?thesis
        using block_acts [where change = "resume n", OF assms resume_key [of n]] s Inr
        by (simp add: resumeObj_eq)
    qed
  qed
  then show "acts view resumed d (resumeObj a d)"
    and "(\<And>e. count_annotation d \<noteq> Some (Inl e)) \<Longrightarrow> succeeds view d (resumeObj a d)"
    by blast+
qed

text \<open>The loops over the listed workloads.\<close>

lemma freeze_loop:
  assumes "quiet_cluster a view" and "listed (view w) ds"
  shows "result (for_until_error ds (\<lambda>d. freezeObj a d p)) w = None"
    and "view (final (for_until_error ds (\<lambda>d. freezeObj a d p)) w) =
      put (on_keys (frozen p) (workload_key ` set ds) (obj (view w))) (view w)"
    and "view (final (for_each ds (\<lambda>d. freezeObj a d p)) w) =
      put (on_keys (frozen p) (workload_key ` set ds) (obj (view w))) (view w)"
  using for_until_error_succeeds [of ds view "frozen p" "\<lambda>d. freezeObj a d p" w]
    for_until_error_pointwise [of ds view "frozen p" "\<lambda>d. freezeObj a d p" w]
    for_each_pointwise [of ds view "frozen p" "\<lambda>d. freezeObj a d p" w]
    freeze_acts [OF assms(1)] assms(2) by blast+

lemma resume_loop:
  assumes "quiet_cluster a view" and "listed (view w) ds"
  shows "view (final (for_each ds (resumeObj a)) w) =
      put (on_keys resumed (workload_key ` set ds) (obj (view w))) (view w)"
    and "(\<And>d e. d \<in> set ds \<Longrightarrow> count_annotation d \<noteq> Some (Inl e)) \<Longrightarrow>
      result (for_until_error ds (resumeObj a)) w = None \<and>
      view (final (for_until_error ds (resumeObj a)) w) =
        put (on_keys resumed (workload_key ` set ds) (obj (view w))) (view w)"
  using for_until_error_succeeds [of ds view resumed "resumeObj a" w]
    for_until_error_pointwise [of ds view resumed "resumeObj a" w]
    for_each_pointwise [of ds view resumed "resumeObj a" w]
    resume_acts [OF assms(1)] assms(2) by blast+

text \<open>Resuming undoes freezing.\<close>

lemma frozen_key [simp]: "workload_key (frozen p d) = workload_key d"
  by (auto simp: frozen_def changed_def stored_workload_def freeze_key split: option.splits)

lemma resumed_key [simp]: "workload_key (resumed d) = workload_key d"
  by (auto simp: resumed_def changed_def stored_workload_def resume_key split: option.splits sum.splits)

lemma frozen_scaled: "Replicas (frozen p d) = Some 0"
  using freeze_skip [of p d] freeze_zero [of p d]
  by (auto simp: frozen_def changed_def stored_workload_def split: option.splits)

lemma frozen_idem: "frozen p (frozen p d) = frozen p d"
  using freeze_skip [of p "frozen p d"] frozen_scaled [of p d]
  by (simp add: frozen_def changed_def)

lemma resumed_frozen:
  assumes "unfrozen_workload d"
  shows "resumed (frozen p d) = d"
proof (cases "Replicas d = Some 0")
  case True
  then have "frozen p d = d" using freeze_skip [of p d] by (simp add: frozen_def changed_def)
  then show ?thesis
    using assms by (simp add: resumed_def count_annotation_def unfrozen_workload_def)
next
  case False
  then obtain e where e: "freeze p d = Some e" using freeze_unless_zero by blast
  obtain n g where n: "Replicas d = Some n" "int32_range n"
    and g: "TemplateGracePeriod d = Some g" "int64_range g" and m: "unfrozen_marks d"
    using assms unfolding unfrozen_workload_def by blast
  have fe: "frozen p d = e"
    using stored_id [of e] freeze_zero [OF e] freeze_grace [OF e] g(1)
    by (auto simp: frozen_def changed_def e split: option.splits)
  have "count_annotation e = Some (Inr n)"
    using freeze_count [OF e] n by (simp add: count_annotation_def)
  moreover have "resume n e = Some d"
    using freeze_resume [OF e m n] g by simp
  moreover have "stored_workload d = d"
    using n(1) g(1) by (simp add: stored_id)
  ultimately show ?thesis by (simp add: fe resumed_def changed_def)
qed

lemma frozen_count:
  assumes "unfrozen_workload d"
  shows "count_annotation (frozen p d) \<noteq> Some (Inl e)"
proof (cases "freeze p d")
  case None
  then show ?thesis
    using assms by (simp add: frozen_def changed_def count_annotation_def unfrozen_workload_def)
next
  case (Some f)
  then show ?thesis
    using freeze_count [OF Some] assms
    by (auto simp: frozen_def changed_def count_annotation_def unfrozen_workload_def)
qed

lemma freeze_resume_cluster:
  assumes "quiet_cluster a view"
    and d: "obj (view w) (workload_key d) = Some d" and "unfrozen_workload d"
  shows "\<exists>d'. obj (view (final (freezeObj a d p) w)) (workload_key d) = Some d' \<and>
    Replicas d' = Some 0 \<and>
    result (resumeObj a d') (final (freezeObj a d p) w) = None \<and>
    view (final (resumeObj a d') (final (freezeObj a d p) w)) = view w"
proof -
  have v: "view (final (freezeObj a d p) w) =
      put ((obj (view w))(workload_key d \<mapsto> frozen p d)) (view w)"
    using freeze_acts(1) [OF assms(1), of p d] d by (simp add: acts_def)
  then have o: "obj (view (final (freezeObj a d p) w)) (workload_key d) = Some (frozen p d)"
    by (simp add: obj_put)
  have "view (final (resumeObj a (frozen p d)) (final (freezeObj a d p) w)) =
      put ((obj (view w))(workload_key d \<mapsto> d)) (view w)"
    using resume_acts(1) [OF assms(1), of "frozen p d"] o resumed_frozen [OF assms(3), of p]
    by (simp add: acts_def v obj_put put_put)
  moreover have "result (resumeObj a (frozen p d)) (final (freezeObj a d p) w) = None"
    using resume_acts(2) [OF assms(1) frozen_count [OF assms(3)], of p] o by (simp add: succeeds_def)
  ultimately show ?thesis
    using o d frozen_scaled [of p d] by (simp add: map_upd_triv put_obj)
qed

end

interpretation deployment_ops: workload_kind
  cDeployments "\<lambda>m. cDeployments_update (\<lambda>_. m)" deploymentGrace freezeDeployment_change
  resumeDeployment_change GetDeployment PatchDeployment freezeDeployment resumeDeployment
  by unfold_locales
    (simp_all add: quiet_readD quiet_writeD quiet_keyed freezeDeployment_def resumeDeployment_def)

interpretation statefulSet_ops: workload_kind
  cStatefulSets "\<lambda>m. cStatefulSets_update (\<lambda>_. m)" statefulSetGrace freezeStatefulSet_change
  resumeStatefulSet_change GetStatefulSet PatchStatefulSet freezeStatefulSet resumeStatefulSet
  by unfold_locales
    (simp_all add: quiet_readD quiet_writeD quiet_keyed freezeStatefulSet_def resumeStatefulSet_def)

subsection \<open>Properties\<close>

text \<open>
  Freezing a Deployment and resuming what the API server then stores gives back the cluster
  as it was: replica count, grace period, annotations and every other object. In between the
  Deployment has no replicas.
\<close>

theorem freeze_resume_Deployment:
  assumes "quiet_cluster a view"
    and "cDeployments (view w) (workload_key d) = Some d" and "unfrozen_workload d"
  shows "\<exists>d'. cDeployments (view (final (freezeDeployment a d p) w)) (workload_key d) = Some d' \<and>
    Replicas d' = Some 0 \<and>
    result (resumeDeployment a d') (final (freezeDeployment a d p) w) = None \<and>
    view (final (resumeDeployment a d') (final (freezeDeployment a d p) w)) = view w"
  using assms by (rule deployment_ops.freeze_resume_cluster)

theorem freeze_resume_Deployment_witness:
  "\<exists>d'. cDeployments (mem_view (final (freezeDeployment mem_api (sample_workload ''web'' 3)
      (Some (sample_policy ''p''))) sample_mem)) (''shop'', ''web'') = Some d' \<and> Replicas d' = Some 0 \<and>
    result (resumeDeployment mem_api d') (final (freezeDeployment mem_api (sample_workload ''web'' 3)
      (Some (sample_policy ''p''))) sample_mem) = None \<and>
    mem_view (final (resumeDeployment mem_api d') (final (freezeDeployment mem_api (sample_workload ''web'' 3)
      (Some (sample_policy ''p''))) sample_mem)) = mem_view sample_mem"
  using freeze_resume_Deployment [OF mem_quiet, of sample_mem "sample_workload ''web'' 3" "Some (sample_policy ''p'')"]
  by (simp add: sample_defs key_defs unfrozen_workload_def mem_view_def lookup_key_def by_key_def)

text \<open>
  The same round trip for a StatefulSet.
\<close>

theorem freeze_resume_StatefulSet:
  assumes "quiet_cluster a view"
    and "cStatefulSets (view w) (workload_key d) = Some d" and "unfrozen_workload d"
  shows "\<exists>d'. cStatefulSets (view (final (freezeStatefulSet a d p) w)) (workload_key d) = Some d' \<and>
    Replicas d' = Some 0 \<and>
    result (resumeStatefulSet a d') (final (freezeStatefulSet a d p) w) = None \<and>
    view (final (resumeStatefulSet a d') (final (freezeStatefulSet a d p) w)) = view w"
  using assms by (rule statefulSet_ops.freeze_resume_cluster)

theorem freeze_resume_StatefulSet_witness:
  "\<exists>d'. cStatefulSets (mem_view (final (freezeStatefulSet mem_api (sample_workload ''db'' 2)
      (Some (sample_policy ''p''))) sample_mem)) (''shop'', ''db'') = Some d' \<and> Replicas d' = Some 0 \<and>
    result (resumeStatefulSet mem_api d') (final (freezeStatefulSet mem_api (sample_workload ''db'' 2)
      (Some (sample_policy ''p''))) sample_mem) = None \<and>
    mem_view (final (resumeStatefulSet mem_api d') (final (freezeStatefulSet mem_api (sample_workload ''db'' 2)
      (Some (sample_policy ''p''))) sample_mem)) = mem_view sample_mem"
  using freeze_resume_StatefulSet [OF mem_quiet, of sample_mem "sample_workload ''db'' 2" "Some (sample_policy ''p'')"]
  by (simp add: sample_defs key_defs unfrozen_workload_def mem_view_def lookup_key_def by_key_def)

text \<open>
  Resuming a workload whose \<open>original-replicas\<close> annotation is not a 64-bit decimal number
  returns the parse error and calls the client for nothing, whatever the client is.
\<close>

theorem resume_malformed_count:
  assumes "workload_Annotations d AnnotationOriginalReplicas = Some s" and "Atoi s = Inl e"
  shows "run_state (resumeDeployment a d) w = (Some (NumError e s), w) \<and>
    run_state (resumeStatefulSet a d) w = (Some (NumError e s), w)"
  using assms by (simp add: resumeDeployment_def resumeStatefulSet_def)

theorem resume_malformed_count_witness:
  "run_state (resumeDeployment mem_api (set_Annotations [AnnotationOriginalReplicas \<mapsto> ''3x'']
      (sample_workload ''web'' 0))) sample_mem = (Some (NumError ErrSyntax ''3x''), sample_mem)"
  using resume_malformed_count [of "set_Annotations [AnnotationOriginalReplicas \<mapsto> ''3x'']
      (sample_workload ''web'' 0)" "''3x''" ErrSyntax mem_api sample_mem]
  by (simp add: sample_defs ParseInt_def ParseUint_def digit_val_def)



text \<open>
  C40: a Deployment that was frozen with an override of the grace period, scaled up by hand and
  frozen again is resumed with the override as its grace period, not with its own.
\<close>

theorem refreeze_keeps_override:
  assumes "freezeDeployment_change p d = Some d1" and "deploymentGrace p = Some g" and "int64_range g"
    and "freezeDeployment_change p (d1\<lparr>Replicas := Some m\<rparr>) = Some d2"
    and "resumeDeployment_change m d2 = Some d3"
  shows "TemplateGracePeriod d3 = Some g"
  using assms by (rule deployment_kind.refreeze_grace)

theorem refreeze_keeps_override_witness:
  "\<exists>d1 d2 d3. freezeDeployment_change (Some (sample_policy ''p'')) (sample_workload ''web'' 3) = Some d1 \<and>
     freezeDeployment_change (Some (sample_policy ''p'')) (d1\<lparr>Replicas := Some 2\<rparr>) = Some d2 \<and>
     resumeDeployment_change 2 d2 = Some d3 \<and>
     TemplateGracePeriod (sample_workload ''web'' 3) = Some 45 \<and> TemplateGracePeriod d3 = Some 5"
proof -
  let ?p = "Some (sample_policy ''p'')"
  obtain d1 where d1: "freezeDeployment_change ?p (sample_workload ''web'' 3) = Some d1"
    using deployment_kind.freeze_unless_zero [of "sample_workload ''web'' 3" ?p]
    by (auto simp: sample_defs)
  obtain d2 where d2: "freezeDeployment_change ?p (d1\<lparr>Replicas := Some 2\<rparr>) = Some d2"
    using deployment_kind.freeze_unless_zero [of "d1\<lparr>Replicas := Some 2\<rparr>" ?p] by auto
  obtain d3 where d3: "resumeDeployment_change 2 d2 = Some d3"
    using deployment_kind.resume_skip [of 2 d2] deployment_kind.freeze_count [OF d2] by auto
  have "deploymentGrace ?p = Some 5"
    by (simp add: deploymentGrace_def sample_defs)
  from refreeze_keeps_override [OF d1 this _ d2 d3] d1 d2 d3 show ?thesis
    by (auto simp: sample_defs)
qed

end
