(* ===== verification/Throttling.thy ===== *)
theory Throttling
  imports Signals Workloads
begin

text \<open>
  The adaptive resume of \<open>src/internal/controller/adaptive_throttling.go\<close> and
  \<open>adaptive_throttling_helper.go\<close>: batch sizes and waits computed from signals, the check for a
  manual override, the wait for a signal to clear, and the batch loop
  \<open>resumeWithAdaptiveThrottling\<close>. The loop may wait for nodes without end, so it and the wait take
  fuel, one unit per pass; a run that uses it up has the value \<open>None\<close>. The main lemma shows that
  fuel for one pass per workload suffices when nothing disturbs the resume.
\<close>

subsection \<open>Batch sizes and waits\<close>

definition min32 :: "int \<Rightarrow> int \<Rightarrow> int" where
  "min32 x y = (if x < y then x else y)"

definition orDefault :: "int \<Rightarrow> int \<Rightarrow> int" where
  "orDefault v dflt = (if v = 0 then dflt else v)"

text \<open>
  The block repeated for each kind of signal: a percentage of a base size in 32-bit arithmetic,
  not below the minimum.
\<close>

definition slowedDown :: "int \<Rightarrow> int \<Rightarrow> int \<Rightarrow> int" where
  "slowedDown base slowdownPercent minBatchSize =
     (let newSize = i32 (base * slowdownPercent) sdiv 100
      in if newSize < minBatchSize then minBatchSize else newSize)"

text \<open>
  \<open>config.SignalChecks\<close> is dereferenced only when a signal is present, and \<open>collectSignals\<close>
  returns none without it; the model reads a missing value as having no check configured.
\<close>

definition activeCheck ::
    "signal list \<Rightarrow> adaptiveThrottlingConfig \<Rightarrow> SignalType \<Rightarrow> (signalChecksConfig \<Rightarrow> 'c option) \<Rightarrow> 'c option" where
  "activeCheck signals config ty f =
     (if hasSignal signals ty then Option.bind (SignalChecks config) f else None)"

definition calculateBatchSize :: "signal list \<Rightarrow> adaptiveThrottlingConfig \<Rightarrow> int \<Rightarrow> int" where
  "calculateBatchSize signals config currentBatchSize =
     (let initialBatchSize = orDefault (InitialBatchSize config) 3;
          minBatchSize = orDefault (MinBatchSize config) 1
      in case activeCheck signals config SignalNodePressure CheckNodePressure of
           Some c \<Rightarrow> slowedDown initialBatchSize (orDefault (pressure_SlowdownPercent c) 50) minBatchSize
         | None \<Rightarrow>
        (case activeCheck signals config SignalNodeUsage CheckNodeUsage of
           Some c \<Rightarrow> slowedDown initialBatchSize (orDefault (usage_SlowdownPercent c) 60) minBatchSize
         | None \<Rightarrow>
        (case activeCheck signals config SignalContainerRestarts CheckContainerRestarts of
           Some c \<Rightarrow> slowedDown initialBatchSize (orDefault (restarts_SlowdownPercent c) 50) minBatchSize
         | None \<Rightarrow>
        (case activeCheck signals config SignalPendingPods CheckPendingPods of
           Some c \<Rightarrow> slowedDown currentBatchSize (orDefault (pending_SlowdownPercent c) 70) minBatchSize
         | None \<Rightarrow>
             if currentBatchSize < initialBatchSize
             then min32 (i32 (currentBatchSize + 1)) initialBatchSize
             else currentBatchSize))))"

definition calculateWaitDuration :: "signal list \<Rightarrow> int \<Rightarrow> duration" where
  "calculateWaitDuration signals baseDuration =
     (let d0 = i64 (baseDuration * Second);
          d1 = (if hasSignal signals SignalNodePressure then i64 (d0 * 2) else d0);
          d2 = (if hasSignal signals SignalPendingPods then i64 (d1 * 3) sdiv 2 else d1)
      in if hasSignal signals SignalContainerRestarts then i64 (d2 * 2) else d2)"

fun signalTypesLoop :: "signal list \<Rightarrow> SignalType list \<Rightarrow> SignalType list" where
  "signalTypesLoop [] types = types"
| "signalTypesLoop (s # rest) types =
     signalTypesLoop rest (if signal_Type s \<in> set types then types else types @ [signal_Type s])"

definition getSignalTypes :: "signal list \<Rightarrow> SignalType list" where
  "getSignalTypes signals = signalTypesLoop signals []"

subsection \<open>Manual override\<close>

definition overrideDecision :: "policy \<Rightarrow> bool \<Rightarrow> policy \<Rightarrow> bool" where
  "overrideDecision policy isStartupOperation latestPolicy =
     (let opId = OperationId (Spec latestPolicy);
          handled = LastHandledOperationId (Status latestPolicy);
          isManualPending = (opId \<noteq> '''' \<and> handled \<noteq> opId);
          isManualPending = (if isStartupOperation \<and> handled = '''' then False else isManualPending);
          shouldAbort =
            (if isManualPending then
               (if isStartupOperation then opId \<noteq> OperationId (Spec policy)
                else opId \<noteq> OperationId (Spec policy))
             else False)
      in if \<not> isStartupOperation \<and> Action (Spec latestPolicy) = LifecycleActionFreeze \<and> \<not> shouldAbort
         then True else shouldAbort)"

definition checkManualOverride :: "'w api \<Rightarrow> policy \<Rightarrow> bool \<Rightarrow> ('w, err + bool) state" where
  "checkManualOverride a policy isStartupOperation = do {
     r \<leftarrow> GetPolicy a (policy_key policy);
     return (case r of
        Inl e \<Rightarrow> Inl (Wrapf ''failed to re-fetch policy'' e)
      | Inr latestPolicy \<Rightarrow> Inr (overrideDecision policy isStartupOperation latestPolicy))
   }"

subsection \<open>Progress\<close>

definition adaptiveProgress ::
    "int \<Rightarrow> int \<Rightarrow> int \<Rightarrow> signal list \<Rightarrow> time \<Rightarrow> string \<Rightarrow> adaptiveProgressStatus" where
  "adaptiveProgress resumed totalCount batchSize signals checkTime message = \<lparr>
     TotalWorkloads = totalCount, ResumedWorkloads = resumed, CurrentBatchSize = batchSize,
     ActiveSignals = signals, LastCheckTime = Some checkTime, progress_Message = message\<rparr>"

definition updateAdaptiveProgress ::
    "'w api \<Rightarrow> policy \<Rightarrow> int \<Rightarrow> int \<Rightarrow> int \<Rightarrow> signal list \<Rightarrow> time \<Rightarrow> string \<Rightarrow> ('w, err option) state" where
  "updateAdaptiveProgress a policy resumed totalCount batchSize signals checkTime message =
     patchStatus a (policy_key policy) (\<lambda>latestPolicy. (Status latestPolicy)
       \<lparr>AdaptiveProgress := Some (adaptiveProgress resumed totalCount batchSize signals checkTime message),
        Phase := PhaseResuming, Message := message\<rparr>)"

definition allResumedMessage :: "int \<Rightarrow> string" where
  "allResumedMessage totalCount =
     ''All workloads resumed successfully ('' @ Itoa totalCount @ ''/'' @ Itoa totalCount @ '' completed)''"

definition finalAdaptiveProgress :: "'w api \<Rightarrow> policy \<Rightarrow> int \<Rightarrow> int \<Rightarrow> time \<Rightarrow> ('w, err option) state" where
  "finalAdaptiveProgress a policy totalCount batchSize finalCheckTime =
     patchStatus a (policy_key policy) (\<lambda>latestPolicy. (Status latestPolicy)
       \<lparr>AdaptiveProgress := Some (adaptiveProgress totalCount totalCount batchSize [] finalCheckTime (allResumedMessage totalCount)),
        Message := allResumedMessage totalCount,
        LastResumeAt := Some finalCheckTime\<rparr>)"

subsection \<open>Waiting for a signal to clear\<close>

text \<open>
  The two settings of the wait, and the loop around \<open>select\<close>. Fuel counts rounds of the loop; a
  run without enough of it is \<open>None\<close>.
\<close>

definition waitSettings :: "adaptiveThrottlingConfig \<Rightarrow> int \<times> int" where
  "waitSettings config =
     (case Option.bind (SignalChecks config) CheckNodeReady of
        None \<Rightarrow> (20, 1800)
      | Some c \<Rightarrow> (if 0 < WaitInterval c then WaitInterval c else 20,
                   if 0 < MaxWaitTime c then MaxWaitTime c else 1800))"

fun waitForSignalClearLoop ::
    "nat \<Rightarrow> 'w api \<Rightarrow> adaptiveThrottlingConfig \<Rightarrow> string \<Rightarrow> SignalType \<Rightarrow> time \<Rightarrow> ticker \<Rightarrow> duration \<Rightarrow>
     ('w sys, bool option) state" where
  "waitForSignalClearLoop 0 a config ns signalType startTime tk elapsed = return None"
| "waitForSignalClearLoop (Suc fuel) a config ns signalType startTime tk elapsed =
     (if \<not> elapsed < snd (waitSettings config) * Second then return (Some False)
      else do {
        (ev, tk) \<leftarrow> inWorld (selectTimers a tk None);
        (case ev of
           CtxDone e \<Rightarrow> return (Some False)
         | TimeoutFired \<Rightarrow>  \<comment> \<open>never: this \<open>select\<close> has no deadline\<close>
             waitForSignalClearLoop fuel a config ns signalType startTime tk elapsed
         | TickerFired \<Rightarrow> do {
             ((signals, metrics), err) \<leftarrow> collectSignals a (Some config) ns;
             if err \<noteq> None then return (Some (FallbackOnMetricsUnavailable config))
             else if \<not> hasSignal signals signalType then return (Some True)
             else do {
               now \<leftarrow> inWorld (Now a);
               waitForSignalClearLoop fuel a config ns signalType startTime tk (now - startTime)
             }
           })
      })"

definition waitForSignalClear ::
    "nat \<Rightarrow> 'w api \<Rightarrow> adaptiveThrottlingConfig \<Rightarrow> policy \<Rightarrow> SignalType \<Rightarrow> time \<Rightarrow>
     ('w sys, bool option) state" where
  "waitForSignalClear fuel a config policy signalType startTime = do {
     now \<leftarrow> inWorld (Now a);
     tk \<leftarrow> inWorld (NewTicker a (fst (waitSettings config) * Second));
     waitForSignalClearLoop fuel a config (TargetNamespace (Spec policy)) signalType startTime tk (now - startTime)
   }"

subsection \<open>The throttled resume\<close>

record workloadItem =
  IsDeployment :: bool
  item_Workload :: workload  \<comment> \<open>the pointer that \<open>IsDeployment\<close> selects\<close>
  item_Name :: string

definition deploymentItem :: "workload \<Rightarrow> workloadItem" where
  "deploymentItem d = \<lparr>IsDeployment = True, item_Workload = d, item_Name = Name (workload_Meta d)\<rparr>"

definition statefulSetItem :: "workload \<Rightarrow> workloadItem" where
  "statefulSetItem s = \<lparr>IsDeployment = False, item_Workload = s, item_Name = Name (workload_Meta s)\<rparr>"

definition overrideError :: err where
  "overrideError = Errorf ''operation aborted due to manual override''"

definition resumeItem :: "'w api \<Rightarrow> workloadItem \<Rightarrow> ('w, err option) state" where
  "resumeItem a item =
     (if IsDeployment item then do {
        e \<leftarrow> resumeDeployment a (item_Workload item);
        return (map_option (Wrapf (''failed to resume deployment '' @ item_Name item)) e)
      } else do {
        e \<leftarrow> resumeStatefulSet a (item_Workload item);
        return (map_option (Wrapf (''failed to resume statefulset '' @ item_Name item)) e)
      })"

text \<open>One batch; the result is the error that ends the function and the count of resumed items.\<close>

fun resumeBatch :: "'w api \<Rightarrow> policy \<Rightarrow> bool \<Rightarrow> workloadItem list \<Rightarrow> int \<Rightarrow> ('w, err option \<times> int) state" where
  "resumeBatch a policy isStartupOperation [] resumedCount = return (None, resumedCount)"
| "resumeBatch a policy isStartupOperation (item # batch) resumedCount = do {
     shouldAbort \<leftarrow> checkManualOverride a policy isStartupOperation;
     if shouldAbort = Inr True then return (Some overrideError, resumedCount)
     else do {
       e \<leftarrow> resumeItem a item;
       (case e of
          Some err \<Rightarrow> return (Some err, resumedCount)
        | None \<Rightarrow> resumeBatch a policy isStartupOperation batch (i32 (resumedCount + 1)))
     }
   }"

text \<open>The outcome of one pass through the loop body.\<close>

datatype pass =
    PassReturn "err option"   \<comment> \<open>the function returns\<close>
  | PassNext int int          \<comment> \<open>\<open>resumedCount\<close> and \<open>currentBatchSize\<close> of the next pass\<close>
  | PassNoFuel

definition clip :: "int \<Rightarrow> int \<Rightarrow> int" where
  "clip batchEnd totalCount = (if totalCount < batchEnd then totalCount else batchEnd)"

definition batchMessage :: "int \<Rightarrow> int \<Rightarrow> int \<Rightarrow> string" where
  "batchMessage batchLen resumedCount totalCount =
     ''Resuming batch (batch size: '' @ Itoa batchLen @ '', '' @ Itoa resumedCount @ ''/'' @
     Itoa totalCount @ '' completed)''"

definition adaptiveBatch ::
    "'w api \<Rightarrow> policy \<Rightarrow> adaptiveThrottlingConfig \<Rightarrow> bool \<Rightarrow> workloadItem list \<Rightarrow> signal list \<Rightarrow> time \<Rightarrow>
     int \<Rightarrow> int \<Rightarrow> ('w sys, pass) state" where
  "adaptiveBatch a policy config isStartupOperation allWorkloads signals now resumedCount previousBatchSize =
     (let totalCount = i32 (int (length allWorkloads));
          currentBatchSize = calculateBatchSize signals config previousBatchSize;
          batchEnd = clip (i32 (resumedCount + currentBatchSize)) totalCount;
          batch = take (nat (batchEnd - resumedCount)) (drop (nat resumedCount) allWorkloads)
      in if batchEnd < resumedCount then return (PassReturn (Some (Panic ''slice bounds out of range'')))
         else inWorld (do {
           _ \<leftarrow> updateAdaptiveProgress a policy resumedCount totalCount currentBatchSize signals now
             (batchMessage (int (length batch)) resumedCount totalCount);
           (e, n) \<leftarrow> resumeBatch a policy isStartupOperation batch resumedCount;
           (case e of
              Some err \<Rightarrow> return (PassReturn (Some err))
            | None \<Rightarrow>
                if n < totalCount then do {
                  _ \<leftarrow> Sleep a (calculateWaitDuration signals (orDefault (BatchInterval config) 5));
                  return (PassNext n currentBatchSize)
                } else return (PassNext n currentBatchSize))
         }))"

definition adaptivePass ::
    "nat \<Rightarrow> 'w api \<Rightarrow> policy \<Rightarrow> adaptiveThrottlingConfig \<Rightarrow> bool \<Rightarrow> workloadItem list \<Rightarrow> time \<Rightarrow>
     int \<Rightarrow> int \<Rightarrow> ('w sys, pass) state" where
  "adaptivePass fuel a policy config isStartupOperation allWorkloads startTime resumedCount currentBatchSize = do {
     shouldAbort \<leftarrow> inWorld (checkManualOverride a policy isStartupOperation);
     if shouldAbort = Inr True then return (PassReturn (Some overrideError))
     else do {
       ((collected, metrics), err) \<leftarrow> collectSignals a (Some config) (TargetNamespace (Spec policy));
       usable \<leftarrow> (case err of
          None \<Rightarrow> return (Inr collected)
        | Some e \<Rightarrow> do {
            c \<leftarrow> inWorld (CtxErr a);
            return (case c of
               Some ce \<Rightarrow> Inl ce
             | None \<Rightarrow> if FallbackOnMetricsUnavailable config then Inr []
                       else Inl (Wrapf ''failed to collect signals'' e))
          });
       (case usable of
          Inl e \<Rightarrow> return (PassReturn (Some e))
        | Inr signals \<Rightarrow> do {
            c \<leftarrow> inWorld (CtxErr a);
            (case c of
               Some ce \<Rightarrow> return (PassReturn (Some ce))
             | None \<Rightarrow> do {
                 now \<leftarrow> inWorld (Now a);
                 if hasSignal signals SignalNodeNotReady then do {
                   _ \<leftarrow> inWorld (updateAdaptiveProgress a policy resumedCount (i32 (int (length allWorkloads)))
                     currentBatchSize signals now ''Paused - waiting for nodes to become ready'');
                   cleared \<leftarrow> waitForSignalClear fuel a config policy SignalNodeNotReady startTime;
                   return (case cleared of
                      None \<Rightarrow> PassNoFuel
                    | Some True \<Rightarrow> PassNext resumedCount currentBatchSize
                    | Some False \<Rightarrow>
                        PassReturn (Some (Errorf ''timeout waiting for nodes to become ready'')))
                 }
                 else adaptiveBatch a policy config isStartupOperation allWorkloads signals now
                        resumedCount currentBatchSize
               })
          })
     }
   }"

fun adaptiveLoop ::
    "nat \<Rightarrow> 'w api \<Rightarrow> policy \<Rightarrow> adaptiveThrottlingConfig \<Rightarrow> bool \<Rightarrow> workloadItem list \<Rightarrow> time \<Rightarrow>
     int \<Rightarrow> int \<Rightarrow> ('w sys, (err option + int) option) state" where
  "adaptiveLoop 0 a policy config isStartupOperation allWorkloads startTime resumedCount currentBatchSize =
     return None"
| "adaptiveLoop (Suc fuel) a policy config isStartupOperation allWorkloads startTime resumedCount currentBatchSize =
     (if \<not> resumedCount < i32 (int (length allWorkloads)) then return (Some (Inr currentBatchSize))
      else do {
        p \<leftarrow> adaptivePass fuel a policy config isStartupOperation allWorkloads startTime resumedCount currentBatchSize;
        (case p of
           PassReturn e \<Rightarrow> return (Some (Inl e))
         | PassNext n b \<Rightarrow> adaptiveLoop fuel a policy config isStartupOperation allWorkloads startTime n b
         | PassNoFuel \<Rightarrow> return None)
      })"

definition resumeWithAdaptiveThrottling ::
    "nat \<Rightarrow> 'w api \<Rightarrow> policy \<Rightarrow> workload list \<Rightarrow> workload list \<Rightarrow> bool \<Rightarrow>
     ('w sys, err option option) state" where
  "resumeWithAdaptiveThrottling fuel a policy deployments statefulSets isStartupOperation =
     (let allWorkloads = map deploymentItem deployments @ map statefulSetItem statefulSets;
          totalCount = i32 (int (length allWorkloads))
      in if totalCount = 0 then return (Some None)
         else case AdaptiveThrottling (Spec policy) of
           None \<Rightarrow> return (Some (Some (Panic ''invalid memory address or nil pointer dereference'')))
         | Some config \<Rightarrow> do {
             startTime \<leftarrow> inWorld (Now a);
             r \<leftarrow> adaptiveLoop fuel a policy config isStartupOperation allWorkloads startTime 0
                    (orDefault (InitialBatchSize config) 3);
             (case r of
                None \<Rightarrow> return None
              | Some (Inl e) \<Rightarrow> return (Some e)
              | Some (Inr batchSize) \<Rightarrow> inWorld (do {
                  finalCheckTime \<leftarrow> Now a;
                  _ \<leftarrow> finalAdaptiveProgress a policy totalCount batchSize finalCheckTime;
                  return (Some None)
                }))
           })"

subsection \<open>Batch sizes\<close>

text \<open>The bounds that the CRD's validation puts on the numbers used here (0 is an unset field).\<close>

definition valid_throttling :: "adaptiveThrottlingConfig \<Rightarrow> bool" where
  "valid_throttling c \<longleftrightarrow>
     0 \<le> InitialBatchSize c \<and> InitialBatchSize c \<le> 20 \<and> 0 \<le> MinBatchSize c \<and>
     0 \<le> BatchInterval c \<and> BatchInterval c \<le> 60 \<and>
     (\<forall>s. SignalChecks c = Some s \<longrightarrow>
        (\<forall>k. CheckNodePressure s = Some k \<longrightarrow> 0 \<le> pressure_SlowdownPercent k \<and> pressure_SlowdownPercent k \<le> 100) \<and>
        (\<forall>k. CheckNodeUsage s = Some k \<longrightarrow> 0 \<le> usage_SlowdownPercent k \<and> usage_SlowdownPercent k \<le> 100) \<and>
        (\<forall>k. CheckContainerRestarts s = Some k \<longrightarrow> 0 \<le> restarts_SlowdownPercent k \<and> restarts_SlowdownPercent k \<le> 100) \<and>
        (\<forall>k. CheckPendingPods s = Some k \<longrightarrow> 0 \<le> pending_SlowdownPercent k \<and> pending_SlowdownPercent k \<le> 100))"

abbreviation initialSize :: "adaptiveThrottlingConfig \<Rightarrow> int" where
  "initialSize c \<equiv> orDefault (InitialBatchSize c) 3"

abbreviation minSize :: "adaptiveThrottlingConfig \<Rightarrow> int" where
  "minSize c \<equiv> orDefault (MinBatchSize c) 1"

lemma slowedDown_bounds:
  assumes "1 \<le> base" and "base \<le> 21000000" and "0 \<le> p" and "p \<le> 100" and "1 \<le> m"
  shows "m \<le> slowedDown base p m" and "slowedDown base p m \<le> max base m"
proof -
  have "0 \<le> base * p" "base * p \<le> base * 100"
    using assms by (auto intro: mult_left_mono)
  moreover have "base * 100 < 2 ^ 31" using assms(2) by simp
  ultimately have "i32 (base * p) = base * p" "(base * p) sdiv 100 = base * p div 100"
    and "base * p div 100 \<le> base"
    by (simp_all add: sdiv_nonneg)
  then show "m \<le> slowedDown base p m" and "slowedDown base p m \<le> max base m"
    by (auto simp: slowedDown_def Let_def)
qed


lemma activeCheck_Some:
  "activeCheck sigs c ty f = Some k \<Longrightarrow> hasSignal sigs ty \<and> (\<exists>s. SignalChecks c = Some s \<and> f s = Some k)"
  by (auto simp: activeCheck_def bind_eq_Some_conv split: if_splits)

lemma orDefault_percent: "0 \<le> q \<Longrightarrow> q \<le> 100 \<Longrightarrow> 0 \<le> d \<Longrightarrow> d \<le> 100 \<Longrightarrow> 0 \<le> orDefault q d \<and> orDefault q d \<le> 100"
  by (simp add: orDefault_def)

text \<open>Either some signal slows the resume down, or the size moves one step towards the initial one.\<close>

definition slows :: "adaptiveThrottlingConfig \<Rightarrow> int \<Rightarrow> int \<Rightarrow> bool" where
  "slows c cur new \<longleftrightarrow>
     (\<exists>base p. (base = initialSize c \<or> base = cur) \<and> 0 \<le> p \<and> p \<le> 100 \<and> new = slowedDown base p (minSize c))"

lemma slowsI:
  "base = initialSize c \<or> base = cur \<Longrightarrow> 0 \<le> q \<and> q \<le> 100 \<Longrightarrow> 0 \<le> d \<Longrightarrow> d \<le> 100 \<Longrightarrow>
     slows c cur (slowedDown base (orDefault q d) (minSize c))"
  unfolding slows_def using orDefault_percent by blast

lemma calculateBatchSize_shape:
  assumes "valid_throttling c"
  shows "slows c cur (calculateBatchSize sigs c cur) \<or>
    calculateBatchSize sigs c cur = (if cur < initialSize c then min32 (i32 (cur + 1)) (initialSize c) else cur)"
proof -
  have v: "\<And>k. activeCheck sigs c ty CheckNodePressure = Some k \<Longrightarrow> 0 \<le> pressure_SlowdownPercent k \<and> pressure_SlowdownPercent k \<le> 100"
    "\<And>k. activeCheck sigs c ty CheckNodeUsage = Some k \<Longrightarrow> 0 \<le> usage_SlowdownPercent k \<and> usage_SlowdownPercent k \<le> 100"
    "\<And>k. activeCheck sigs c ty CheckContainerRestarts = Some k \<Longrightarrow> 0 \<le> restarts_SlowdownPercent k \<and> restarts_SlowdownPercent k \<le> 100"
    "\<And>k. activeCheck sigs c ty CheckPendingPods = Some k \<Longrightarrow> 0 \<le> pending_SlowdownPercent k \<and> pending_SlowdownPercent k \<le> 100" for ty
    using assms by (auto simp: valid_throttling_def dest!: activeCheck_Some)
  have s: "activeCheck sigs c ty CheckNodePressure = Some k \<Longrightarrow>
        slows c cur (slowedDown (initialSize c) (orDefault (pressure_SlowdownPercent k) 50) (minSize c))"
    "activeCheck sigs c ty CheckNodeUsage = Some u \<Longrightarrow>
        slows c cur (slowedDown (initialSize c) (orDefault (usage_SlowdownPercent u) 60) (minSize c))"
    "activeCheck sigs c ty CheckContainerRestarts = Some r \<Longrightarrow>
        slows c cur (slowedDown (initialSize c) (orDefault (restarts_SlowdownPercent r) 50) (minSize c))"
    "activeCheck sigs c ty CheckPendingPods = Some p \<Longrightarrow>
        slows c cur (slowedDown cur (orDefault (pending_SlowdownPercent p) 70) (minSize c))" for ty k u r p
    by (rule slowsI; simp add: v)+
  show ?thesis
    unfolding calculateBatchSize_def Let_def by (simp split: option.split add: s)
qed

lemma slows_bounds:
  assumes "slows c cur new" and "1 \<le> initialSize c" and "initialSize c \<le> 20" and "1 \<le> minSize c"
    and "1 \<le> cur" and "cur \<le> max (initialSize c) (minSize c)" and "minSize c \<le> 21000000"
  shows "1 \<le> new \<and> new \<le> max (initialSize c) (minSize c)"
proof -
  obtain base p where b: "base = initialSize c \<or> base = cur" "0 \<le> p" "p \<le> 100"
    and new: "new = slowedDown base p (minSize c)"
    using assms(1) unfolding slows_def by blast
  have "1 \<le> base" "base \<le> 21000000" "base \<le> max (initialSize c) (minSize c)"
    using b(1) assms(2-7) by auto
  with slowedDown_bounds [OF this(1,2) b(2,3) assms(4)] show ?thesis
    using assms(4) unfolding new by linarith
qed

lemma calculateBatchSize_bounds:
  assumes "valid_throttling c" and "1 \<le> cur" and "cur \<le> max (initialSize c) (minSize c)"
    and "minSize c \<le> 21000000"
  shows "1 \<le> calculateBatchSize sigs c cur \<and> calculateBatchSize sigs c cur \<le> max (initialSize c) (minSize c)"
proof -
  have I: "1 \<le> initialSize c" "initialSize c \<le> 20" "1 \<le> minSize c"
    using assms(1) by (auto simp: valid_throttling_def orDefault_def)
  have grow: "i32 (cur + 1) = cur + 1" if "cur < initialSize c"
    using that I assms(2) by simp
  from calculateBatchSize_shape [OF assms(1), of cur sigs] show ?thesis
    using slows_bounds [OF _ I assms(2-4)] grow I assms(2,3) by (auto simp: min32_def)
qed

subsection \<open>Collecting on a quiet cluster\<close>

lemma looks_usage:
  assumes "quiet_cluster a view"
  shows "looks view (checkNodeUsage a sel c m sc)"
proof -
  note q = looks_calls [OF assms]
  have url: "looks view (fetchFromURL a node port what path)" for node port what path
    unfolding fetchFromURL_def Let_def by (intro looks_intros q)
  have "looks view (nodePercent a sc node)" for node
    unfolding nodePercent_def urlPercent_def kubeletPercent_def getNodeCPUUsage_def getNodeMemoryUsage_def
      kubeletStatsOf_def getNodeCPUUsageFromURL_def getNodeMemoryUsageFromURL_def Let_def
    by (intro looks_intros q url)
  then have "looks view (usageLoop a c m sc nodes t)" for nodes c m t
    by (induction nodes arbitrary: t) (auto intro!: looks_intros)
  then show ?thesis
    unfolding checkNodeUsage_def Let_def by (intro looks_intros q)
qed

abbreviation sysview :: "('w \<Rightarrow> cluster) \<Rightarrow> 'w sys \<Rightarrow> cluster" where
  "sysview view s \<equiv> view (world s)"

lemma looks_inWorld: "looks view m \<Longrightarrow> looks (sysview view) (inWorld m)"
  by (simp add: looks_def)

lemma looks_cache: "looks (sysview view) readCache" "looks (sysview view) (writeCache c)"
  by (simp_all add: looks_def)

lemma looks_collectSignals:
  assumes "quiet_cluster a view"
  shows "looks (sysview view) (collectSignals a config ns)"
proof -
  note q = looks_calls [OF assms] looks_usage [OF assms]
  have each: "looks (sysview view) (collectNodeReady a cfg checks acc)"
    "looks (sysview view) (collectNodePressure a cfg checks acc)"
    "looks (sysview view) (collectPendingPods a cfg checks acc)"
    "looks (sysview view) (collectNodeUsage a cfg checks acc)"
    "looks (sysview view) (collectContainerRestarts a ns cfg checks acc)" for cfg checks acc
    unfolding collectNodeReady_def collectNodePressure_def collectPendingPods_def collectNodeUsage_def
      collectContainerRestarts_def checkNodeReadiness_def checkNodePressure_def checkPendingPods_def
      checkContainerRestarts_def cachedNodeUsage_def cache_get_def cache_set_def Let_def
    by (intro looks_intros looks_inWorld q looks_cache)+
  have turn: "(\<And>f acc. f \<in> set fs \<Longrightarrow> looks (sysview view) (f acc)) \<Longrightarrow>
      looks (sysview view) (collectInTurn fs acc)" for fs acc
    by (induction fs arbitrary: acc) (auto intro!: looks_intros)
  show ?thesis
    unfolding collectSignals_def
    by (intro looks_return looks_case_option turn) (auto simp: each simp del: collectInTurn.simps)
qed

lemma collectSignals_cache_ok:
  assumes "cache_ok s"
  shows "cache_ok (final (collectSignals a config ns) s)"
    and "startupComplete (final (collectSignals a config ns) s) = startupComplete s"
proof -
  have "list_all2 adds [SignalNodeNotReady, SignalNodePressure, SignalPendingPods, SignalNodeUsage,
      SignalContainerRestarts] [collectNodeReady a cfg checks, collectNodePressure a cfg checks,
      collectPendingPods a cfg checks, collectNodeUsage a cfg checks, collectContainerRestarts a ns cfg checks]"
    for cfg checks
    by (simp add: collectors_add)
  note all = collectInTurn_adds [OF this assms]
  show "cache_ok (final (collectSignals a config ns) s)"
    and "startupComplete (final (collectSignals a config ns) s) = startupComplete s"
    using assms all unfolding collectSignals_def
    by (auto simp del: collectInTurn.simps split: option.split)
qed

text \<open>
  Without unready nodes no collection pauses the resume. A list call with labels answers with the nodes
  that carry them (\<open>client.MatchingLabels\<close>).
\<close>

definition carries :: "nodeSelector \<Rightarrow> node \<Rightarrow> bool" where
  "carries sel n \<longleftrightarrow> (\<forall>(k, v) \<in> set sel. Labels (node_Meta n) k = Some v)"

definition node_list_law :: "'w api \<Rightarrow> ('w \<Rightarrow> cluster) \<Rightarrow> bool" where
  "node_list_law a view \<longleftrightarrow>
     (\<forall>sel. reads view (ListNodes a (Some sel)) (\<lambda>c r. r = Inr (filter (carries sel) (cNodes c))))"

definition nodes_ready :: "adaptiveThrottlingConfig \<Rightarrow> cluster \<Rightarrow> bool" where
  "nodes_ready config c \<longleftrightarrow>
     (\<forall>n \<in> set (cNodes c). carries (orWorkers (throttle_NodeSelector config)) n \<longrightarrow> isNodeReady n)"

lemma nodes_ready_cong: "cNodes c' = cNodes c \<Longrightarrow> nodes_ready config c' = nodes_ready config c"
  by (simp add: nodes_ready_def)

lemma collectNodeReady_none:
  assumes "node_list_law a view" and "nodes_ready config (sysview view s)"
  shows "fst (fst (result (collectNodeReady a config checks ([], m)) s)) = []"
proof -
  have "result (ListNodes a (Some (orWorkers (throttle_NodeSelector config)))) (world s) =
      Inr (filter (carries (orWorkers (throttle_NodeSelector config))) (cNodes (sysview view s)))"
    using assms(1) by (auto simp: node_list_law_def reads_def)
  moreover have "filter (\<lambda>n. \<not> isNodeReady n)
      (filter (carries (orWorkers (throttle_NodeSelector config))) (cNodes (sysview view s))) = []"
    using assms(2) by (auto simp: nodes_ready_def filter_empty_conv)
  ultimately show ?thesis
    by (auto simp: collectNodeReady_def checkNodeReadiness_def readinessLoop_eq
        split: option.splits sum.splits)
qed

lemma no_pause:
  assumes "node_list_law a view" and "nodes_ready config (sysview view s)" and "cache_ok s"
  shows "\<not> hasSignal (fst (fst (result (collectSignals a (Some config) ns) s))) SignalNodeNotReady"
proof (cases "SignalChecks config")
  case None
  then show ?thesis by (simp add: collectSignals_def)
next
  case (Some checks)
  let ?rest = "[collectNodePressure a config checks, collectPendingPods a config checks,
     collectNodeUsage a config checks, collectContainerRestarts a ns config checks]"
  let ?tys = "[SignalNodePressure, SignalPendingPods, SignalNodeUsage, SignalContainerRestarts]"
  obtain acc e where r: "result (collectNodeReady a config checks ([], no_metrics)) s = (acc, e)"
    by (cases "result (collectNodeReady a config checks ([], no_metrics)) s")
  have acc: "fst acc = []"
    using collectNodeReady_none [OF assms(1,2), of checks no_metrics] r by simp
  have ok: "cache_ok (final (collectNodeReady a config checks ([], no_metrics)) s)"
    using adds_node_ready [of a config checks] assms(3) by (simp add: adds_def)
  have "list_all2 adds ?tys ?rest" by (simp add: collectors_add)
  from collectInTurn_adds [OF this ok, of acc]
  have "\<not> hasSignal (fst (fst (result (collectInTurn ?rest acc)
      (final (collectNodeReady a config checks ([], no_metrics)) s)))) SignalNodeNotReady"
    using acc by (auto simp: hasSignal_iff)
  then show ?thesis
    using r acc Some by (auto simp: collectSignals_def split: option.split)
qed

subsection \<open>What resuming items does to the cluster\<close>

fun item_stored :: "cluster \<Rightarrow> workloadItem \<Rightarrow> bool" where
  "item_stored c it =
     ((if IsDeployment it then cDeployments c else cStatefulSets c) (workload_key (item_Workload it)) =
        Some (item_Workload it))"

definition item_key :: "workloadItem \<Rightarrow> bool \<times> nsname" where
  "item_key it = (IsDeployment it, workload_key (item_Workload it))"

definition item_resumed :: "workloadItem \<Rightarrow> cluster \<Rightarrow> cluster" where
  "item_resumed it c =
     (let d = item_Workload it in
      if IsDeployment it
      then c\<lparr>cDeployments := (cDeployments c)(workload_key d \<mapsto> deployment_ops.resumed d)\<rparr>
      else c\<lparr>cStatefulSets := (cStatefulSets c)(workload_key d \<mapsto> statefulSet_ops.resumed d)\<rparr>)"

definition items_pending :: "cluster \<Rightarrow> workloadItem list \<Rightarrow> bool" where
  "items_pending c items \<longleftrightarrow>
     distinct (map item_key items) \<and> (\<forall>it \<in> set items. item_stored c it)"

definition readable :: "workloadItem \<Rightarrow> bool" where
  "readable it \<longleftrightarrow> (\<forall>e. count_annotation (item_Workload it) \<noteq> Some (Inl e))"

lemma cPolicies_item_resumed [simp]: "cPolicies (item_resumed it c) = cPolicies c"
  by (simp add: item_resumed_def Let_def)

lemma item_resumed_policies:
  "item_resumed it (c\<lparr>cPolicies := m\<rparr>) = (item_resumed it c)\<lparr>cPolicies := m\<rparr>"
  by (simp add: item_resumed_def Let_def)

lemma fold_item_resumed_policies:
  "fold item_resumed items (c\<lparr>cPolicies := m\<rparr>) = (fold item_resumed items c)\<lparr>cPolicies := m\<rparr>"
  by (induction items arbitrary: c) (simp_all add: item_resumed_policies)

lemma cPolicies_fold [simp]: "cPolicies (fold item_resumed items c) = cPolicies c"
  by (induction items arbitrary: c) simp_all

lemma items_pending_policies [simp]: "items_pending (c\<lparr>cPolicies := m\<rparr>) items = items_pending c items"
  by (simp add: items_pending_def)

lemma items_pending_step:
  assumes "items_pending c (it # items)"
  shows "items_pending (item_resumed it c) items"
proof -
  have "item_key it' \<noteq> item_key it" if "it' \<in> set items" for it'
    using assms imageI [OF that, of item_key] unfolding items_pending_def by force
  then show ?thesis
    using assms by (auto simp: items_pending_def item_resumed_def item_key_def Let_def)
qed

lemma items_pending_append:
  "items_pending c (xs @ ys) \<Longrightarrow> items_pending (fold item_resumed xs c) ys"
  by (induction xs arbitrary: c) (auto dest: items_pending_step)

lemma items_pending_prefix: "items_pending c (xs @ ys) \<Longrightarrow> items_pending c xs"
  by (auto simp: items_pending_def)

lemma resumeItem_quiet:
  assumes "quiet_cluster a view" and "item_stored (view w) it" and "readable it"
  shows "result (resumeItem a it) w = None"
    and "view (final (resumeItem a it) w) = item_resumed it (view w)"
  using assms deployment_ops.resume_acts [OF assms(1), of "item_Workload it"]
    statefulSet_ops.resume_acts [OF assms(1), of "item_Workload it"]
  by (auto simp: resumeItem_def item_resumed_def Let_def readable_def
      deployments.acts_def deployments.succeeds_def statefulSets.acts_def statefulSets.succeeds_def)

text \<open>No manual command overrides the resume in a cluster.\<close>

definition not_overridden :: "policy \<Rightarrow> bool \<Rightarrow> cluster \<Rightarrow> bool" where
  "not_overridden policy b c \<longleftrightarrow>
     (\<exists>p. cPolicies c (policy_key policy) = Some p \<and> policy_key p = policy_key policy \<and>
        \<not> overrideDecision policy b p)"

lemma not_overridden_cPolicies:
  "cPolicies c' = cPolicies c \<Longrightarrow> not_overridden policy b c' = not_overridden policy b c"
  by (simp add: not_overridden_def)

lemma checkManualOverride_quiet:
  assumes "quiet_cluster a view" and "not_overridden policy b (view w)"
  shows "result (checkManualOverride a policy b) w = Inr False"
    and "view (final (checkManualOverride a policy b) w) = view w"
  using assms(2) reads_result [OF quiet_readD(1) [OF assms(1)], of w "policy_key policy"]
  by (auto simp: checkManualOverride_def not_overridden_def quiet_view [OF assms(1)])

lemma resumeBatch_quiet:
  assumes "quiet_cluster a view" and "not_overridden policy b (view w)"
    and "items_pending (view w) items" and "\<And>it. it \<in> set items \<Longrightarrow> readable it"
    and "0 \<le> n" and "n + int (length items) < 2 ^ 31"
  shows "result (resumeBatch a policy b items n) w = (None, n + int (length items))"
    and "view (final (resumeBatch a policy b items n) w) = fold item_resumed items (view w)"
proof -
  have "result (resumeBatch a policy b items n) w = (None, n + int (length items)) \<and>
    view (final (resumeBatch a policy b items n) w) = fold item_resumed items (view w)"
    using assms(2-6)
  proof (induction items arbitrary: n w)
    case (Cons it items)
    note ov = checkManualOverride_quiet [OF assms(1) Cons.prems(1)]
    let ?w1 = "final (checkManualOverride a policy b) w"
    have "item_stored (view ?w1) it" "readable it"
      using Cons.prems(2,3) ov(2) by (simp_all add: items_pending_def)
    note it = resumeItem_quiet [OF assms(1) this]
    let ?w2 = "final (resumeItem a it) ?w1"
    have "not_overridden policy b (view ?w2)"
      using Cons.prems(1) it(2) ov(2) by (simp add: not_overridden_def)
    moreover have "items_pending (view ?w2) items"
      using items_pending_step [OF Cons.prems(2)] it(2) ov(2) by simp
    ultimately have "result (resumeBatch a policy b items (n + 1)) ?w2 = (None, n + 1 + int (length items)) \<and>
        view (final (resumeBatch a policy b items (n + 1)) ?w2) = fold item_resumed items (view ?w2)"
      using Cons.prems(3-5) by (intro Cons.IH) auto
    moreover have "i32 (n + 1) = n + 1" using Cons.prems(4,5) by simp
    ultimately show ?case using ov it by (simp add: add.assoc)
  qed simp
  then show "result (resumeBatch a policy b items n) w = (None, n + int (length items))"
    and "view (final (resumeBatch a policy b items n) w) = fold item_resumed items (view w)" by blast+
qed

lemma overrideDecision_cong:
  "Spec p' = Spec p \<Longrightarrow> LastHandledOperationId (Status p') = LastHandledOperationId (Status p) \<Longrightarrow>
     overrideDecision policy b p' = overrideDecision policy b p"
  by (simp add: overrideDecision_def)

lemma not_overridden_frame:
  assumes "policy_frame (policy_key policy) (cPolicies c) (cPolicies c')" and "not_overridden policy b c"
  shows "not_overridden policy b c'"
proof -
  obtain p p' where "cPolicies c (policy_key policy) = Some p" "cPolicies c' (policy_key policy) = Some p'"
    "policy_Meta p' = policy_Meta p" "Spec p' = Spec p"
    "LastHandledOperationId (Status p') = LastHandledOperationId (Status p)"
    using assms(1) by (auto simp: policy_frame_def)
  then show ?thesis
    using assms(2) overrideDecision_cong [of p' p policy b] by (simp add: not_overridden_def policy_key_def)
qed

lemma updateAdaptiveProgress_quiet:
  assumes "quiet_cluster a view" and "not_overridden policy b (view w)"
  shows "\<exists>m. view (final (updateAdaptiveProgress a policy r t bs sigs now msg) w) = (view w)\<lparr>cPolicies := m\<rparr> \<and>
    policy_frame (policy_key policy) (cPolicies (view w)) m"
proof -
  obtain p where p: "cPolicies (view w) (policy_key policy) = Some p" "policy_key p = policy_key policy"
    using assms(2) by (auto simp: not_overridden_def)
  show ?thesis
    unfolding updateAdaptiveProgress_def patchStatus_quiet(2) [OF assms(1) p]
    using policy_frame_upd [of "cPolicies (view w)" "policy_key policy" p] p(1)
    by (intro exI conjI) (rule refl, simp add: calm_change_def)
qed

subsection \<open>The loop finishes\<close>

text \<open>
  What the loop needs to make progress: the nodes of the cluster that throttling looks at are ready, a
  failed collection is ignored, and the numbers are within the CRD's bounds and the one of
  \<open>calculateBatchSize_in_range\<close>. The context of the run is not cancelled (\<open>uncancelled\<close>).
\<close>

definition undisturbed :: "adaptiveThrottlingConfig \<Rightarrow> cluster \<Rightarrow> bool" where
  "undisturbed config c \<longleftrightarrow>
     nodes_ready config c \<and> FallbackOnMetricsUnavailable config \<and>
     valid_throttling config \<and> minSize config \<le> 21000000"

lemma undisturbed_cong: "cNodes c' = cNodes c \<Longrightarrow> undisturbed config c' = undisturbed config c"
  by (simp add: undisturbed_def nodes_ready_def)

lemma cNodes_fold [simp]: "cNodes (fold item_resumed items c) = cNodes c"
  by (induction items arbitrary: c) (simp_all add: item_resumed_def Let_def)

lemma adaptiveBatch_quiet:
  assumes "quiet_cluster a view" and "not_overridden policy b (sysview view s)"
    and "items_pending (sysview view s) (drop n items)" and "\<And>it. it \<in> set items \<Longrightarrow> readable it"
    and "n < length items" and "int (length items) + 21000000 < 2 ^ 31"
    and size: "1 \<le> calculateBatchSize sigs config cur" "calculateBatchSize sigs config cur \<le> 21000000"
  shows "\<exists>k m. 1 \<le> k \<and> n + k \<le> length items \<and>
    result (adaptiveBatch a policy config b items sigs now (int n) cur) s =
      PassNext (int (n + k)) (calculateBatchSize sigs config cur) \<and>
    final (adaptiveBatch a policy config b items sigs now (int n) cur) s =
      s\<lparr>world := world (final (adaptiveBatch a policy config b items sigs now (int n) cur) s)\<rparr> \<and>
    sysview view (final (adaptiveBatch a policy config b items sigs now (int n) cur) s) =
      (fold item_resumed (take k (drop n items)) (sysview view s))\<lparr>cPolicies := m\<rparr> \<and>
    policy_frame (policy_key policy) (cPolicies (sysview view s)) m"
proof -
  let ?b = "calculateBatchSize sigs config cur" and ?N = "int (length items)"
  define k where "k = nat (min ?N (int n + ?b) - int n)"
  let ?batch = "take k (drop n items)"
  have tot: "i32 ?N = ?N" "i32 (int n + ?b) = int n + ?b"
    using assms(5,6) size by simp_all
  have k: "1 \<le> k" "n + k \<le> length items" "int (n + k) = min ?N (int n + ?b)"
    using assms(5) size(1) by (auto simp: k_def)
  have kk: "nat (clip (int n + ?b) ?N - int n) = k" "\<not> clip (int n + ?b) ?N < int n"
    using assms(5) size(1) by (auto simp: k_def clip_def)
  have len: "length ?batch = k" using k(2) by simp
  let ?u = "updateAdaptiveProgress a policy (int n) ?N ?b sigs now (batchMessage (int k) (int n) ?N)"
  obtain m where m: "view (final ?u (world s)) = (sysview view s)\<lparr>cPolicies := m\<rparr>"
      "policy_frame (policy_key policy) (cPolicies (sysview view s)) m"
    using updateAdaptiveProgress_quiet [OF assms(1,2)] by blast
  have pend: "items_pending (view (final ?u (world s))) ?batch"
    using assms(3) items_pending_prefix [of "sysview view s" ?batch "drop k (drop n items)"]
    unfolding m(1) items_pending_policies by (simp only: append_take_drop_id)
  have rd: "readable it" if "it \<in> set ?batch" for it
    using that assms(4) by (meson in_set_dropD in_set_takeD)
  have ov: "not_overridden policy b (view (final ?u (world s)))"
    using not_overridden_frame [OF _ assms(2)] m by simp
  have batch: "result (resumeBatch a policy b ?batch (int n)) (final ?u (world s)) = (None, int (n + k))"
    "view (final (resumeBatch a policy b ?batch (int n)) (final ?u (world s))) =
        (fold item_resumed ?batch (sysview view s))\<lparr>cPolicies := m\<rparr>"
    using resumeBatch_quiet [OF assms(1) ov pend rd, of "int n"] k(2) assms(6)
    by (simp_all add: len m(1) fold_item_resumed_policies)
  show ?thesis
    using k(1,2) m(2) batch
    by (intro exI [of _ k] exI [of _ m])
      (simp add: adaptiveBatch_def Let_def tot kk len quiet_view [OF assms(1)] del: take_all take_all_iff)
qed

lemma adaptivePass_quiet:
  assumes quiet: "quiet_cluster a view" and laws: "node_list_law a view" "uncancelled a"
    and "undisturbed config (sysview view s)" and "cache_ok s"
    and "not_overridden policy b (sysview view s)"
    and "items_pending (sysview view s) (drop n items)" and "\<And>it. it \<in> set items \<Longrightarrow> readable it"
    and "n < length items" and "int (length items) + 21000000 < 2 ^ 31"
    and "1 \<le> cur" and "cur \<le> max (initialSize config) (minSize config)"
  shows "\<exists>k m cur'. 1 \<le> k \<and> n + k \<le> length items \<and>
    result (adaptivePass fuel a policy config b items t0 (int n) cur) s = PassNext (int (n + k)) cur' \<and>
    1 \<le> cur' \<and> cur' \<le> max (initialSize config) (minSize config) \<and>
    cache_ok (final (adaptivePass fuel a policy config b items t0 (int n) cur) s) \<and>
    startupComplete (final (adaptivePass fuel a policy config b items t0 (int n) cur) s) = startupComplete s \<and>
    sysview view (final (adaptivePass fuel a policy config b items t0 (int n) cur) s) =
      (fold item_resumed (take k (drop n items)) (sysview view s))\<lparr>cPolicies := m\<rparr> \<and>
    policy_frame (policy_key policy) (cPolicies (sysview view s)) m"
proof -
  note und = assms(4) [unfolded undisturbed_def]
  have ctx: "result (CtxErr a) w = None" for w using laws(2) by (simp add: uncancelled_def)
  note ov = checkManualOverride_quiet [OF quiet assms(6)]
  let ?ns = "TargetNamespace (Spec policy)"
  let ?s1 = "s\<lparr>world := final (checkManualOverride a policy b) (world s)\<rparr>"
  let ?s2 = "final (collectSignals a (Some config) ?ns) ?s1"
  have ok1: "cache_ok ?s1" using assms(5) by simp
  note s2 = collectSignals_cache_ok [OF ok1, of a "Some config" ?ns]
    looks_final [OF looks_collectSignals [OF quiet], where w = ?s1]
  obtain sigs0 mt e where r: "result (collectSignals a (Some config) ?ns) ?s1 = ((sigs0, mt), e)"
    by (metis prod.exhaust)
  define sigs where "sigs = (if e = None then sigs0 else [])"
  have np: "\<not> hasSignal sigs SignalNodeNotReady"
    using no_pause [OF laws(1) _ ok1, of config ?ns] und r ov(2)
    by (simp add: sigs_def nodes_ready_cong [of "view (final (checkManualOverride a policy b) (world s))" "sysview view s"])
  note size = calculateBatchSize_bounds [of config cur sigs]
  have max: "max (initialSize config) (minSize config) \<le> 21000000"
    using und by (auto simp: valid_throttling_def orDefault_def)
  let ?w3 = "final (CtxErr a) (if e = None then world ?s2 else final (CtxErr a) (world ?s2))"
  let ?s4 = "?s2\<lparr>world := final (Now a) ?w3\<rparr>"
  have run: "run_state (adaptivePass fuel a policy config b items t0 (int n) cur) s =
      run_state (adaptiveBatch a policy config b items sigs (result (Now a) ?w3) (int n) cur) ?s4"
    using ov r und np ctx by (cases e) (simp_all add: adaptivePass_def sigs_def)
  have v4: "sysview view ?s4 = sysview view s"
    using s2 ov(2) by (simp add: quiet_view [OF quiet])
  obtain k m where km: "1 \<le> k" "n + k \<le> length items"
      "result (adaptiveBatch a policy config b items sigs (result (Now a) ?w3) (int n) cur) ?s4 =
        PassNext (int (n + k)) (calculateBatchSize sigs config cur)"
      "final (adaptiveBatch a policy config b items sigs (result (Now a) ?w3) (int n) cur) ?s4 =
        ?s4\<lparr>world := world (final (adaptiveBatch a policy config b items sigs (result (Now a) ?w3) (int n) cur) ?s4)\<rparr>"
      "sysview view (final (adaptiveBatch a policy config b items sigs (result (Now a) ?w3) (int n) cur) ?s4) =
        (fold item_resumed (take k (drop n items)) (sysview view s))\<lparr>cPolicies := m\<rparr>"
      "policy_frame (policy_key policy) (cPolicies (sysview view s)) m"
    using adaptiveBatch_quiet [OF quiet, of policy b ?s4 n items sigs config cur "result (Now a) ?w3"]
      assms(6-10) size und max assms(11,12) unfolding v4 by fastforce
  have "cache_ok (final (adaptiveBatch a policy config b items sigs (result (Now a) ?w3) (int n) cur) ?s4)"
    "startupComplete (final (adaptiveBatch a policy config b items sigs (result (Now a) ?w3) (int n) cur) ?s4) =
      startupComplete s"
    using s2 by (subst km(4), simp)+
  then show ?thesis
    unfolding run using km size und assms(11,12) by blast
qed

lemma adaptiveLoop_quiet:
  assumes quiet: "quiet_cluster a view" and laws: "node_list_law a view" "uncancelled a"
    and rd: "\<And>it. it \<in> set items \<Longrightarrow> readable it"
    and len: "int (length items) + 21000000 < 2 ^ 31"
    and "undisturbed config (sysview view s)"
    and "cache_ok s" and "not_overridden policy b (sysview view s)"
    and "items_pending (sysview view s) (drop n items)"
    and "n \<le> length items" and "length items - n < fuel"
    and "1 \<le> cur" and "cur \<le> max (initialSize config) (minSize config)"
  shows "\<exists>m cur'.
    result (adaptiveLoop fuel a policy config b items t0 (int n) cur) s = Some (Inr cur') \<and>
    cache_ok (final (adaptiveLoop fuel a policy config b items t0 (int n) cur) s) \<and>
    startupComplete (final (adaptiveLoop fuel a policy config b items t0 (int n) cur) s) = startupComplete s \<and>
    sysview view (final (adaptiveLoop fuel a policy config b items t0 (int n) cur) s) =
      (fold item_resumed (drop n items) (sysview view s))\<lparr>cPolicies := m\<rparr> \<and>
    policy_frame (policy_key policy) (cPolicies (sysview view s)) m"
  using assms(6-)
proof (induction fuel arbitrary: s n cur)
  case (Suc fuel)
  have tot: "i32 (int (length items)) = int (length items)" using len by simp
  show ?case
  proof (cases "n < length items")
    case False
    then have "n = length items" using Suc.prems(5) by simp
    then show ?thesis
      using Suc.prems(2,3) tot
      by (auto simp: not_overridden_def intro!: exI [of _ "cPolicies (sysview view s)"] policy_frame_refl)
  next
    case True
    obtain k m cur' where p: "1 \<le> k" "n + k \<le> length items"
      "result (adaptivePass fuel a policy config b items t0 (int n) cur) s = PassNext (int (n + k)) cur'"
      "1 \<le> cur'" "cur' \<le> max (initialSize config) (minSize config)"
      "cache_ok (final (adaptivePass fuel a policy config b items t0 (int n) cur) s)"
      "startupComplete (final (adaptivePass fuel a policy config b items t0 (int n) cur) s) = startupComplete s"
      "sysview view (final (adaptivePass fuel a policy config b items t0 (int n) cur) s) =
        (fold item_resumed (take k (drop n items)) (sysview view s))\<lparr>cPolicies := m\<rparr>"
      "policy_frame (policy_key policy) (cPolicies (sysview view s)) m"
      using adaptivePass_quiet [OF quiet laws Suc.prems(1-4) rd True len Suc.prems(7,8)] by blast
    let ?s1 = "final (adaptivePass fuel a policy config b items t0 (int n) cur) s"
    have tk: "take k (drop n items) @ drop (n + k) items = drop n items"
      by (metis append_take_drop_id drop_drop add.commute)
    have pend: "items_pending (sysview view ?s1) (drop (n + k) items)"
      using items_pending_append [of "sysview view s" "take k (drop n items)" "drop (n + k) items"]
        Suc.prems(4) unfolding tk p(8) items_pending_policies by blast
    have ov: "not_overridden policy b (sysview view ?s1)"
      using not_overridden_frame [OF _ Suc.prems(3)] p(9) unfolding p(8) by simp
    have less: "length items - (n + k) < fuel" using Suc.prems(6) p(1,2) by linarith
    have "undisturbed config (sysview view ?s1)"
      using Suc.prems(1) unfolding p(8) by (simp add: undisturbed_def nodes_ready_def)
    from Suc.IH [OF this p(6) ov pend p(2) less p(4,5)] obtain m' cur'' where q:
      "result (adaptiveLoop fuel a policy config b items t0 (int (n + k)) cur') ?s1 = Some (Inr cur'')"
      "cache_ok (final (adaptiveLoop fuel a policy config b items t0 (int (n + k)) cur') ?s1)"
      "startupComplete (final (adaptiveLoop fuel a policy config b items t0 (int (n + k)) cur') ?s1) = startupComplete ?s1"
      "sysview view (final (adaptiveLoop fuel a policy config b items t0 (int (n + k)) cur') ?s1) =
        (fold item_resumed (drop (n + k) items) (sysview view ?s1))\<lparr>cPolicies := m'\<rparr>"
      "policy_frame (policy_key policy) (cPolicies (sysview view ?s1)) m'" by blast
    have "fold item_resumed (drop (n + k) items) (fold item_resumed (take k (drop n items)) c) =
        fold item_resumed (drop n items) c" for c
      by (metis fold_append comp_apply tk)
    moreover have "policy_frame (policy_key policy) (cPolicies (sysview view s)) m'"
      using policy_frame_trans [OF p(9)] q(5) unfolding p(8) by simp
    moreover have "run_state (adaptiveLoop (Suc fuel) a policy config b items t0 (int n) cur) s =
        run_state (adaptiveLoop fuel a policy config b items t0 (int (n + k)) cur') ?s1"
      using True tot p(3) by simp
    ultimately show ?thesis
      using q p(7,8) by (auto simp: fold_item_resumed_policies)
  qed
qed simp

lemma item_resumed_of:
  "item_resumed (deploymentItem d) c =
     c\<lparr>cDeployments := (cDeployments c)(workload_key d \<mapsto> deployment_ops.resumed d)\<rparr>"
  "item_resumed (statefulSetItem d) c =
     c\<lparr>cStatefulSets := (cStatefulSets c)(workload_key d \<mapsto> statefulSet_ops.resumed d)\<rparr>"
  by (simp_all add: item_resumed_def deploymentItem_def statefulSetItem_def)

lemma fold_deployments:
  "deployments.listed c ds \<Longrightarrow> fold item_resumed (map deploymentItem ds) c =
     c\<lparr>cDeployments := on_keys deployment_ops.resumed (workload_key ` set ds) (cDeployments c)\<rparr>"
proof (induction ds arbitrary: c)
  case (Cons d ds)
  note l = deployments.listed_Cons [OF Cons.prems]
  have "fold item_resumed (map deploymentItem (d # ds)) c =
      fold item_resumed (map deploymentItem ds) (c\<lparr>cDeployments := (cDeployments c)(workload_key d \<mapsto> deployment_ops.resumed d)\<rparr>)"
    by (simp only: list.map fold_simps item_resumed_of)
  also have "\<dots> = c\<lparr>cDeployments := on_keys deployment_ops.resumed (workload_key ` set ds)
      ((cDeployments c)(workload_key d \<mapsto> deployment_ops.resumed d))\<rparr>"
    unfolding Cons.IH [OF l(3)] by simp
  also have "\<dots> = c\<lparr>cDeployments := on_keys deployment_ops.resumed (workload_key ` set (d # ds)) (cDeployments c)\<rparr>"
    by (simp only: on_keys_insert [where m = "cDeployments c" and g = deployment_ops.resumed, OF l(2,1)] list.set image_insert)
  finally show ?case .
qed simp

lemma fold_statefulSets:
  "statefulSets.listed c ds \<Longrightarrow> fold item_resumed (map statefulSetItem ds) c =
     c\<lparr>cStatefulSets := on_keys statefulSet_ops.resumed (workload_key ` set ds) (cStatefulSets c)\<rparr>"
proof (induction ds arbitrary: c)
  case (Cons d ds)
  note l = statefulSets.listed_Cons [OF Cons.prems]
  have "fold item_resumed (map statefulSetItem (d # ds)) c =
      fold item_resumed (map statefulSetItem ds) (c\<lparr>cStatefulSets := (cStatefulSets c)(workload_key d \<mapsto> statefulSet_ops.resumed d)\<rparr>)"
    by (simp only: list.map fold_simps item_resumed_of)
  also have "\<dots> = c\<lparr>cStatefulSets := on_keys statefulSet_ops.resumed (workload_key ` set ds)
      ((cStatefulSets c)(workload_key d \<mapsto> statefulSet_ops.resumed d))\<rparr>"
    unfolding Cons.IH [OF l(3)] by simp
  also have "\<dots> = c\<lparr>cStatefulSets := on_keys statefulSet_ops.resumed (workload_key ` set (d # ds)) (cStatefulSets c)\<rparr>"
    by (simp only: on_keys_insert [where m = "cStatefulSets c" and g = statefulSet_ops.resumed, OF l(2,1)] list.set image_insert)
  finally show ?case .
qed simp

lemma items_pending_listed:
  assumes "deployments.listed c ds" and "statefulSets.listed c ss"
  shows "items_pending c (map deploymentItem ds @ map statefulSetItem ss)"
proof -
  have "map item_key (map deploymentItem ds) = map (Pair True) (map workload_key ds)"
    "map item_key (map statefulSetItem ss) = map (Pair False) (map workload_key ss)"
    by (simp_all add: item_key_def deploymentItem_def statefulSetItem_def)
  then show ?thesis
    using assms unfolding items_pending_def map_append
    by (auto simp: deployments.listed_def statefulSets.listed_def distinct_map inj_on_def
        deploymentItem_def statefulSetItem_def item_key_def)
qed

subsection \<open>Properties\<close>


definition sample_throttling :: adaptiveThrottlingConfig where
  "sample_throttling = \<lparr>throttle_Enabled = True, InitialBatchSize = 4, MinBatchSize = 0, BatchInterval = 5,
     SignalChecks = Some \<lparr>CheckNodeReady = Some \<lparr>ready_Enabled = True, WaitInterval = 10, MaxWaitTime = 300\<rparr>,
       CheckNodePressure = Some \<lparr>pressure_Enabled = True, PressureTypes = [], pressure_SlowdownPercent = 50\<rparr>,
       CheckPendingPods = None, CheckNodeUsage = None, CheckContainerRestarts = None\<rparr>,
     throttle_NodeSelector = None, FallbackOnMetricsUnavailable = True\<rparr>"


text \<open>
  Once the signals are gone, the batch size climbs back by one per pass and reaches the
  initial size after as many passes as it is below it, and stays there.
\<close>

theorem batch_size_recovers:
  assumes "valid_throttling c" and "1 \<le> cur" and "cur \<le> initialSize c"
  shows "(calculateBatchSize [] c ^^ n) cur = min (cur + int n) (initialSize c)"
proof (induction n)
  case 0
  then show ?case using assms(3) by simp
next
  case (Suc n)
  let ?x = "min (cur + int n) (initialSize c)"
  have I: "initialSize c \<le> 20"
    using assms(1) by (auto simp: valid_throttling_def orDefault_def)
  have "calculateBatchSize [] c ?x = (if ?x < initialSize c then min32 (i32 (?x + 1)) (initialSize c) else ?x)"
    by (simp add: calculateBatchSize_def activeCheck_def Let_def)
  moreover have "i32 (?x + 1) = ?x + 1" using assms(2,3) I by simp
  ultimately show ?case using Suc by (auto simp: min32_def)
qed

theorem batch_size_recovers_witness:
  "(calculateBatchSize [] sample_throttling ^^ 5) 2 = 4"
  using batch_size_recovers [of sample_throttling 2 5]
  by (simp add: sample_throttling_def valid_throttling_def orDefault_def)

text \<open>
  C39: nothing requires \<open>minBatchSize\<close> to be at most \<open>initialBatchSize\<close>. When it is larger, a
  pressure signal makes the batches larger than they were, instead of smaller.
\<close>

theorem slowdown_can_speed_up:
  assumes "valid_throttling c" and "initialSize c < minSize c"
    and "activeCheck sigs c SignalNodePressure CheckNodePressure = Some k"
  shows "calculateBatchSize sigs c (initialSize c) = minSize c \<and>
    initialSize c < calculateBatchSize sigs c (initialSize c)"
proof -
  have "0 \<le> pressure_SlowdownPercent k" "pressure_SlowdownPercent k \<le> 100"
    using activeCheck_Some [OF assms(3)] assms(1) by (auto simp: valid_throttling_def)
  then have p: "0 \<le> orDefault (pressure_SlowdownPercent k) 50" "orDefault (pressure_SlowdownPercent k) 50 \<le> 100"
    by (simp_all add: orDefault_def)
  have I: "1 \<le> initialSize c" "initialSize c \<le> 21000000" "1 \<le> minSize c"
    using assms(1) by (auto simp: valid_throttling_def orDefault_def)
  show ?thesis
    using slowedDown_bounds [OF I(1,2) p I(3)] assms(2,3) by (simp add: calculateBatchSize_def)
qed

theorem slowdown_can_speed_up_witness:
  "calculateBatchSize [nodeSignal SignalNodePressure SignalSeverityWarning [] [] 0 []]
     (sample_throttling\<lparr>MinBatchSize := 9\<rparr>) 4 = 9"
  using slowdown_can_speed_up [of "sample_throttling\<lparr>MinBatchSize := 9\<rparr>"
      "[nodeSignal SignalNodePressure SignalSeverityWarning [] [] 0 []]"
      "\<lparr>pressure_Enabled = True, PressureTypes = [], pressure_SlowdownPercent = 50\<rparr>"]
  by (simp add: sample_throttling_def valid_throttling_def orDefault_def activeCheck_def nodeSignal_def)

lemma finalAdaptiveProgress_quiet:
  assumes "quiet_cluster a view" and "cPolicies (view w) (policy_key policy) = Some q"
    and "policy_key q = policy_key policy"
  shows "\<exists>q'. view (final (finalAdaptiveProgress a policy n bs t) w) =
      (view w)\<lparr>cPolicies := (cPolicies (view w))(policy_key policy \<mapsto> q')\<rparr> \<and>
    policy_frame (policy_key policy) (cPolicies (view w)) ((cPolicies (view w))(policy_key policy \<mapsto> q')) \<and>
    Message (Status q') = allResumedMessage n"
  unfolding finalAdaptiveProgress_def patchStatus_quiet(2) [OF assms]
  by (intro exI conjI, rule refl, rule policy_frame_upd [of "cPolicies (view w)", OF assms(2)])
    (simp_all add: calm_change_def)

lemma fold_items:
  assumes "deployments.listed c ds" and "statefulSets.listed c ss"
  shows "fold item_resumed (map deploymentItem ds @ map statefulSetItem ss) c = c\<lparr>
      cDeployments := on_keys deployment_ops.resumed (workload_key ` set ds) (cDeployments c),
      cStatefulSets := on_keys statefulSet_ops.resumed (workload_key ` set ss) (cStatefulSets c)\<rparr>"
  using assms by (simp add: fold_deployments fold_statefulSets statefulSets.listed_def)

lemma throttled_resume_quiet:
  assumes "quiet_cluster a view" and "AdaptiveThrottling (Spec policy) = Some config"
    and "node_list_law a view" and "uncancelled a" and "undisturbed config (sysview view s)"
    and "cache_ok s" and "not_overridden policy b (sysview view s)"
    and "deployments.listed (sysview view s) ds" and "statefulSets.listed (sysview view s) ss"
    and "\<And>d e. d \<in> set ds \<union> set ss \<Longrightarrow> count_annotation d \<noteq> Some (Inl e)"
    and "ds \<noteq> [] \<or> ss \<noteq> []" and "int (length ds + length ss) + 21000000 < 2 ^ 31"
    and "length ds + length ss < fuel"
  shows "\<exists>m p. result (resumeWithAdaptiveThrottling fuel a policy ds ss b) s = Some None \<and>
    sysview view (final (resumeWithAdaptiveThrottling fuel a policy ds ss b) s) = (sysview view s)\<lparr>
      cDeployments := on_keys deployment_ops.resumed (workload_key ` set ds) (cDeployments (sysview view s)),
      cStatefulSets := on_keys statefulSet_ops.resumed (workload_key ` set ss) (cStatefulSets (sysview view s)),
      cPolicies := m\<rparr> \<and>
    policy_frame (policy_key policy) (cPolicies (sysview view s)) m \<and>
    m (policy_key policy) = Some p \<and> Message (Status p) = allResumedMessage (int (length ds + length ss))"
proof -
  let ?items = "map deploymentItem ds @ map statefulSetItem ss" and ?N = "int (length ds + length ss)"
  let ?s1 = "s\<lparr>world := final (Now a) (world s)\<rparr>" and ?t0 = "result (Now a) (world s)"
  let ?s2 = "final (adaptiveLoop fuel a policy config b ?items ?t0 0 (initialSize config)) ?s1"
  let ?w3 = "final (Now a) (world ?s2)"
  have v1: "sysview view ?s1 = sysview view s" by (simp add: quiet_view [OF assms(1)])
  have len: "length ?items = length ds + length ss" by simp
  have rd: "readable it" if "it \<in> set ?items" for it
    using that assms(10) by (auto simp: readable_def deploymentItem_def statefulSetItem_def)
  have pend: "items_pending (sysview view ?s1) (drop 0 ?items)"
    unfolding v1 using items_pending_listed [OF assms(8,9)] by simp
  have ini: "1 \<le> initialSize config"
    using assms(5) by (auto simp: undisturbed_def valid_throttling_def orDefault_def)
  obtain m cur' where loop:
    "result (adaptiveLoop fuel a policy config b ?items ?t0 0 (initialSize config)) ?s1 = Some (Inr cur')"
    "sysview view ?s2 = (fold item_resumed ?items (sysview view s))\<lparr>cPolicies := m\<rparr>"
    "policy_frame (policy_key policy) (cPolicies (sysview view s)) m"
    using adaptiveLoop_quiet [OF assms(1,3,4) rd _ _ _ _ pend, of config policy b fuel "initialSize config" ?t0]
      assms(5,6,7,12,13) ini unfolding v1 len by auto
  obtain q where q: "m (policy_key policy) = Some q" "policy_key q = policy_key policy"
    using loop(3) assms(7) by (auto simp: policy_frame_def not_overridden_def policy_key_def)
  have v3: "view ?w3 = (fold item_resumed ?items (sysview view s))\<lparr>cPolicies := m\<rparr>"
    using loop(2) by (simp add: quiet_view [OF assms(1)])
  from finalAdaptiveProgress_quiet [OF assms(1), of ?w3 policy q ?N cur' "result (Now a) (world ?s2)"] obtain q' where fin:
    "view (final (finalAdaptiveProgress a policy ?N cur' (result (Now a) (world ?s2))) ?w3) =
      (fold item_resumed ?items (sysview view s))\<lparr>cPolicies := m(policy_key policy \<mapsto> q')\<rparr>"
    "policy_frame (policy_key policy) m (m(policy_key policy \<mapsto> q'))" "Message (Status q') = allResumedMessage ?N"
    using q unfolding v3 by auto
  have "i32 (int (length ?items)) = ?N" "?N \<noteq> 0"
    using assms(11,12) by (auto simp flip: of_nat_add)
  then have "result (resumeWithAdaptiveThrottling fuel a policy ds ss b) s = Some None"
    "world (final (resumeWithAdaptiveThrottling fuel a policy ds ss b) s) =
      final (finalAdaptiveProgress a policy ?N cur' (result (Now a) (world ?s2))) ?w3"
    using assms(2) loop(1) by (simp_all add: resumeWithAdaptiveThrottling_def Let_def)
  then show ?thesis
    using fin policy_frame_trans [OF loop(3) fin(2)] unfolding fold_items [OF assms(8,9)]
    by (intro exI [of _ "m(policy_key policy \<mapsto> q')"] exI [of _ q']) simp
qed

text \<open>
  C8: the throttled resume terminates and resumes everything. On a quiet cluster whose nodes are
  ready, with a configuration the CRD accepts and no manual command in the way, fuel for one
  pass per workload is enough: the function returns no error, every listed Deployment and
  StatefulSet is resumed exactly once, the policy keeps its spec and operation id and gets a
  completed progress report, and no other object changes.
\<close>

theorem resumeWithAdaptiveThrottling_completes:
  assumes "quiet_cluster a view" and "AdaptiveThrottling (Spec policy) = Some config"
    and "node_list_law a view" and "uncancelled a" and "undisturbed config (sysview view s)"
    and "cache_ok s" and "not_overridden policy b (sysview view s)"
    and "deployments.listed (sysview view s) ds" and "statefulSets.listed (sysview view s) ss"
    and "\<And>d e. d \<in> set ds \<union> set ss \<Longrightarrow> count_annotation d \<noteq> Some (Inl e)"
    and "ds \<noteq> [] \<or> ss \<noteq> []" and "int (length ds + length ss) + 21000000 < 2 ^ 31"
    and "length ds + length ss < fuel"
  shows "\<exists>m p. result (resumeWithAdaptiveThrottling fuel a policy ds ss b) s = Some None \<and>
    sysview view (final (resumeWithAdaptiveThrottling fuel a policy ds ss b) s) = (sysview view s)\<lparr>
      cDeployments := on_keys deployment_ops.resumed (workload_key ` set ds) (cDeployments (sysview view s)),
      cStatefulSets := on_keys statefulSet_ops.resumed (workload_key ` set ss) (cStatefulSets (sysview view s)),
      cPolicies := m\<rparr> \<and>
    policy_frame (policy_key policy) (cPolicies (sysview view s)) m \<and>
    m (policy_key policy) = Some p \<and> Message (Status p) = allResumedMessage (int (length ds + length ss))"
  using assms by (rule throttled_resume_quiet)

definition frozen_web :: workload where
  "frozen_web = set_Annotations [AnnotationOriginalReplicas \<mapsto> ''3''] (sample_workload ''web'' 0)"

definition throttled_policy :: policy where
  "throttled_policy = (sample_policy ''p'')\<lparr>Spec := sample_spec\<lparr>Action := LifecycleActionResume,
     AdaptiveThrottling := Some sample_throttling\<rparr>\<rparr>"

definition throttled_sys :: "mem sys" where
  "throttled_sys = \<lparr>startupComplete = True,
     metricsCache = \<lparr>cache_signals = [], cache_avgCPU = 0, cache_avgMem = 0, fetchedAt = None, ttl = 0\<rparr>,
     world = sample_mem\<lparr>mPolicies := [throttled_policy], mDeployments := [frozen_web],
       mNodes := [sample_node ''w1'' ConditionTrue,
         (sample_node ''gpu'' ConditionFalse)\<lparr>node_Meta := sample_meta '''' ''gpu''\<rparr>]\<rparr>\<rparr>"

lemma mem_node_list: "node_list_law mem_api mem_view"
  by (simp add: node_list_law_def reads_def mem_ops mem_view_def carries_def [abs_def] mem_labels_match_def list_all_iff)

lemma throttled_undisturbed: "undisturbed sample_throttling (sysview mem_view throttled_sys)"
proof -
  have "carries workerSelector n \<Longrightarrow> isNodeReady n" if "n \<in> set (mNodes (world throttled_sys))" for n
    using that
    by (auto simp: throttled_sys_def carries_def workerSelector_def sample_node_def isNodeReady_def sample_meta_def)
  then show ?thesis
    by (simp add: undisturbed_def nodes_ready_def mem_view_def valid_throttling_def sample_throttling_def orDefault_def
        orWorkers_def)
qed

theorem resumeWithAdaptiveThrottling_completes_witness:
  "result (resumeWithAdaptiveThrottling 2 mem_api throttled_policy [frozen_web] [] False)
     throttled_sys = Some None"
proof -
  have "Atoi ''3'' = Inr 3"
    by (simp add: ParseInt_def ParseUint_def digit_val_def)
  then have "count_annotation frozen_web = Some (Inr 3)"
    by (simp add: count_annotation_def frozen_web_def sample_workload_def)
  moreover have "not_overridden throttled_policy False (sysview mem_view throttled_sys)"
    by (simp add: not_overridden_def overrideDecision_def throttled_sys_def throttled_policy_def
        mem_view_def lookup_key_def by_key_def sample_defs key_defs Let_def)
  ultimately show ?thesis
    using resumeWithAdaptiveThrottling_completes [OF mem_quiet _ mem_node_list mem_uncancelled
        throttled_undisturbed, of throttled_policy False "[frozen_web]" "[]" 2]
    by (simp add: throttled_policy_def cache_ok_def throttled_sys_def deployments.listed_def
        statefulSets.listed_def mem_view_def lookup_key_def by_key_def)
qed

text \<open>
  A manual command stops a resume. When the stored policy carries a command that overrides
  the running operation (for a manual resume also when its action has become Freeze), the next
  pass returns the override error and leaves every object as it is.
\<close>

theorem override_stops_pass:
  assumes "quiet_cluster a view" and "cPolicies (sysview view s) (policy_key policy) = Some latest"
    and "overrideDecision policy isStartup latest"
  shows "result (adaptivePass fuel a policy config isStartup items t0 n cur) s = PassReturn (Some overrideError) \<and>
    sysview view (final (adaptivePass fuel a policy config isStartup items t0 n cur) s) = sysview view s"
proof -
  have "result (checkManualOverride a policy isStartup) (world s) = Inr True"
    using reads_result [OF quiet_readD(1) [OF assms(1)], of "world s" "policy_key policy"] assms(2,3)
    by (simp add: checkManualOverride_def)
  then show ?thesis
    by (simp add: adaptivePass_def checkManualOverride_def quiet_view [OF assms(1)])
qed

theorem override_stops_pass_witness:
  "result (adaptivePass 0 mem_api (throttled_policy\<lparr>Spec := (Spec throttled_policy)\<lparr>OperationId := ''op-0''\<rparr>\<rparr>)
      sample_throttling False [] 0 0 3) throttled_sys = PassReturn (Some overrideError)"
proof -
  let ?p = "throttled_policy\<lparr>Spec := (Spec throttled_policy)\<lparr>OperationId := ''op-0''\<rparr>\<rparr>"
  have "cPolicies (sysview mem_view throttled_sys) (policy_key ?p) = Some throttled_policy"
    by (simp add: throttled_sys_def throttled_policy_def mem_view_def lookup_key_def by_key_def
        sample_defs key_defs)
  moreover have "overrideDecision ?p False throttled_policy"
    by (simp add: overrideDecision_def throttled_policy_def sample_defs)
  ultimately show ?thesis
    using override_stops_pass [OF mem_quiet] by blast
qed

end
