(* ===== verification/NodeFailure.thy ===== *)
theory NodeFailure
  imports Throttling
begin

text \<open>
  Reaction to a failed node, from \<open>src/internal/controller/node_failure.go\<close>: which workloads are
  entirely on the node (\<open>findFullyLocalWorkloads\<close>, \<open>resolveWorkloadOwnerUID\<close>), the forced deletion
  of terminating pods, the scale-down (\<open>handleNodeFailureEvent\<close>), the Degraded condition, and the
  scan at operator startup (\<open>HandleNodeFailureAtStartup\<close>).
\<close>

subsection \<open>Owners of pods\<close>

fun deploymentOwner :: "ownerReference list \<Rightarrow> string option" where
  "deploymentOwner [] = None"
| "deploymentOwner (ref # refs) =
     (if owner_Kind ref = ''Deployment'' then Some (owner_UID ref) else deploymentOwner refs)"

text \<open>The pair of kind and UID; both are empty for an unmanaged pod.\<close>

fun resolveRefs :: "'w api \<Rightarrow> string \<Rightarrow> ownerReference list \<Rightarrow> ('w, err + string \<times> string) state" where
  "resolveRefs a ns [] = return (Inr ('''', ''''))"
| "resolveRefs a ns (ref # refs) =
     (if owner_Kind ref = ''ReplicaSet'' then do {
        r \<leftarrow> GetReplicaSet a (ns, owner_Name ref);
        return (case r of
           Inl e \<Rightarrow> Inl (Wrapf (''failed to get ReplicaSet '' @ owner_Name ref) e)
         | Inr rs \<Rightarrow> (case deploymentOwner (rs_OwnerReferences rs) of
                       Some uid \<Rightarrow> Inr (''Deployment'', uid)
                     | None \<Rightarrow> Inr ('''', '''')))
      }
      else if owner_Kind ref = ''StatefulSet'' then return (Inr (''StatefulSet'', owner_UID ref))
      else resolveRefs a ns refs)"

definition resolveWorkloadOwnerUID :: "'w api \<Rightarrow> pod \<Rightarrow> ('w, err + string \<times> string) state" where
  "resolveWorkloadOwnerUID a pod = resolveRefs a (Namespace (pod_Meta pod)) (OwnerReferences pod)"

subsection \<open>Workloads whose pods are all on one node\<close>

record workloadEntry =
  entry_kind :: string
  totalPods :: int
  failedNodePods :: int

abbreviation workload_UID :: "workload \<Rightarrow> string" where
  "workload_UID d \<equiv> UID (workload_Meta d)"

text \<open>The map from UID to workload, filled in list order.\<close>

definition byUID :: "workload list \<Rightarrow> string \<rightharpoonup> workload" where
  "byUID items = map_of (rev (map (\<lambda>d. (workload_UID d, d)) items))"

definition skipPod :: "pod \<Rightarrow> bool" where
  "skipPod pod \<longleftrightarrow>
     pod_Phase pod = PodSucceeded \<or> pod_Phase pod = PodFailed \<or> DeletionTimestamp (pod_Meta pod) \<noteq> None"

definition trackedOwner ::
    "(string \<rightharpoonup> workload) \<Rightarrow> (string \<rightharpoonup> workload) \<Rightarrow> err + string \<times> string \<Rightarrow> (string \<times> string) option" where
  "trackedOwner allowedDeployUIDs allowedSTSUIDs r =
     (case r of
        Inl e \<Rightarrow> None
      | Inr (ownerKind, ownerUID) \<Rightarrow>
          if ownerKind = '''' then None
          else if ownerKind = ''Deployment'' \<and> allowedDeployUIDs ownerUID = None then None
          else if ownerKind = ''StatefulSet'' \<and> allowedSTSUIDs ownerUID = None then None
          else Some (ownerKind, ownerUID))"

definition countPod ::
    "string \<Rightarrow> pod \<Rightarrow> string \<times> string \<Rightarrow> (string \<times> workloadEntry) list \<Rightarrow> (string \<times> workloadEntry) list" where
  "countPod failedNodeName pod owner workloads =
     (let (kind, uid) = owner;
          entry = (case map_of workloads uid of
                     Some e \<Rightarrow> e
                   | None \<Rightarrow> \<lparr>entry_kind = kind, totalPods = 0, failedNodePods = 0\<rparr>);
          entry = entry\<lparr>totalPods := totalPods entry + 1\<rparr>;
          entry = (if NodeName pod = failedNodeName
                   then entry\<lparr>failedNodePods := failedNodePods entry + 1\<rparr> else entry)
      in AList.update uid entry workloads)"

fun countPods ::
    "'w api \<Rightarrow> (string \<rightharpoonup> workload) \<Rightarrow> (string \<rightharpoonup> workload) \<Rightarrow> string \<Rightarrow> pod list \<Rightarrow>
     (string \<times> workloadEntry) list \<Rightarrow> ('w, (string \<times> workloadEntry) list) state" where
  "countPods a ds ss failedNodeName [] workloads = return workloads"
| "countPods a ds ss failedNodeName (pod # pods) workloads =
     (if skipPod pod then countPods a ds ss failedNodeName pods workloads
      else do {
        r \<leftarrow> resolveWorkloadOwnerUID a pod;
        (case trackedOwner ds ss r of
           None \<Rightarrow> countPods a ds ss failedNodeName pods workloads
         | Some owner \<Rightarrow> countPods a ds ss failedNodeName pods (countPod failedNodeName pod owner workloads))
      })"

text \<open>The closing loop over the map, in the order of \<open>RangeOrder\<close>.\<close>

definition fullyLocal :: "workloadEntry \<Rightarrow> bool" where
  "fullyLocal e \<longleftrightarrow> totalPods e \<noteq> 0 \<and> totalPods e = failedNodePods e"

definition selectLocal ::
    "string \<Rightarrow> (string \<rightharpoonup> workload) \<Rightarrow> (string \<times> workloadEntry) list \<Rightarrow> string list \<Rightarrow> workload list" where
  "selectLocal kind allowed workloads uids =
     List.map_filter (\<lambda>uid.
       case map_of workloads uid of
         Some e \<Rightarrow> if fullyLocal e \<and> entry_kind e = kind then allowed uid else None
       | None \<Rightarrow> None) uids"

definition findFullyLocalWorkloads ::
    "'w api \<Rightarrow> policy \<Rightarrow> string \<Rightarrow> ('w, err + workload list \<times> workload list) state" where
  "findFullyLocalWorkloads a policy failedNodeName = do {
     deploys \<leftarrow> listDeployments a (TargetNamespace (Spec policy)) (Selector (Spec policy));
     (case deploys of
        Inl e \<Rightarrow> return (Inl (Wrapf ''failed to list deployments'' e))
      | Inr ds \<Rightarrow> do {
          stss \<leftarrow> listStatefulSets a (TargetNamespace (Spec policy)) (Selector (Spec policy));
          (case stss of
             Inl e \<Rightarrow> return (Inl (Wrapf ''failed to list statefulsets'' e))
           | Inr ss \<Rightarrow> do {
               podList \<leftarrow> ListPods a (Some (TargetNamespace (Spec policy)));
               (case podList of
                  Inl e \<Rightarrow> return (Inl (Wrapf (''failed to list pods in namespace '' @
                             TargetNamespace (Spec policy)) e))
                | Inr pods \<Rightarrow> do {
                    workloads \<leftarrow> countPods a (byUID ds) (byUID ss) failedNodeName pods [];
                    let uids = RangeOrder a (map fst workloads);
                    return (Inr (selectLocal ''Deployment'' (byUID ds) workloads uids,
                                 selectLocal ''StatefulSet'' (byUID ss) workloads uids))
                  })
             })
        })
   }"

subsection \<open>Handling the failure\<close>

definition ghostPod :: "string \<Rightarrow> pod \<Rightarrow> bool" where
  "ghostPod failedNode pod \<longleftrightarrow> NodeName pod = failedNode \<and> DeletionTimestamp (pod_Meta pod) \<noteq> None"

fun forceDeleteLoop :: "'w api \<Rightarrow> string \<Rightarrow> pod list \<Rightarrow> ('w, unit) state" where
  "forceDeleteLoop a failedNode [] = return ()"
| "forceDeleteLoop a failedNode (pod # pods) =
     (if NodeName pod \<noteq> failedNode \<or> DeletionTimestamp (pod_Meta pod) = None
      then forceDeleteLoop a failedNode pods
      else do { _ \<leftarrow> DeletePod a pod 0; forceDeleteLoop a failedNode pods })"

definition forceDeleteTerminatingPods :: "'w api \<Rightarrow> policy \<Rightarrow> string \<Rightarrow> ('w, unit) state" where
  "forceDeleteTerminatingPods a policy failedNode = do {
     podList \<leftarrow> ListPods a (Some (TargetNamespace (Spec policy)));
     (case podList of
        Inl e \<Rightarrow> return ()
      | Inr pods \<Rightarrow> forceDeleteLoop a failedNode pods)
   }"

text \<open>A scale-down loop: failures are logged, successes are recorded with a prefix.\<close>

fun scaleDownLoop ::
    "(workload \<Rightarrow> ('w, err option) state) \<Rightarrow> string \<Rightarrow> workload list \<Rightarrow> string list \<Rightarrow> ('w, string list) state" where
  "scaleDownLoop freeze pre [] affected = return affected"
| "scaleDownLoop freeze pre (d # ds) affected = do {
     e \<leftarrow> freeze d;
     scaleDownLoop freeze pre ds
       (if e \<noteq> None then affected else affected @ [pre @ Name (workload_Meta d)])
   }"

definition handleNodeFailureEvent :: "'w api \<Rightarrow> policy \<Rightarrow> ('w, err + string list) state" where
  "handleNodeFailureEvent a policy = do {
     _ \<leftarrow> forceDeleteTerminatingPods a policy (FailedNodeName (Status policy));
     if Phase (Status policy) = PhaseFrozen then return (Inr [])
     else do {
       r \<leftarrow> findFullyLocalWorkloads a policy (FailedNodeName (Status policy));
       (case r of
          Inl e \<Rightarrow> return (Inl e)
        | Inr (ds, ss) \<Rightarrow> do {
            affected \<leftarrow> scaleDownLoop (\<lambda>d. freezeDeployment a d None) ''deploy/'' ds [];
            affected \<leftarrow> scaleDownLoop (\<lambda>d. freezeStatefulSet a d None) ''sts/'' ss affected;
            return (Inr affected)
          })
     }
   }"

definition degradedMessage :: "string \<Rightarrow> string list \<Rightarrow> string" where
  "degradedMessage failedNode affectedWorkloads =
     (if affectedWorkloads = []
      then ''Node '' @ failedNode @ '' failed; no workloads were fully local to this node''
      else ''Node '' @ failedNode @ '' failed; scaled down workloads: '' @ Join '', '' affectedWorkloads)"

fun replaceDegraded :: "condition \<Rightarrow> condition list \<Rightarrow> condition list option" where
  "replaceDegraded newCond [] = None"
| "replaceDegraded newCond (c # cs) =
     (if cond_Type c = ''Degraded'' then Some (newCond # cs)
      else map_option ((#) c) (replaceDegraded newCond cs))"

definition setDegradedCondition :: "time \<Rightarrow> condition list \<Rightarrow> string \<Rightarrow> string list \<Rightarrow> condition list" where
  "setDegradedCondition now conditions failedNode affectedWorkloads =
     (let newCond = \<lparr>cond_Type = ''Degraded'', cond_Status = ''True'', cond_Reason = ''NodeFailure'',
            cond_Message = degradedMessage failedNode affectedWorkloads, cond_LastTransitionTime = now\<rparr>
      in case replaceDegraded newCond conditions of
           Some cs \<Rightarrow> cs
         | None \<Rightarrow> conditions @ [newCond])"

definition clearDegradedCondition :: "condition list \<Rightarrow> condition list" where
  "clearDegradedCondition conditions = filter (\<lambda>c. cond_Type c \<noteq> ''Degraded'') conditions"

text \<open>
  The status written by the startup scan; the result also carries the caller's copy of the
  policy, whose status the function replaces.
\<close>

definition startupFailureStatus ::
    "string \<Rightarrow> time \<Rightarrow> time \<Rightarrow> time \<Rightarrow> string list \<Rightarrow> policy \<Rightarrow> policyStatus" where
  "startupFailureStatus failedNode now handledAt condTime affected latest =
     (let s = (Status latest)\<lparr>FailedNodeName := failedNode,
            NodeFailureEventDetectedAt := Some now, NodeFailureEventHandledAt := Some handledAt,
            AffectedWorkloads := affected,
            Conditions := setDegradedCondition condTime (Conditions (Status latest)) failedNode affected\<rparr>;
          s = (if OperationId (Spec latest) \<noteq> '''' then s\<lparr>LastHandledOperationId := OperationId (Spec latest)\<rparr>
               else s)
      in s\<lparr>PendingStartupResume := True, ResumeDelayStartedAt := Some handledAt\<rparr>)"

definition HandleNodeFailureAtStartup ::
    "'w api \<Rightarrow> policy \<Rightarrow> string \<Rightarrow> ('w, err option \<times> policy) state" where
  "HandleNodeFailureAtStartup a policy0 failedNode = do {
     now \<leftarrow> Now a;
     let policy = policy0\<lparr>Status := (Status policy0)\<lparr>FailedNodeName := failedNode,
       NodeFailureEventDetectedAt := Some now\<rparr>\<rparr>;
     r \<leftarrow> handleNodeFailureEvent a policy;
     (case r of
        Inl e \<Rightarrow> return (Some e, policy)
      | Inr affected \<Rightarrow> do {
          g \<leftarrow> GetPolicy a (policy_key policy);
          (case g of
             Inl e \<Rightarrow> return (Some e, policy)
           | Inr latest \<Rightarrow> do {
               handledAt \<leftarrow> Now a;
               condTime \<leftarrow> Now a;
               let latest = latest\<lparr>Status := startupFailureStatus failedNode now handledAt condTime affected latest\<rparr>;
               e \<leftarrow> UpdatePolicyStatus a latest;
               (case e of
                  Some err \<Rightarrow> return (Some err, policy)
                | None \<Rightarrow> return (None, policy\<lparr>Status := Status latest\<rparr>))
             })
        })
   }"

subsection \<open>Counting pods\<close>

lemma resolve_kind:
  "result (resolveWorkloadOwnerUID a pod) w = Inr (k, u) \<Longrightarrow> k \<in> {'''', ''Deployment'', ''StatefulSet''}"
proof -
  have "result (resolveRefs a ns refs) v = Inr (k, u) \<Longrightarrow> k \<in> {'''', ''Deployment'', ''StatefulSet''}" for ns refs v
    by (induction refs) (auto split: if_splits sum.splits option.splits)
  then show "result (resolveWorkloadOwnerUID a pod) w = Inr (k, u) \<Longrightarrow> ?thesis"
    by (simp add: resolveWorkloadOwnerUID_def)
qed

definition bump :: "string \<Rightarrow> pod \<times> string \<Rightarrow> workloadEntry option \<Rightarrow> workloadEntry option" where
  "bump f pk e =
     (let e = (case e of Some e \<Rightarrow> e | None \<Rightarrow> \<lparr>entry_kind = snd pk, totalPods = 0, failedNodePods = 0\<rparr>)
      in Some (e\<lparr>totalPods := totalPods e + 1,
                 failedNodePods := failedNodePods e + (if NodeName (fst pk) = f then 1 else 0)\<rparr>))"

lemma countPod_map_of:
  "map_of (countPod f pod (k, u) ws) x = (if x = u then bump f (pod, k) (map_of ws u) else map_of ws x)"
  by (auto simp: countPod_def bump_def Let_def update_conv split: option.split)

text \<open>
  The owners of the pods that count, as the run resolves them, and the pods counted for one UID,
  with the kind of their owner.
\<close>

fun resolveAll :: "'w api \<Rightarrow> pod list \<Rightarrow> ('w, (pod \<times> (err + string \<times> string)) list) state" where
  "resolveAll a [] = return []"
| "resolveAll a (pod # pods) =
     (if skipPod pod then resolveAll a pods
      else do {
        r \<leftarrow> resolveWorkloadOwnerUID a pod;
        rs \<leftarrow> resolveAll a pods;
        return ((pod, r) # rs)
      })"

lemma resolveAll_kind:
  "(p, Inr (k, u)) \<in> set (result (resolveAll a pods) w) \<Longrightarrow> k \<in> {'''', ''Deployment'', ''StatefulSet''}"
proof (induction pods arbitrary: w)
  case (Cons q pods)
  then show ?case
    using resolve_kind [of a q w k u] by (auto split: if_splits)
qed simp

definition podsOf ::
    "(string \<rightharpoonup> workload) \<Rightarrow> (string \<rightharpoonup> workload) \<Rightarrow> string \<Rightarrow> (pod \<times> (err + string \<times> string)) list \<Rightarrow>
     (pod \<times> string) list" where
  "podsOf ds ss x prs = List.map_filter (\<lambda>(p, r).
     case trackedOwner ds ss r of
       Some (k, u) \<Rightarrow> if u = x then Some (p, k) else None
     | None \<Rightarrow> None) prs"

lemma countPods_map_of:
  "map_of (result (countPods a ds ss f pods ws) w) x =
     fold (bump f) (podsOf ds ss x (result (resolveAll a pods) w)) (map_of ws x)"
proof (induction pods arbitrary: ws w)
  case Nil
  then show ?case by (simp add: podsOf_def map_filter_simps)
next
  case (Cons p pods)
  then show ?case
    by (auto simp: podsOf_def map_filter_simps countPod_map_of split: option.split)
qed

lemma fold_bump_Some:
  "fold (bump f) ps (Some e) = Some (e\<lparr>totalPods := totalPods e + int (length ps),
     failedNodePods := failedNodePods e + int (length (filter (\<lambda>p. NodeName (fst p) = f) ps))\<rparr>)"
  by (induction ps arbitrary: e) (simp_all add: bump_def)

lemma fold_bump_Cons:
  "fold (bump f) (q # ps) None = Some \<lparr>entry_kind = snd q, totalPods = int (length (q # ps)),
     failedNodePods = int (length (filter (\<lambda>p. NodeName (fst p) = f) (q # ps)))\<rparr>"
  by (simp add: bump_def fold_bump_Some)

lemma all_counted: "length (filter P ps) = length ps \<longleftrightarrow> (\<forall>p \<in> set ps. P p)"
  by (induction ps) (auto, metis Suc_n_not_le_n length_filter_le)

lemma fold_bump_None:
  assumes "fold (bump f) ps None = Some e"
  shows "ps \<noteq> []" and "entry_kind e = snd (hd ps)"
    and "fullyLocal e \<longleftrightarrow> (\<forall>p \<in> set ps. NodeName (fst p) = f)"
proof -
  show ps: "ps \<noteq> []" using assms by auto
  then obtain q qs where qs: "ps = q # qs" by (cases ps) auto
  have e: "e = \<lparr>entry_kind = snd q, totalPods = int (length ps),
      failedNodePods = int (length (filter (\<lambda>p. NodeName (fst p) = f) ps))\<rparr>"
    using assms unfolding qs fold_bump_Cons by simp
  then show "entry_kind e = snd (hd ps)" by (simp add: qs)
  have "fullyLocal e \<longleftrightarrow> length (filter (\<lambda>p. NodeName (fst p) = f) ps) = length ps"
    using ps by (auto simp: fullyLocal_def e)
  then show "fullyLocal e \<longleftrightarrow> (\<forall>p \<in> set ps. NodeName (fst p) = f)" by (simp only: all_counted)
qed

lemma fold_bump_empty: "fold (bump f) ps None = None \<longleftrightarrow> ps = []"
  by (cases ps) (simp_all only: fold_bump_Cons, simp_all)

lemma podsOf_set:
  "(p, k) \<in> set (podsOf ds ss x prs) \<longleftrightarrow> (\<exists>r. (p, r) \<in> set prs \<and> trackedOwner ds ss r = Some (k, x))"
proof (induction prs)
  case (Cons q prs)
  obtain p' r where q: "q = (p', r)" by (cases q)
  show ?case
    using Cons by (auto simp: q podsOf_def map_filter_simps split: option.splits if_splits)
qed (simp add: podsOf_def map_filter_simps)

subsection \<open>The workloads found\<close>

lemma byUID_Some:
  assumes "distinct (map workload_UID items)"
  shows "byUID items u = Some d \<longleftrightarrow> d \<in> set items \<and> workload_UID d = u"
proof -
  have "distinct (map fst (rev (map (\<lambda>d. (workload_UID d, d)) items)))"
    using assms by (simp add: rev_map comp_def flip: map_map) (simp add: rev_map [symmetric] comp_def)
  from map_of_eq_Some_iff [OF this, of u d] show ?thesis
    by (auto simp: byUID_def)
qed

definition range_law :: "'w api \<Rightarrow> bool" where
  "range_law a \<longleftrightarrow> (\<forall>ks. set (RangeOrder a ks) = set ks)"

text \<open>Some counting pod belongs to the workload, and all of them are on the node.\<close>

definition allOn :: "string \<Rightarrow> (pod \<times> (err + string \<times> string)) list \<Rightarrow> string \<Rightarrow> workload \<Rightarrow> bool" where
  "allOn kind prs f d \<longleftrightarrow>
     (\<exists>p. (p, Inr (kind, workload_UID d)) \<in> set prs) \<and>
     (\<forall>p. (p, Inr (kind, workload_UID d)) \<in> set prs \<longrightarrow> NodeName p = f)"

lemma trackedOwner_kinds:
  assumes "distinct (map workload_UID (ds @ ss))"
    and "\<And>k u. r = Inr (k, u) \<Longrightarrow> k \<in> {'''', ''Deployment'', ''StatefulSet''}"
  shows "d \<in> set ds \<Longrightarrow> trackedOwner (byUID ds) (byUID ss) r = Some (k, workload_UID d) \<longleftrightarrow>
      k = ''Deployment'' \<and> r = Inr (''Deployment'', workload_UID d)"
    and "d \<in> set ss \<Longrightarrow> trackedOwner (byUID ds) (byUID ss) r = Some (k, workload_UID d) \<longleftrightarrow>
      k = ''StatefulSet'' \<and> r = Inr (''StatefulSet'', workload_UID d)"
proof -
  have dd: "distinct (map workload_UID ds)" "distinct (map workload_UID ss)"
    using assms(1) by simp_all
  have disj: "workload_UID x \<noteq> workload_UID y" if "x \<in> set ds" "y \<in> set ss" for x y
    using assms(1) that by (auto simp: disjoint_iff)
  have no: "byUID ss (workload_UID d) = None" "byUID ds (workload_UID d) = Some d" if "d \<in> set ds"
    using that disj byUID_Some [OF dd(2), of "workload_UID d"] byUID_Some [OF dd(1), of "workload_UID d" d]
    by (metis not_None_eq, blast)
  have no': "byUID ds (workload_UID d) = None" "byUID ss (workload_UID d) = Some d" if "d \<in> set ss"
    using that disj byUID_Some [OF dd(1), of "workload_UID d"] byUID_Some [OF dd(2), of "workload_UID d" d]
    by (metis not_None_eq, blast)
  show "d \<in> set ds \<Longrightarrow> trackedOwner (byUID ds) (byUID ss) r = Some (k, workload_UID d) \<longleftrightarrow>
      k = ''Deployment'' \<and> r = Inr (''Deployment'', workload_UID d)"
    and "d \<in> set ss \<Longrightarrow> trackedOwner (byUID ds) (byUID ss) r = Some (k, workload_UID d) \<longleftrightarrow>
      k = ''StatefulSet'' \<and> r = Inr (''StatefulSet'', workload_UID d)"
    using assms(2) no no' by (auto simp: trackedOwner_def split: sum.splits if_splits)
qed

lemma selectLocal_set:
  "d \<in> set (selectLocal kind allowed ws uids) \<longleftrightarrow>
     (\<exists>u \<in> set uids. \<exists>e. map_of ws u = Some e \<and> fullyLocal e \<and> entry_kind e = kind \<and> allowed u = Some d)"
  by (induction uids) (auto simp: selectLocal_def map_filter_simps split: option.splits)

lemma selectLocal_allOn:
  assumes "range_law a" and "distinct (map workload_UID items)"
    and W: "\<And>x. map_of ws x = fold (bump f) (podsOf ds ss x prs) None"
    and tr: "\<And>d p r k. d \<in> set items \<Longrightarrow> (p, r) \<in> set prs \<Longrightarrow>
      trackedOwner ds ss r = Some (k, workload_UID d) \<longleftrightarrow> k = kind \<and> r = Inr (kind, workload_UID d)"
  shows "set (selectLocal kind (byUID items) ws (RangeOrder a (map fst ws))) =
    {d \<in> set items. allOn kind prs f d}"
proof (intro set_eqI)
  fix d
  let ?P = "podsOf ds ss (workload_UID d) prs"
  have mem: "u \<in> set (RangeOrder a (map fst ws)) \<longleftrightarrow> map_of ws u \<noteq> None" for u
    using assms(1) by (simp add: range_law_def map_of_eq_None_iff)
  have ps: "(p, k) \<in> set ?P \<longleftrightarrow> k = kind \<and> (p, Inr (kind, workload_UID d)) \<in> set prs"
    if "d \<in> set items" for p k
    unfolding podsOf_set by (auto simp: tr [OF that] cong: conj_cong)
  have "(\<exists>e. map_of ws (workload_UID d) = Some e \<and> fullyLocal e \<and> entry_kind e = kind) \<longleftrightarrow>
      allOn kind prs f d" if d: "d \<in> set items"
  proof (cases ?P)
    case Nil
    then show ?thesis using ps [OF d] by (auto simp: W allOn_def)
  next
    case (Cons q qs)
    then obtain e where e: "map_of ws (workload_UID d) = Some e"
      using fold_bump_empty [of f ?P] by (auto simp: W)
    note fb = fold_bump_None [OF e [unfolded W]]
    have "hd ?P \<in> set ?P" using fb(1) by simp
    then have "entry_kind e = kind" using fb(2) ps [OF d] by (metis prod.collapse)
    moreover have "(\<forall>x \<in> set ?P. NodeName (fst x) = f) \<longleftrightarrow>
        (\<forall>p. (p, Inr (kind, workload_UID d)) \<in> set prs \<longrightarrow> NodeName p = f)"
      unfolding Ball_def split_paired_All ps [OF d] by auto
    moreover have "\<exists>p. (p, Inr (kind, workload_UID d)) \<in> set prs"
      using ps [OF d, of "fst q" "snd q"] Cons by auto
    ultimately have "entry_kind e = kind" "fullyLocal e \<longleftrightarrow> allOn kind prs f d"
      unfolding fb(3) allOn_def by blast+
    then show ?thesis using e by simp
  qed
  then show "d \<in> set (selectLocal kind (byUID items) ws (RangeOrder a (map fst ws))) \<longleftrightarrow>
      d \<in> {d \<in> set items. allOn kind prs f d}"
    unfolding selectLocal_set Bex_def mem byUID_Some [OF assms(2)] by auto
qed

lemma forceDeleteLoop_filter:
  "forceDeleteLoop a f pods = for_each (filter (ghostPod f) pods) (\<lambda>p. DeletePod a p 0)"
  by (induction pods) (auto simp: ghostPod_def)

lemma replaceDegraded_None: "replaceDegraded c cs = None \<longleftrightarrow> (\<forall>x \<in> set cs. cond_Type x \<noteq> ''Degraded'')"
  by (induction cs) auto

lemma clear_replaceDegraded:
  "replaceDegraded c cs = Some cs' \<Longrightarrow> cond_Type c = ''Degraded'' \<Longrightarrow>
     clearDegradedCondition cs' = clearDegradedCondition cs \<and>
     length (filter (\<lambda>x. cond_Type x = ''Degraded'') cs') = length (filter (\<lambda>x. cond_Type x = ''Degraded'') cs) \<and>
     c \<in> set cs'"
  by (induction cs arbitrary: cs') (auto simp: clearDegradedCondition_def split: if_splits)

subsection \<open>On a quiet cluster\<close>

lemma looks_list:
  assumes "quiet_cluster a view"
  shows "looks view (listDeployments a ns sel)" and "looks view (listStatefulSets a ns sel)"
  unfolding listDeployments_def listStatefulSets_def
  by (auto simp: looks_def quiet_view [OF assms] split: option.split sum.split)

lemma looks_findFullyLocal:
  assumes "quiet_cluster a view"
  shows "looks view (findFullyLocalWorkloads a policy f)"
proof -
  have "looks view (resolveRefs a ns refs)" for ns refs
    by (induction refs) (auto simp: looks_def quiet_view [OF assms])
  then have res: "looks view (resolveWorkloadOwnerUID a pod)" for pod
    by (simp add: resolveWorkloadOwnerUID_def)
  have "looks view (countPods a ds ss f pods ws)" for ds ss pods ws
    by (induction pods arbitrary: ws) (auto intro!: looks_intros res)
  then show ?thesis
    unfolding findFullyLocalWorkloads_def Let_def
    by (intro looks_intros looks_list [OF assms] looks_calls [OF assms])
qed

lemma forceDelete_quiet:
  assumes "quiet_cluster a view"
  shows "\<exists>ps. view (final (forceDeleteTerminatingPods a policy f) w) = (view w)\<lparr>cPods := ps\<rparr>"
proof -
  have loop: "\<exists>ps. view (final (for_each xs (\<lambda>p. DeletePod a p 0)) v) = (view v)\<lparr>cPods := ps\<rparr>" for xs v
  proof (induction xs arbitrary: v)
    case Nil
    show ?case by (rule exI [of _ "cPods (view v)"]) simp
  next
    case (Cons x xs)
    show ?case
      using Cons.IH [of "final (DeletePod a x 0) v"] quiet_writeD(5) [OF assms, of x 0 v] by auto
  qed
  show ?thesis
  proof (cases "result (ListPods a (Some (TargetNamespace (Spec policy)))) w")
    case (Inl e)
    then show ?thesis
      by (intro exI [of _ "cPods (view w)"]) (simp add: forceDeleteTerminatingPods_def quiet_view [OF assms])
  next
    case (Inr pods)
    then show ?thesis
      using loop [of "filter (ghostPod f) pods" "final (ListPods a (Some (TargetNamespace (Spec policy)))) w"]
      by (simp add: forceDeleteTerminatingPods_def forceDeleteLoop_filter quiet_view [OF assms])
  qed
qed

lemma scaleDownLoop_final: "final (scaleDownLoop fr pre ds aff) w = final (for_each ds fr) w"
  by (induction ds arbitrary: aff w) simp_all

lemma scaleDownLoop_result:
  "result (for_until_error ds fr) w = None \<Longrightarrow>
     result (scaleDownLoop fr pre ds aff) w = aff @ map (\<lambda>d. pre @ Name (workload_Meta d)) ds"
  by (induction ds arbitrary: aff w) (auto split: option.splits)

lemma handleNodeFailureEvent_policies:
  assumes "quiet_cluster a view"
  shows "cPolicies (view (final (handleNodeFailureEvent a policy) w)) = cPolicies (view w)"
proof -
  have fd: "cPolicies (view (final (forceDeleteTerminatingPods a policy f) v)) = cPolicies (view v)" for f v
    using forceDelete_quiet [OF assms, of policy f v] by auto
  have d: "cPolicies (view (final (for_each ds (\<lambda>d. freezeDeployment a d None)) v)) = cPolicies (view v)" for ds v
  proof (induction ds arbitrary: v)
    case (Cons d ds)
    then show ?case using deployment_ops.freeze_only [OF assms, of d None v] by auto
  qed simp
  have s: "cPolicies (view (final (for_each ds (\<lambda>d. freezeStatefulSet a d None)) v)) = cPolicies (view v)" for ds v
  proof (induction ds arbitrary: v)
    case (Cons d ds)
    then show ?case using statefulSet_ops.freeze_only [OF assms, of d None v] by auto
  qed simp
  show ?thesis
    by (auto simp: handleNodeFailureEvent_def fd scaleDownLoop_final d s
        looks_final [OF looks_findFullyLocal [OF assms]] split: sum.split)
qed

subsection \<open>Properties\<close>

text \<open>
  C14: a node failure scales down exactly the workloads that are entirely on the failed node:
  of the workloads the policy selects, those that own at least one live pod (neither finished nor
  terminating) and whose live pods are all on that node. The order in which Go visits its map
  does not matter.
\<close>

theorem findFullyLocalWorkloads_exact:
  assumes "range_law a"
    and "result (listDeployments a (TargetNamespace (Spec p)) (Selector (Spec p))) w = Inr ds"
    and "v = final (listDeployments a (TargetNamespace (Spec p)) (Selector (Spec p))) w"
    and "result (listStatefulSets a (TargetNamespace (Spec p)) (Selector (Spec p))) v = Inr ss"
    and "v' = final (listStatefulSets a (TargetNamespace (Spec p)) (Selector (Spec p))) v"
    and "run_state (ListPods a (Some (TargetNamespace (Spec p)))) v' = (Inr pods, v'')"
    and uids: "distinct (map workload_UID (ds @ ss))"
    and "owners = result (resolveAll a pods) v''"
  shows "\<exists>dl sl. result (findFullyLocalWorkloads a p f) w = Inr (dl, sl) \<and>
    set dl = {d \<in> set ds. allOn ''Deployment'' owners f d} \<and>
    set sl = {d \<in> set ss. allOn ''StatefulSet'' owners f d}"
proof -
  let ?ws = "result (countPods a (byUID ds) (byUID ss) f pods []) v''"
  have W: "map_of ?ws x = fold (bump f) (podsOf (byUID ds) (byUID ss) x owners) None" for x
    unfolding countPods_map_of assms(8) by simp
  have kinds: "k \<in> {'''', ''Deployment'', ''StatefulSet''}" if "(q, r) \<in> set owners" "r = Inr (k, u)" for q r k u
    using resolveAll_kind [of q k u a pods v''] that assms(8) by simp
  have d: "distinct (map workload_UID ds)" "distinct (map workload_UID ss)" using uids by simp_all
  have "set (selectLocal ''Deployment'' (byUID ds) ?ws (RangeOrder a (map fst ?ws))) =
      {d \<in> set ds. allOn ''Deployment'' owners f d}"
    by (rule selectLocal_allOn [OF assms(1) d(1) W]) (rule trackedOwner_kinds(1) [OF uids kinds])
  moreover have "set (selectLocal ''StatefulSet'' (byUID ss) ?ws (RangeOrder a (map fst ?ws))) =
      {d \<in> set ss. allOn ''StatefulSet'' owners f d}"
    by (rule selectLocal_allOn [OF assms(1) d(2) W]) (rule trackedOwner_kinds(2) [OF uids kinds])
  ultimately show ?thesis
    using assms(2-6) by (simp add: findFullyLocalWorkloads_def Let_def)
qed

definition failure_mem :: mem where
  "failure_mem = sample_mem\<lparr>mReplicaSets := [((''shop'', ''rs''),
       \<lparr>rs_OwnerReferences = [\<lparr>owner_Kind = ''Deployment'', owner_Name = ''web'', owner_UID = ''shopweb''\<rparr>]\<rparr>)],
     mPods := [(sample_pod ''web-1'' PodRunning '''')\<lparr>OwnerReferences :=
       [\<lparr>owner_Kind = ''ReplicaSet'', owner_Name = ''rs'', owner_UID = ''u''\<rparr>]\<rparr>]\<rparr>"

lemma failure_owners:
  "result (resolveAll mem_api (mPods failure_mem)) failure_mem =
     [(hd (mPods failure_mem), Inr (''Deployment'', ''shopweb''))]"
  by (simp add: failure_mem_def sample_pod_def sample_meta_def skipPod_def resolveWorkloadOwnerUID_def
      mem_ops mem_found_def)

lemma failure_lists:
  "run_state (listDeployments mem_api ''shop'' None) failure_mem = (Inr [sample_workload ''web'' 3], failure_mem)"
  "run_state (listStatefulSets mem_api ''shop'' None) failure_mem = (Inr [sample_workload ''db'' 2], failure_mem)"
  "run_state (ListPods mem_api (Some ''shop'')) failure_mem = (Inr (mPods failure_mem), failure_mem)"
  by (simp_all add: listDeployments_def listStatefulSets_def mem_ops mem_selects_def list_keys_def by_key_def
      failure_mem_def sample_pod_def sample_defs key_defs)

theorem findFullyLocalWorkloads_exact_witness:
  "\<exists>dl sl. result (findFullyLocalWorkloads mem_api (sample_policy ''p'') ''n1'') failure_mem = Inr (dl, sl) \<and>
     set dl = {sample_workload ''web'' 3} \<and> set sl = {}"
proof -
  have s: "TargetNamespace (Spec (sample_policy ''p'')) = ''shop''" "Selector (Spec (sample_policy ''p'')) = None"
    by (simp_all add: sample_defs)
  have u: "distinct (map workload_UID ([sample_workload ''web'' 3] @ [sample_workload ''db'' 2]))"
    by (simp add: sample_defs)
  have r: "range_law mem_api" by (simp add: range_law_def mem_ops)
  have a: "allOn ''Deployment'' (result (resolveAll mem_api (mPods failure_mem)) failure_mem) ''n1'' (sample_workload ''web'' 3)"
    "\<not> allOn ''StatefulSet'' (result (resolveAll mem_api (mPods failure_mem)) failure_mem) ''n1'' (sample_workload ''db'' 2)"
    unfolding failure_owners by (simp_all add: allOn_def failure_mem_def sample_pod_def sample_defs)
  show ?thesis
    using findFullyLocalWorkloads_exact [OF r, where p = "sample_policy ''p''" and w = failure_mem
        and ds = "[sample_workload ''web'' 3]" and ss = "[sample_workload ''db'' 2]" and v = failure_mem
        and v' = failure_mem and pods = "mPods failure_mem" and v'' = failure_mem and f = "''n1''"
        and owners = "result (resolveAll mem_api (mPods failure_mem)) failure_mem", unfolded s, OF _ _ _ _ _ u refl]
      a by (auto simp: failure_lists Collect_conv_if)
qed

text \<open>
  Only pods that are already terminating on the failed node are force-deleted, each with
  grace period 0, in list order, and nothing when the pods cannot be listed; errors do not stop
  the loop.
\<close>

theorem forceDelete_only_ghosts:
  "run_state (forceDeleteTerminatingPods a policy f) w =
     (let r = ListPods a (Some (TargetNamespace (Spec policy))) in
      case result r w of
        Inl e \<Rightarrow> ((), final r w)
      | Inr pods \<Rightarrow>
          run_state (for_each (filter (\<lambda>p. NodeName p = f \<and> DeletionTimestamp (pod_Meta p) \<noteq> None) pods)
            (\<lambda>p. DeletePod a p 0)) (final r w))"
  by (simp add: forceDeleteTerminatingPods_def forceDeleteLoop_filter ghostPod_def [abs_def] Let_def
      split: sum.splits)

text \<open>
  Setting the Degraded condition leaves all other conditions as they are and in order, never
  adds a second one, and clearing it gives back the list without it.
\<close>

theorem setDegradedCondition_frame:
  "clearDegradedCondition (setDegradedCondition now cs f ws) = clearDegradedCondition cs \<and>
   (\<exists>c \<in> set (setDegradedCondition now cs f ws).
      cond_Type c = ''Degraded'' \<and> cond_Status c = ''True'' \<and> cond_Message c = degradedMessage f ws) \<and>
   length (filter (\<lambda>c. cond_Type c = ''Degraded'') (setDegradedCondition now cs f ws)) =
     max 1 (length (filter (\<lambda>c. cond_Type c = ''Degraded'') cs))"
proof -
  let ?c = "\<lparr>cond_Type = ''Degraded'', cond_Status = ''True'', cond_Reason = ''NodeFailure'',
    cond_Message = degradedMessage f ws, cond_LastTransitionTime = now\<rparr>"
  show ?thesis
  proof (cases "replaceDegraded ?c cs")
    case None
    then have "filter (\<lambda>c. cond_Type c = ''Degraded'') cs = []"
      by (simp add: replaceDegraded_None filter_empty_conv)
    then show ?thesis
      using None by (simp add: setDegradedCondition_def clearDegradedCondition_def)
  next
    case (Some cs')
    then have "\<exists>x \<in> set cs. cond_Type x = ''Degraded''"
      using replaceDegraded_None [of ?c cs] by auto
    then have "filter (\<lambda>c. cond_Type c = ''Degraded'') cs \<noteq> []"
      by (auto simp: filter_empty_conv)
    then have "max 1 (length (filter (\<lambda>c. cond_Type c = ''Degraded'') cs)) =
        length (filter (\<lambda>c. cond_Type c = ''Degraded'') cs)"
      by (cases "filter (\<lambda>c. cond_Type c = ''Degraded'') cs") auto
    moreover have "setDegradedCondition now cs f ws = cs'"
      using Some by (simp add: setDegradedCondition_def)
    ultimately show ?thesis
      using clear_replaceDegraded [OF Some] by (auto intro!: bexI [of _ ?c])
  qed
qed

text \<open>
  C28: handling a node failure freezes exactly the workloads found to be local, without a change
  of their grace period, and reports their names; a policy that is already frozen writes no
  workload at all. Pods apart, no other object changes.
\<close>

theorem handleNodeFailureEvent_scales_down:
  assumes "quiet_cluster a view"
    and "w1 = final (forceDeleteTerminatingPods a policy (FailedNodeName (Status policy))) w"
    and "result (findFullyLocalWorkloads a policy (FailedNodeName (Status policy))) w1 = Inr (ds, ss)"
    and "deployments.listed (view w) ds" and "statefulSets.listed (view w) ss"
  shows "\<exists>ps. if Phase (Status policy) = PhaseFrozen
    then result (handleNodeFailureEvent a policy) w = Inr [] \<and>
      view (final (handleNodeFailureEvent a policy) w) = (view w)\<lparr>cPods := ps\<rparr>
    else result (handleNodeFailureEvent a policy) w =
        Inr (map (\<lambda>d. ''deploy/'' @ Name (workload_Meta d)) ds @ map (\<lambda>d. ''sts/'' @ Name (workload_Meta d)) ss) \<and>
      view (final (handleNodeFailureEvent a policy) w) = (view w)\<lparr>cPods := ps,
        cDeployments := on_keys (deployment_ops.frozen None) (workload_key ` set ds) (cDeployments (view w)),
        cStatefulSets := on_keys (statefulSet_ops.frozen None) (workload_key ` set ss) (cStatefulSets (view w))\<rparr>"
proof -
  let ?f = "FailedNodeName (Status policy)"
  obtain ps where ps: "view w1 = (view w)\<lparr>cPods := ps\<rparr>"
    using forceDelete_quiet [OF assms(1)] assms(2) by blast
  let ?w2 = "final (findFullyLocalWorkloads a policy ?f) w1"
  have v2: "view ?w2 = (view w)\<lparr>cPods := ps\<rparr>"
    using looks_final [OF looks_findFullyLocal [OF assms(1)]] ps by simp
  have l: "deployments.listed (view ?w2) ds"
    using assms(4) v2 by (simp add: deployments.listed_def)
  note d = deployment_ops.freeze_loop [OF assms(1) l, of None]
  let ?w3 = "final (for_each ds (\<lambda>d. freezeDeployment a d None)) ?w2"
  have l': "statefulSets.listed (view ?w3) ss"
    using assms(5) by (simp add: d(3) v2 statefulSets.listed_def)
  note s = statefulSet_ops.freeze_loop [OF assms(1) l', of None]
  show ?thesis
    using assms(3) by (intro exI [of _ ps])
      (simp add: handleNodeFailureEvent_def assms(2) [symmetric] ps scaleDownLoop_final d s v2
        scaleDownLoop_result [OF d(1)] scaleDownLoop_result [OF s(1)])
qed

theorem handleNodeFailureEvent_scales_down_witness:
  "result (handleNodeFailureEvent mem_api ((sample_policy ''p'')\<lparr>Status := empty_status\<lparr>FailedNodeName := ''n1''\<rparr>\<rparr>)) failure_mem =
     Inr [''deploy/web'']"
proof -
  let ?p = "(sample_policy ''p'')\<lparr>Status := empty_status\<lparr>FailedNodeName := ''n1''\<rparr>\<rparr>"
  have fd: "final (forceDeleteTerminatingPods mem_api ?p ''n1'') failure_mem = failure_mem"
    by (simp add: forceDeleteTerminatingPods_def mem_ops failure_mem_def sample_pod_def sample_defs)
  have s: "TargetNamespace (Spec ?p) = ''shop''" "Selector (Spec ?p) = None"
    by (simp_all add: sample_defs)
  have own: "resolveWorkloadOwnerUID mem_api (hd (mPods failure_mem)) =
      resolveRefs mem_api ''shop'' [\<lparr>owner_Kind = ''ReplicaSet'', owner_Name = ''rs'', owner_UID = ''u''\<rparr>]"
    by (simp add: resolveWorkloadOwnerUID_def failure_mem_def sample_pod_def sample_meta_def)
  have pods: "mPods failure_mem = [hd (mPods failure_mem)]" "\<not> skipPod (hd (mPods failure_mem))"
    "NodeName (hd (mPods failure_mem)) = ''n1''"
    by (simp_all add: failure_mem_def sample_pod_def sample_meta_def skipPod_def)
  have rs: "result (GetReplicaSet mem_api (''shop'', ''rs'')) failure_mem =
      Inr \<lparr>rs_OwnerReferences = [\<lparr>owner_Kind = ''Deployment'', owner_Name = ''web'', owner_UID = ''shopweb''\<rparr>]\<rparr>"
    by (simp add: mem_ops mem_found_def failure_mem_def)
  have ro: "RangeOrder mem_api = rev" by (simp add: mem_ops)
  have uids: "byUID [sample_workload ''web'' 3] = [''shopweb'' \<mapsto> sample_workload ''web'' 3]"
    "byUID [sample_workload ''db'' 2] = [''shopdb'' \<mapsto> sample_workload ''db'' 2]"
    by (simp_all add: byUID_def sample_defs)
  have "result (countPods mem_api (byUID [sample_workload ''web'' 3]) (byUID [sample_workload ''db'' 2]) ''n1''
      (mPods failure_mem) []) failure_mem = [(''shopweb'', \<lparr>entry_kind = ''Deployment'', totalPods = 1, failedNodePods = 1\<rparr>)]"
    by (subst pods(1)) (use pods(2,3) rs in \<open>simp add: own trackedOwner_def uids countPod_def\<close>)
  then have "result (findFullyLocalWorkloads mem_api ?p ''n1'') failure_mem = Inr ([sample_workload ''web'' 3], [])"
    unfolding findFullyLocalWorkloads_def s
    by (simp add: failure_lists Let_def ro selectLocal_def map_filter_simps fullyLocal_def uids)
  moreover have "deployments.listed (mem_view failure_mem) [sample_workload ''web'' 3]"
    by (simp add: deployments.listed_def mem_view_def lookup_key_def by_key_def failure_mem_def sample_mem_def)
  ultimately show ?thesis
    using handleNodeFailureEvent_scales_down [OF mem_quiet, of failure_mem ?p failure_mem
        "[sample_workload ''web'' 3]" "[]"] fd
    by (simp add: sample_defs statefulSets.listed_def)
qed



end
