(* ===== verification/Startup.thy ===== *)
theory Startup
  imports NodeFailure "HOL-Library.Multiset"
begin

text \<open>
  What happens once, when the operator starts: \<open>ApplyStartupPolicy\<close> and the node readiness check
  behind it (\<open>src/internal/controller/namespacelifecyclepolicy_controller.go\<close>), and from
  \<open>src/cmd/main.go\<close> the wait for a namespace to be scaled down, the processing of one freeze policy,
  \<open>applyStartupPolicies\<close> with its freeze groups, node failure pre-scan and marking of the resume
  policies, and the runnable that polls the nodes first and raises \<open>startupComplete\<close> last.

  Loops bounded by a clock take fuel, one unit per round; \<open>None\<close> is a run without enough of it.
\<close>

subsection \<open>Counting nodes\<close>

definition selectorOrWorkers :: "nodeSelector option \<Rightarrow> nodeSelector" where
  "selectorOrWorkers sel =
     (case sel of None \<Rightarrow> workerSelector | Some s \<Rightarrow> if s = [] then workerSelector else s)"

definition matchesSelector :: "nodeSelector \<Rightarrow> node \<Rightarrow> bool" where
  "matchesSelector sel node \<longleftrightarrow> list_all (\<lambda>(k, v). Labels (node_Meta node) k = Some v) sel"

definition countTotalWorkerNodes :: "'w api \<Rightarrow> nodeSelector option \<Rightarrow> ('w, err + int) state" where
  "countTotalWorkerNodes a nodeSelector = do {
     nodeList \<leftarrow> ListNodes a None;
     return (case nodeList of
        Inl e \<Rightarrow> Inl e
      | Inr nodes \<Rightarrow> Inr (i32 (int (length (filter (matchesSelector (selectorOrWorkers nodeSelector)) nodes)))))
   }"

definition countReadyWorkerNodes :: "'w api \<Rightarrow> nodeSelector option \<Rightarrow> ('w, err + int) state" where
  "countReadyWorkerNodes a nodeSelector = do {
     nodeList \<leftarrow> ListNodes a None;
     return (case nodeList of
        Inl e \<Rightarrow> Inl e
      | Inr nodes \<Rightarrow>
          (let filteredNodes = filter (matchesSelector (selectorOrWorkers nodeSelector)) nodes
           in Inr (i32 (int (length (filter isNodeReady filteredNodes))))))
   }"

subsection \<open>Waiting for nodes\<close>

definition secondsSince :: "'w api \<Rightarrow> time \<Rightarrow> time \<Rightarrow> int" where
  "secondsSince a startTime now = float_to_int32 a (rat_of_int (now - startTime) / rat_of_int Second)"

fun waitForNodesReadyLoop ::
    "nat \<Rightarrow> 'w api \<Rightarrow> nodeSelector option \<Rightarrow> int \<Rightarrow> time \<Rightarrow> ticker \<Rightarrow> time \<Rightarrow>
     ('w, (int \<times> int \<times> err option) option) state" where
  "waitForNodesReadyLoop 0 a sel minNodes startTime tk deadline = return None"
| "waitForNodesReadyLoop (Suc fuel) a sel minNodes startTime tk deadline = do {
     (ev, tk) \<leftarrow> selectTimers a tk (Some deadline);
     (case ev of
        CtxDone e \<Rightarrow> return (Some (0, 0, Some e))
      | TimeoutFired \<Rightarrow> do {
          finalCount \<leftarrow> countReadyWorkerNodes a sel;
          now \<leftarrow> Now a;
          return (Some (case finalCount of
             Inl e \<Rightarrow> (0, secondsSince a startTime now, Some e)
           | Inr n \<Rightarrow> (n, secondsSince a startTime now, None)))
        }
      | TickerFired \<Rightarrow> do {
          count \<leftarrow> countReadyWorkerNodes a sel;
          (case count of
             Inl e \<Rightarrow> waitForNodesReadyLoop fuel a sel minNodes startTime tk deadline
           | Inr n \<Rightarrow> do {
               now \<leftarrow> Now a;
               if n \<ge> minNodes then return (Some (n, secondsSince a startTime now, None))
               else waitForNodesReadyLoop fuel a sel minNodes startTime tk deadline
             })
        })
   }"

definition requiredNodes :: "'w api \<Rightarrow> startupNodeReadinessPolicy \<Rightarrow> ('w, int) state" where
  "requiredNodes a policy =
     (if RequireAllNodes policy then do {
        totalNodes \<leftarrow> countTotalWorkerNodes a (nodes_NodeSelector policy);
        return (case totalNodes of Inl e \<Rightarrow> 1 | Inr n \<Rightarrow> n)
      } else return (if MinReadyNodes policy > 0 then MinReadyNodes policy else 1))"

definition nodesTimeout :: "startupNodeReadinessPolicy \<Rightarrow> int" where
  "nodesTimeout policy = (if nodes_TimeoutSeconds policy > 0 then nodes_TimeoutSeconds policy else 60)"

definition waitForNodesReady ::
    "nat \<Rightarrow> 'w api \<Rightarrow> startupNodeReadinessPolicy \<Rightarrow> ('w, (int \<times> int \<times> err option) option) state" where
  "waitForNodesReady fuel a policy = do {
     minNodes \<leftarrow> requiredNodes a policy;
     startTime \<leftarrow> Now a;
     tk \<leftarrow> NewTicker a (2 * Second);
     armed \<leftarrow> Now a;
     waitForNodesReadyLoop fuel a (nodes_NodeSelector policy) minNodes startTime tk
       (armed + nodesTimeout policy * Second)
   }"

subsection \<open>Applying one startup policy\<close>

definition markStartup :: "'w api \<Rightarrow> policy \<Rightarrow> time \<Rightarrow> string \<Rightarrow> ('w, err option) state" where
  "markStartup a policy now action =
     patchStatus a (policy_key policy) (\<lambda>latestPolicy. (Status latestPolicy)
       \<lparr>LastStartupAction := action, LastStartupAt := Some now\<rparr>)"

text \<open>The node readiness check; its outcome is kept in the caller's copy of the policy only.\<close>

definition checkStartupNodes :: "nat \<Rightarrow> 'w api \<Rightarrow> policy \<Rightarrow> ('w, policy option) state" where
  "checkStartupNodes fuel a policy =
     (case StartupNodeReadinessPolicy (Spec policy) of
        None \<Rightarrow> return (Some policy)
      | Some np \<Rightarrow>
          if \<not> nodes_Enabled np then return (Some policy)
          else do {
            r \<leftarrow> waitForNodesReady fuel a np;
            return (case r of
               None \<Rightarrow> None
             | Some (readyNodes, secondsWaited, err) \<Rightarrow>
                 Some (policy\<lparr>Status := (Status policy)\<lparr>StartupReadyNodes := Some readyNodes,
                   StartupNodesWaited := Some secondsWaited\<rparr>\<rparr>))
          })"

definition pendingMessage :: string where
  "pendingMessage = ''Resume pending '' @ [CHR 0xE2, CHR 0x80, CHR 0x94] @ '' waiting for priority ordering''"

definition startupResumeStatus :: "policy \<Rightarrow> time \<Rightarrow> policy \<Rightarrow> policyStatus" where
  "startupResumeStatus policy now latestPolicy =
     (let s = Status latestPolicy;
          s = (if OperationId (Spec latestPolicy) \<noteq> ''''
               then s\<lparr>LastHandledOperationId := OperationId (Spec latestPolicy)\<rparr> else s);
          s = s\<lparr>PendingStartupResume := True, ResumeDelayStartedAt := Some now, Phase := PhaseIdle\<rparr>;
          s = (if ResumeDelay (Spec policy) > 0
               then s\<lparr>Message := ''Waiting '' @ Duration_String (ResumeDelay (Spec policy)) @ '' before starting Resume'',
                      LastStartupAction := ''RESUME_DELAYED''\<rparr>
               else s\<lparr>Message := pendingMessage, LastStartupAction := ''RESUME_PENDING''\<rparr>)
      in s\<lparr>LastStartupAt := Some now\<rparr>)"

definition startupResume :: "'w api \<Rightarrow> policy \<Rightarrow> time \<Rightarrow> ('w, err option) state" where
  "startupResume a policy now =
     (if Phase (Status policy) = PhaseResumed then markStartup a policy now ''NO_ACTION_ALREADY_RESUMED''
      else patchStatus a (policy_key policy) (startupResumeStatus policy now))"

definition startupFreezeDelayedStatus :: "policy \<Rightarrow> time \<Rightarrow> policy \<Rightarrow> policyStatus" where
  "startupFreezeDelayedStatus policy now latestPolicy = (Status latestPolicy)
     \<lparr>PendingFreeze := True, FreezeDelayStartedAt := Some now, Phase := PhaseIdle,
      Message := ''Waiting '' @ Duration_String (FreezeDelay (Spec policy)) @ '' before starting startup Freeze'',
      LastStartupAt := Some now, LastStartupAction := ''FREEZE_DELAYED''\<rparr>"

definition orElse :: "'a option \<Rightarrow> 'a option \<Rightarrow> 'a option" where
  "orElse x y = (case x of None \<Rightarrow> y | Some v \<Rightarrow> Some v)"

text \<open>The final status update: fields of the caller's copy over the latest stored status.\<close>

definition startupFinalStatus :: "policy \<Rightarrow> policy \<Rightarrow> policyStatus" where
  "startupFinalStatus policy latestPolicy =
     (let s = Status policy; l = Status latestPolicy
      in l\<lparr>Phase := Phase s, Message := Message s, LastStartupAt := LastStartupAt s,
           LastStartupAction := LastStartupAction s,
           LastResumeAt := orElse (LastResumeAt s) (LastResumeAt l),
           AdaptiveProgress := orElse (AdaptiveProgress s) (AdaptiveProgress l),
           StartupReadyNodes := orElse (StartupReadyNodes s) (StartupReadyNodes l),
           StartupNodesWaited := orElse (StartupNodesWaited s) (StartupNodesWaited l)\<rparr>)"

definition freezeNow :: "'w api \<Rightarrow> policy \<Rightarrow> workload list \<Rightarrow> workload list \<Rightarrow> ('w, unit) state" where
  "freezeNow a policy ds ss = do {
     _ \<leftarrow> for_each ds (\<lambda>d. freezeDeployment a d (Some policy));
     for_each ss (\<lambda>s. freezeStatefulSet a s (Some policy))
   }"

definition startupFreeze :: "'w api \<Rightarrow> policy \<Rightarrow> time \<Rightarrow> ('w, err option) state" where
  "startupFreeze a policy now = do {
     nsErr \<leftarrow> GetNamespace a (TargetNamespace (Spec policy));
     (case nsErr of
        Some e \<Rightarrow>
          if IsNotFound e then do {
            _ \<leftarrow> UpdatePolicyStatus a (policy\<lparr>Status := (Status policy)
                  \<lparr>LastStartupAction := ''SKIPPED_NAMESPACE_NOT_FOUND''\<rparr>\<rparr>);
            return None
          } else return (Some e)
      | None \<Rightarrow> do {
          deployments \<leftarrow> listDeployments a (TargetNamespace (Spec policy)) (Selector (Spec policy));
          (case deployments of
             Inl e \<Rightarrow> return (Some e)
           | Inr ds \<Rightarrow> do {
               statefulSets \<leftarrow> listStatefulSets a (TargetNamespace (Spec policy)) (Selector (Spec policy));
               (case statefulSets of
                  Inl e \<Rightarrow> return (Some e)
                | Inr ss \<Rightarrow>
                    if FreezeDelay (Spec policy) > 0
                    then patchStatus a (policy_key policy) (startupFreezeDelayedStatus policy now)
                    else do {
                      _ \<leftarrow> freezeNow a policy ds ss;
                      updateLatestStatus a (policy_key policy) (startupFinalStatus (policy\<lparr>Status := (Status policy)
                        \<lparr>Phase := PhaseFrozen, LastStartupAction := ''FREEZE_APPLIED''\<rparr>\<rparr>))
                    })
             })
        })
   }"

definition ApplyStartupPolicy :: "nat \<Rightarrow> 'w api \<Rightarrow> policy \<Rightarrow> ('w, err option option) state" where
  "ApplyStartupPolicy fuel a policy0 = do {
     now \<leftarrow> Now a;
     let policy = policy0\<lparr>Status := (Status policy0)\<lparr>LastStartupAt := Some now\<rparr>\<rparr>;
     if StartupPolicy (Spec policy) = StartupPolicyIgnore then do {
       e \<leftarrow> markStartup a policy now ''SKIPPED_IGNORE'';
       return (Some e)
     } else do {
       checked \<leftarrow> checkStartupNodes fuel a policy;
       (case checked of
          None \<Rightarrow> return None
        | Some policy \<Rightarrow> do {
            e \<leftarrow> (case StartupPolicy (Spec policy) of
               StartupPolicyFreeze \<Rightarrow> startupFreeze a policy now
             | StartupPolicyResume \<Rightarrow> startupResume a policy now
             | _ \<Rightarrow> markStartup a policy now ''SKIPPED_UNKNOWN_POLICY'');
            return (Some e)
          })
     }
   }"

subsection \<open>Processing a freeze policy\<close>

text \<open>
  The two waits of \<open>main.go\<close>. The label selector is converted in every round; a conversion error
  ends the wait like an error of the list call.
\<close>

definition activeDeployment :: "workload \<Rightarrow> bool" where
  "activeDeployment d \<longleftrightarrow> AvailableReplicas d > 0 \<or> ReadyReplicas d > 0"

definition activeStatefulSet :: "workload \<Rightarrow> bool" where
  "activeStatefulSet s \<longleftrightarrow> ReadyReplicas s > 0"

fun waitForReplicasZeroLoop ::
    "nat \<Rightarrow> 'w api \<Rightarrow> string \<Rightarrow> labelSelector option \<Rightarrow> time \<Rightarrow> ('w, bool option) state" where
  "waitForReplicasZeroLoop 0 a ns sel startTime = return None"
| "waitForReplicasZeroLoop (Suc fuel) a ns sel startTime = do {
     now \<leftarrow> Now a;
     if now - startTime \<ge> 5 * Minute then return (Some False)
     else do {
       deployments \<leftarrow> listDeployments a ns sel;
       (case deployments of
          Inl e \<Rightarrow> return (Some False)
        | Inr ds \<Rightarrow> do {
            statefulSets \<leftarrow> listStatefulSets a ns sel;
            (case statefulSets of
               Inl e \<Rightarrow> return (Some False)
             | Inr ss \<Rightarrow>
                 if \<not> list_ex activeDeployment ds \<and> \<not> list_ex activeStatefulSet ss then return (Some True)
                 else do {
                   _ \<leftarrow> Sleep a (2 * Second);
                   waitForReplicasZeroLoop fuel a ns sel startTime
                 })
          })
     }
   }"

definition waitForReplicasZero ::
    "nat \<Rightarrow> 'w api \<Rightarrow> string \<Rightarrow> labelSelector option \<Rightarrow> ('w, bool option) state" where
  "waitForReplicasZero fuel a ns sel = do {
     startTime \<leftarrow> Now a;
     waitForReplicasZeroLoop fuel a ns sel startTime
   }"

text \<open>The poll for the phase; the result is the policy as last fetched.\<close>

fun waitFrozenLoop :: "nat \<Rightarrow> 'w api \<Rightarrow> nsname \<Rightarrow> time \<Rightarrow> policy \<Rightarrow> ('w, policy option) state" where
  "waitFrozenLoop 0 a k startTime latestPolicy = return None"
| "waitFrozenLoop (Suc fuel) a k startTime latestPolicy = do {
     now \<leftarrow> Now a;
     if now - startTime \<ge> 10 * Minute then return (Some latestPolicy)
     else do {
       r \<leftarrow> GetPolicy a k;
       (case r of
          Inl e \<Rightarrow> return (Some latestPolicy)
        | Inr latest \<Rightarrow>
            if Phase (Status latest) = PhaseFrozen then return (Some latest)
            else if Phase (Status latest) = PhaseFailed then return (Some latest)
            else do {
              _ \<leftarrow> Sleep a (2 * Second);
              waitFrozenLoop fuel a k startTime latest
            })
     }
   }"

definition processPolicyWithDelayAndFreeze :: "nat \<Rightarrow> 'w api \<Rightarrow> policy \<Rightarrow> ('w, unit option) state" where
  "processPolicyWithDelayAndFreeze fuel a policy = do {
     applied \<leftarrow> ApplyStartupPolicy fuel a policy;
     (case applied of
        None \<Rightarrow> return None
      | Some (Some e) \<Rightarrow> return (Some ())
      | Some None \<Rightarrow> do {
          r \<leftarrow> GetPolicy a (policy_key policy);
          (case r of
             Inl e \<Rightarrow> return (Some ())
           | Inr latestPolicy \<Rightarrow>
               if StartupPolicy (Spec latestPolicy) \<noteq> StartupPolicyFreeze then return (Some ())
               else do {
                 delayed \<leftarrow> (if FreezeDelay (Spec latestPolicy) > 0 then do {
                     _ \<leftarrow> Sleep a (FreezeDelay (Spec latestPolicy));
                     GetPolicy a (policy_key policy)
                   } else return (Inr latestPolicy));
                 (case delayed of
                    Inl e \<Rightarrow> return (Some ())
                  | Inr latestPolicy \<Rightarrow> do {
                      startTime \<leftarrow> Now a;
                      polled \<leftarrow> waitFrozenLoop fuel a (policy_key policy) startTime latestPolicy;
                      (case polled of
                         None \<Rightarrow> return None
                       | Some latest \<Rightarrow> do {
                           zero \<leftarrow> waitForReplicasZero fuel a (TargetNamespace (Spec latest)) (Selector (Spec latest));
                           return (case zero of None \<Rightarrow> None | Some _ \<Rightarrow> Some ())
                         })
                    })
               })
        })
   }"

subsection \<open>Applying all startup policies\<close>

definition withStartupPolicy :: "startupPolicy \<Rightarrow> policy list \<Rightarrow> policy list" where
  "withStartupPolicy sp policies = filter (\<lambda>p. StartupPolicy (Spec p) = sp) policies"

definition freezeBefore :: "policy \<Rightarrow> policy \<Rightarrow> bool" where
  "freezeBefore p q =
     (if FreezePriority (Spec p) \<noteq> FreezePriority (Spec q)
      then FreezePriority (Spec p) < FreezePriority (Spec q)
      else CreationTimestamp (policy_Meta p) < CreationTimestamp (policy_Meta q))"

text \<open>The priorities in the order in which the loop over the sorted policies first meets them.\<close>

fun priorityOrderLoop :: "policy list \<Rightarrow> int list \<Rightarrow> int list" where
  "priorityOrderLoop [] order = order"
| "priorityOrderLoop (p # ps) order =
     priorityOrderLoop ps
       (if FreezePriority (Spec p) \<in> set order then order else order @ [FreezePriority (Spec p)])"

definition freezeGroups :: "'w api \<Rightarrow> policy list \<Rightarrow> policy list list" where
  "freezeGroups a freezePolicies =
     (let sorted = (if freezePolicies = [] then [] else SortSlice a freezeBefore freezePolicies);
          order = sort (priorityOrderLoop sorted [])
      in map (\<lambda>prio. filter (\<lambda>p. FreezePriority (Spec p) = prio) sorted) order)"

fun processGroups :: "nat \<Rightarrow> 'w api \<Rightarrow> policy list list \<Rightarrow> ('w, unit option) state" where
  "processGroups fuel a [] = return (Some ())"
| "processGroups fuel a (grp # groups) = do {
     done \<leftarrow> GoWait a (map (processPolicyWithDelayAndFreeze fuel a) grp);
     (case done of
        None \<Rightarrow> return None
      | Some _ \<Rightarrow> processGroups fuel a groups)
   }"

text \<open>The pre-scan for failed nodes.\<close>

definition reportedNotReady :: "node \<Rightarrow> bool" where
  "reportedNotReady node =
     list_ex (\<lambda>c. nodecond_Type c = ''Ready'' \<and> nodecond_Status c \<noteq> ConditionTrue) (node_Conditions node)"

definition failureAlreadyHandled :: "string \<Rightarrow> policy \<Rightarrow> bool" where
  "failureAlreadyHandled failedNode policy \<longleftrightarrow>
     FailedNodeName (Status policy) = failedNode \<and>
     NodeFailureEventHandledAt (Status policy) \<noteq> None \<and>
     (NodeFailureEventDetectedAt (Status policy) = None \<or>
      afterOpt (NodeFailureEventHandledAt (Status policy)) (NodeFailureEventDetectedAt (Status policy)))"

fun prescanPolicies :: "'w api \<Rightarrow> string \<Rightarrow> policy list \<Rightarrow> ('w, policy list) state" where
  "prescanPolicies a failedNode [] = return []"
| "prescanPolicies a failedNode (p # ps) =
     (if \<not> HandleNodeFailure (Spec p) then do {
        rest \<leftarrow> prescanPolicies a failedNode ps;
        return (p # rest)
      }
      else if failureAlreadyHandled failedNode p then prescanPolicies a failedNode ps
      else do {
        _ \<leftarrow> HandleNodeFailureAtStartup a p failedNode;
        prescanPolicies a failedNode ps
      })"

definition prescan :: "'w api \<Rightarrow> policy list \<Rightarrow> ('w, policy list) state" where
  "prescan a resumePolicies = do {
     nodeList \<leftarrow> ReaderListNodes a;
     (case nodeList of
        Inl e \<Rightarrow> return resumePolicies
      | Inr nodes \<Rightarrow>
          (case filter reportedNotReady nodes of
             [] \<Rightarrow> return resumePolicies
           | failed # _ \<Rightarrow> prescanPolicies a (node_Name failed) resumePolicies))
   }"

text \<open>Marking the resume policies, in the order of their priority.\<close>

definition resumeBefore :: "policy \<Rightarrow> policy \<Rightarrow> bool" where
  "resumeBefore p q =
     (let pi' = (if ResumePriority (Spec p) = 0 then 100 else ResumePriority (Spec p));
          pj = (if ResumePriority (Spec q) = 0 then 100 else ResumePriority (Spec q))
      in pi' < pj)"

definition sortedResume :: "'w api \<Rightarrow> policy list \<Rightarrow> policy list" where
  "sortedResume a resumePolicies =
     (if resumePolicies = [] then [] else SortSlice a resumeBefore resumePolicies)"

fun markPolicies :: "nat \<Rightarrow> 'w api \<Rightarrow> policy list \<Rightarrow> ('w, unit option) state" where
  "markPolicies fuel a [] = return (Some ())"
| "markPolicies fuel a (p # ps) = do {
     r \<leftarrow> ApplyStartupPolicy fuel a p;
     (case r of
        None \<Rightarrow> return None
      | Some e \<Rightarrow> markPolicies fuel a ps)
   }"

text \<open>Waking up the policies whose pre-conditions were being checked, by an annotation.\<close>

definition preconditionTrigger :: string where
  "preconditionTrigger = ''apps.ops.dev/precondition-trigger''"

definition beingChecked :: "policy \<Rightarrow> bool" where
  "beingChecked p \<longleftrightarrow> (case PreConditionsStatus (Status p) of None \<Rightarrow> False | Some s \<Rightarrow> Checking s)"

definition triggerReconcile :: "'w api \<Rightarrow> policy \<Rightarrow> ('w, err option) state" where
  "triggerReconcile a p =
     (if beingChecked p then do {
        r \<leftarrow> GetPolicy a (policy_key p);
        (case r of
           Inl e \<Rightarrow> return (Some e)
         | Inr latest \<Rightarrow> do {
             now \<leftarrow> Now a;
             UpdatePolicy a (policy_Meta_update (Annotations_update
               (\<lambda>m. m(preconditionTrigger \<mapsto> FormatRFC3339 a now))) latest)
           })
      } else return None)"

definition triggerPending :: "'w api \<Rightarrow> ('w, unit) state" where
  "triggerPending a = do {
     pendingList \<leftarrow> ListPolicies a;
     (case pendingList of
        Inl e \<Rightarrow> return ()
      | Inr items \<Rightarrow> for_each items (triggerReconcile a))
   }"

definition applyStartupPolicies :: "nat \<Rightarrow> 'w api \<Rightarrow> ('w, err option option) state" where
  "applyStartupPolicies fuel a = do {
     policyList \<leftarrow> ListPolicies a;
     (case policyList of
        Inl e \<Rightarrow> return (Some (Some e))
      | Inr items \<Rightarrow> do {
          frozen \<leftarrow> processGroups fuel a (freezeGroups a (withStartupPolicy StartupPolicyFreeze items));
          (case frozen of
             None \<Rightarrow> return None
           | Some _ \<Rightarrow> do {
               resumePolicies \<leftarrow> prescan a (withStartupPolicy StartupPolicyResume items);
               marked \<leftarrow> markPolicies fuel a (sortedResume a resumePolicies);
               (case marked of
                  None \<Rightarrow> return None
                | Some _ \<Rightarrow> do {
                    _ \<leftarrow> triggerPending a;
                    return (Some None)
                  })
             })
        })
   }"

subsection \<open>The startup runnable\<close>

definition MarkStartupComplete :: "('w sys, unit) state" where
  "MarkStartupComplete = State (\<lambda>s. ((), s\<lparr>startupComplete := True\<rparr>))"

fun readyStatusIn :: "nodeCondition list \<Rightarrow> conditionStatus" where
  "readyStatusIn [] = ConditionUnknown"
| "readyStatusIn (c # cs) = (if nodecond_Type c = ''Ready'' then nodecond_Status c else readyStatusIn cs)"

definition hasFaultTaint :: "node \<Rightarrow> bool" where
  "hasFaultTaint node =
     list_ex (\<lambda>k. k = ''node.kubernetes.io/unreachable'' \<or> k = ''node.kubernetes.io/not-ready'') (TaintKeys node)"

definition unhealthyNode :: "node \<Rightarrow> bool" where
  "unhealthyNode node \<longleftrightarrow> readyStatusIn (node_Conditions node) \<noteq> ConditionTrue \<or> hasFaultTaint node"

text \<open>The poll before the policies are applied: \<open>Some False\<close> when the context was cancelled.\<close>

fun nodeScan :: "nat \<Rightarrow> 'w api \<Rightarrow> time \<Rightarrow> ('w, bool option) state" where
  "nodeScan 0 a deadline = return None"
| "nodeScan (Suc fuel) a deadline = do {
     nodeList \<leftarrow> ReaderListNodes a;
     if (case nodeList of Inl e \<Rightarrow> False | Inr nodes \<Rightarrow> list_ex unhealthyNode nodes) then return (Some True)
     else do {
       now \<leftarrow> Now a;
       if deadline < now then return (Some True)
       else do {
         armed \<leftarrow> Now a;
         cancelled \<leftarrow> WaitUntil a (armed + 10 * Second);
         (case cancelled of
            Some e \<Rightarrow> return (Some False)
          | None \<Rightarrow> nodeScan fuel a deadline)
       }
     }
   }"

text \<open>
  The runnable of \<open>main\<close>: wait for the cache (its answer is an argument), log the nodes, scan, apply
  the policies, and only then raise the flag.
\<close>

definition startupRunnable :: "nat \<Rightarrow> 'w api \<Rightarrow> bool \<Rightarrow> ('w sys, unit option) state" where
  "startupRunnable fuel a cacheSynced =
     (if \<not> cacheSynced then return (Some ())
      else do {
        _ \<leftarrow> inWorld (ReaderListNodes a);
        now \<leftarrow> inWorld (Now a);
        scanned \<leftarrow> inWorld (nodeScan fuel a (now + 50 * Second));
        (case scanned of
           None \<Rightarrow> return None
         | Some False \<Rightarrow> return (Some ())
         | Some True \<Rightarrow> do {
             applied \<leftarrow> inWorld (applyStartupPolicies fuel a);
             (case applied of
                None \<Rightarrow> return None
              | Some e \<Rightarrow> do {
                  _ \<leftarrow> MarkStartupComplete;
                  return (Some ())
                })
           })
      })"

subsection \<open>Sorting\<close>

text \<open>What \<open>sort.Slice\<close> promises for a strict weak order: a sorted permutation.\<close>

definition weak_order :: "('a \<Rightarrow> 'a \<Rightarrow> bool) \<Rightarrow> bool" where
  "weak_order lt \<longleftrightarrow>
     (\<forall>x y. lt x y \<longrightarrow> \<not> lt y x) \<and> (\<forall>x y z. \<not> lt x y \<longrightarrow> \<not> lt y z \<longrightarrow> \<not> lt x z)"

definition sort_law :: "'w api \<Rightarrow> bool" where
  "sort_law a \<longleftrightarrow> (\<forall>lt xs. weak_order lt \<longrightarrow>
     mset (SortSlice a lt xs) = mset xs \<and> sorted_wrt (\<lambda>x y. \<not> lt y x) (SortSlice a lt xs))"

lemma sort_lawD:
  assumes "sort_law a" and "weak_order lt"
  shows "mset (SortSlice a lt xs) = mset xs" and "sorted_wrt (\<lambda>x y. \<not> lt y x) (SortSlice a lt xs)"
    and "set (SortSlice a lt xs) = set xs"
proof -
  show "mset (SortSlice a lt xs) = mset xs" and "sorted_wrt (\<lambda>x y. \<not> lt y x) (SortSlice a lt xs)"
    using assms unfolding sort_law_def by blast+
  then show "set (SortSlice a lt xs) = set xs" by (metis set_mset_mset)
qed

lemma weak_orders: "weak_order freezeBefore" "weak_order resumeBefore"
  by (auto simp: weak_order_def freezeBefore_def resumeBefore_def Let_def)

lemma mset_insert_by: "mset (insert_by lt x xs) = add_mset x (mset xs)"
  by (induction xs) auto

lemma sorted_insert_by:
  assumes "weak_order lt" and "sorted_wrt (\<lambda>x y. \<not> lt y x) xs"
  shows "sorted_wrt (\<lambda>x y. \<not> lt y x) (insert_by lt x xs)"
  using assms(2)
proof (induction xs)
  case (Cons y ys)
  have "set (insert_by lt x ys) = insert x (set ys)"
    using mset_insert_by [of lt x ys] by (metis set_mset_add_mset_insert set_mset_mset)
  moreover have "\<not> lt x y" if "lt y x" using that assms(1) unfolding weak_order_def by blast
  moreover have "\<not> lt z x" if "\<not> lt z y" "\<not> lt y x" for z
    using that assms(1) unfolding weak_order_def by metis
  ultimately show ?case using Cons by (cases "lt y x") auto
qed simp

lemma mem_sort: "sort_law mem_api"
proof -
  have "mset (insertion_sort lt xs) = mset xs" for lt and xs :: "policy list"
    by (induction xs) (simp_all add: insertion_sort_def mset_insert_by)
  moreover have "weak_order lt \<Longrightarrow> sorted_wrt (\<lambda>x y. \<not> lt y x) (insertion_sort lt xs)" for lt and xs :: "policy list"
    by (induction xs) (simp_all add: insertion_sort_def sorted_insert_by)
  ultimately show ?thesis by (simp add: sort_law_def mem_ops)
qed

subsection \<open>Freeze groups\<close>

lemma priorityOrderLoop_set:
  "set (priorityOrderLoop ps order) = set order \<union> (\<lambda>p. FreezePriority (Spec p)) ` set ps"
  "distinct order \<Longrightarrow> distinct (priorityOrderLoop ps order)"
  by (induction ps order rule: priorityOrderLoop.induct) auto

lemma mset_groups:
  "distinct ks \<Longrightarrow> mset (concat (map (\<lambda>k. filter (\<lambda>x. f x = k) xs) ks)) =
     filter_mset (\<lambda>x. f x \<in> set ks) (mset xs)"
proof (induction ks)
  case (Cons k ks)
  have "filter_mset (\<lambda>x. f x = k) M + filter_mset (\<lambda>x. f x \<in> set ks) M =
      filter_mset (\<lambda>x. f x = k \<or> f x \<in> set ks) M" for M
    using Cons.prems by (induction M) auto
  with Cons show ?case by simp
qed simp

text \<open>
  C24: at startup the freeze policies are processed in groups of equal priority, lower numbers first,
  and every freeze policy is in exactly one group.
\<close>

theorem freezeGroups_ordered:
  assumes "sort_law a"
  shows "mset (concat (freezeGroups a ps)) = mset ps \<and>
    (\<forall>g \<in> set (freezeGroups a ps). g \<noteq> [] \<and>
       (\<forall>p \<in> set g. \<forall>q \<in> set g. FreezePriority (Spec p) = FreezePriority (Spec q))) \<and>
    sorted_wrt (\<lambda>g h. \<forall>p \<in> set g. \<forall>q \<in> set h. FreezePriority (Spec p) < FreezePriority (Spec q))
      (freezeGroups a ps)"
proof -
  let ?s = "if ps = [] then [] else SortSlice a freezeBefore ps"
  let ?f = "\<lambda>p. FreezePriority (Spec p)" and ?o = "sort (priorityOrderLoop ?s [])"
  have g: "freezeGroups a ps = map (\<lambda>k. filter (\<lambda>p. ?f p = k) ?s) ?o"
    by (simp add: freezeGroups_def Let_def)
  have o: "set ?o = ?f ` set ?s" "distinct ?o"
    using priorityOrderLoop_set by simp_all
  have "mset ?s = mset ps" using sort_lawD(1) [OF assms weak_orders(1)] by simp
  moreover have "filter_mset (\<lambda>p. ?f p \<in> set ?o) (mset ?s) = mset ?s"
    unfolding filter_mset_eq_conv o(1) by simp
  ultimately have "mset (concat (freezeGroups a ps)) = mset ps"
    using mset_groups [OF o(2), of ?f ?s] by (simp only: g)
  moreover have "sorted_wrt (<) ?o" using o(2) by (simp only: strict_sorted_iff sorted_sort simp_thms)
  then have "sorted_wrt (\<lambda>g h. \<forall>p \<in> set g. \<forall>q \<in> set h. ?f p < ?f q) (freezeGroups a ps)"
    unfolding g sorted_wrt_map by (rule sorted_wrt_mono_rel [rotated]) auto
  moreover have "\<forall>g \<in> set (freezeGroups a ps). g \<noteq> [] \<and> (\<forall>p \<in> set g. \<forall>q \<in> set g. ?f p = ?f q)"
    unfolding g using o(1) by (auto simp: filter_empty_conv)
  ultimately show ?thesis by blast
qed

definition freeze_at :: "string \<Rightarrow> int \<Rightarrow> policy" where
  "freeze_at name prio = (sample_policy name)\<lparr>Spec := sample_spec\<lparr>StartupPolicy := StartupPolicyFreeze,
     FreezePriority := prio\<rparr>\<rparr>"

theorem freezeGroups_ordered_witness:
  "mset (concat (freezeGroups mem_api [freeze_at ''b'' 7, freeze_at ''a'' 0])) =
     {#freeze_at ''b'' 7, freeze_at ''a'' 0#}"
  using freezeGroups_ordered [OF mem_sort, of "[freeze_at ''b'' 7, freeze_at ''a'' 0]"] by simp

subsection \<open>Marking on a quiet cluster\<close>

text \<open>What startup makes of a policy whose startup policy is Resume.\<close>

definition acknowledged :: "policy \<Rightarrow> bool" where
  "acknowledged p \<longleftrightarrow> OperationId (Spec p) = '''' \<or> LastHandledOperationId (Status p) = OperationId (Spec p)"

definition started :: "policy \<Rightarrow> policy \<Rightarrow> bool" where
  "started p p' \<longleftrightarrow> Spec p' = Spec p \<and>
     (if Phase (Status p) = PhaseResumed
      then Phase (Status p') = PhaseResumed \<and> LastStartupAction (Status p') = ''NO_ACTION_ALREADY_RESUMED'' \<and>
        PendingStartupResume (Status p') = PendingStartupResume (Status p)
      else PendingStartupResume (Status p') \<and> Phase (Status p') = PhaseIdle \<and>
        ResumeDelayStartedAt (Status p') \<noteq> None \<and> acknowledged p')"

lemma looks_case_select:
  "(\<And>e. looks view (f e)) \<Longrightarrow> looks view m \<Longrightarrow> looks view n \<Longrightarrow>
     looks view (case ev of CtxDone e \<Rightarrow> f e | TimeoutFired \<Rightarrow> m | TickerFired \<Rightarrow> n)"
  by (cases ev) auto

lemma looks_waitForNodesReady:
  assumes "quiet_cluster a view"
  shows "looks view (waitForNodesReady fuel a np)"
proof -
  note calls = looks_calls [OF assms] looks_selectTimers [OF assms]
  have c: "looks view (countReadyWorkerNodes a sel)" "looks view (requiredNodes a np)" for sel
    unfolding countReadyWorkerNodes_def requiredNodes_def countTotalWorkerNodes_def by (intro looks_intros calls)+
  have "looks view (waitForNodesReadyLoop f a sel m t tk dl)" for f sel m t tk dl
  proof (induction f arbitrary: tk)
    case (Suc f)
    then show ?case
      unfolding waitForNodesReadyLoop.simps by (intro looks_intros looks_case_select calls c)
  qed (simp add: looks_return)
  then show ?thesis
    unfolding waitForNodesReady_def by (intro looks_intros calls c)
qed

lemma checkStartupNodes_quiet:
  assumes "quiet_cluster a view"
  shows "looks view (checkStartupNodes fuel a p)"
    and "result (checkStartupNodes fuel a p) w = Some p1 \<Longrightarrow>
      Spec p1 = Spec p \<and> policy_key p1 = policy_key p \<and> Phase (Status p1) = Phase (Status p)"
proof -
  show "looks view (checkStartupNodes fuel a p)"
    unfolding checkStartupNodes_def by (intro looks_intros looks_waitForNodesReady [OF assms])
  show "result (checkStartupNodes fuel a p) w = Some p1 \<Longrightarrow>
      Spec p1 = Spec p \<and> policy_key p1 = policy_key p \<and> Phase (Status p1) = Phase (Status p)"
    by (auto simp: checkStartupNodes_def policy_key_def split: option.splits if_splits)
qed

lemma ApplyStartupPolicy_resume:
  assumes q: "quiet_cluster a view" and p: "cPolicies (view w) (policy_key p) = Some p"
    and r: "StartupPolicy (Spec p) = StartupPolicyResume" and fuel: "result (ApplyStartupPolicy fuel a p) w \<noteq> None"
  shows "\<exists>p'. result (ApplyStartupPolicy fuel a p) w = Some None \<and> started p p' \<and>
    view (final (ApplyStartupPolicy fuel a p) w) =
      (view w)\<lparr>cPolicies := (cPolicies (view w))(policy_key p \<mapsto> p')\<rparr>"
proof -
  let ?now = "result (Now a) w" and ?w = "final (Now a) w"
  let ?p = "p\<lparr>Status := (Status p)\<lparr>LastStartupAt := Some ?now\<rparr>\<rparr>"
  let ?v = "final (checkStartupNodes fuel a ?p) ?w"
  obtain p1 where ck: "result (checkStartupNodes fuel a ?p) ?w = Some p1"
    using fuel r by (cases "result (checkStartupNodes fuel a ?p) ?w") (simp_all add: ApplyStartupPolicy_def Let_def)
  have p1: "Spec p1 = Spec p" "policy_key p1 = policy_key p" "Phase (Status p1) = Phase (Status p)"
    using checkStartupNodes_quiet(2) [OF q ck] by (simp_all add: policy_key_def)
  have v: "view ?v = view w"
    by (simp add: looks_final [OF checkStartupNodes_quiet(1) [OF q]] quiet_view [OF q])
  have c: "cPolicies (view ?v) (policy_key p) = Some p" using p by (simp add: v)
  have run: "run_state (ApplyStartupPolicy fuel a p) w =
      (Some (result (startupResume a p1 ?now) ?v), final (startupResume a p1 ?now) ?v)"
    using ck by (simp add: ApplyStartupPolicy_def r p1(1) Let_def)
  note up = patchStatus_quiet [OF q c refl]
  show ?thesis
  proof (cases "Phase (Status p) = PhaseResumed")
    case True
    then show ?thesis
      by (intro exI conjI)
        (simp_all add: run startupResume_def markStartup_def p1 up v, simp add: started_def)
  next
    case False
    then show ?thesis
      by (intro exI conjI)
        (simp_all add: run startupResume_def p1 up v,
          simp add: started_def startupResumeStatus_def acknowledged_def stored_status_def truncate_time_def Let_def)
  qed
qed

lemma markPolicies_quiet:
  assumes q: "quiet_cluster a view"
  shows "policies.listed (view w) ps \<Longrightarrow> (\<And>p. p \<in> set ps \<Longrightarrow> StartupPolicy (Spec p) = StartupPolicyResume) \<Longrightarrow>
    result (markPolicies fuel a ps) w \<noteq> None \<Longrightarrow>
    \<exists>m. view (final (markPolicies fuel a ps) w) = (view w)\<lparr>cPolicies := m\<rparr> \<and>
       (\<forall>k. k \<notin> policy_key ` set ps \<longrightarrow> m k = cPolicies (view w) k) \<and>
       (\<forall>p \<in> set ps. \<exists>p'. m (policy_key p) = Some p' \<and> started p p')"
proof (induction ps arbitrary: w)
  case Nil
  show ?case by (auto intro: exI [of _ "cPolicies (view w)"])
next
  case (Cons p ps)
  note l = policies.listed_Cons [OF Cons.prems(1)]
  have "result (ApplyStartupPolicy fuel a p) w \<noteq> None"
    using Cons.prems(3) by (cases "result (ApplyStartupPolicy fuel a p) w") simp_all
  then obtain p' where p': "result (ApplyStartupPolicy fuel a p) w = Some None" "started p p'"
    "view (final (ApplyStartupPolicy fuel a p) w) =
      (view w)\<lparr>cPolicies := (cPolicies (view w))(policy_key p \<mapsto> p')\<rparr>"
    using ApplyStartupPolicy_resume [OF q l(1)] Cons.prems(2) by auto
  let ?w = "final (ApplyStartupPolicy fuel a p) w"
  have "policies.listed (view ?w) ps" using l(3) by (simp add: p'(3))
  moreover have "result (markPolicies fuel a ps) ?w \<noteq> None" using Cons.prems(3) p'(1) by simp
  ultimately obtain m where m: "view (final (markPolicies fuel a ps) ?w) = (view ?w)\<lparr>cPolicies := m\<rparr>"
    "\<forall>k. k \<notin> policy_key ` set ps \<longrightarrow> m k = cPolicies (view ?w) k"
    "\<forall>p \<in> set ps. \<exists>p'. m (policy_key p) = Some p' \<and> started p p'"
    using Cons.IH [of ?w] Cons.prems(2) by (auto simp del: split_paired_All)
  have "m (policy_key p) = Some p'" using spec [OF m(2), of "policy_key p"] l(2) by (simp add: p'(3))
  moreover have "m k = cPolicies (view w) k" if "k \<notin> policy_key ` set (p # ps)" for k
    using spec [OF m(2), of k] that by (simp add: p'(3))
  ultimately show ?case
    using m p'(1,2) by (auto intro!: exI [of _ m] simp: p'(3))
qed

text \<open>Waking up policies changes annotations only.\<close>

definition same_but_meta :: "policy option \<Rightarrow> policy option \<Rightarrow> bool" where
  "same_but_meta x y = rel_option (\<lambda>p p'. Spec p' = Spec p \<and> Status p' = Status p) x y"

lemma triggerReconcile_quiet:
  assumes "quiet_cluster a view"
  shows "same_but_meta (cPolicies (view w) k) (cPolicies (view (final (triggerReconcile a p) w)) k)"
proof (cases "beingChecked p \<and> cPolicies (view w) (policy_key p) \<noteq> None")
  case False
  have "view (final (triggerReconcile a p) w) = view w"
  proof (cases "beingChecked p")
    case True
    then obtain e where "result (GetPolicy a (policy_key p)) w = Inl e"
      using False reads_result [OF quiet_readD(1) [OF assms], of w "policy_key p"] by (auto simp: found_def)
    then show ?thesis by (simp add: triggerReconcile_def True quiet_view [OF assms])
  qed (simp add: triggerReconcile_def)
  then show ?thesis by (simp add: same_but_meta_def option.rel_refl)
next
  case True
  then obtain x where x: "cPolicies (view w) (policy_key p) = Some x" by blast
  then have get: "result (GetPolicy a (policy_key p)) w = Inr x"
    using reads_result [OF quiet_readD(1) [OF assms], of w "policy_key p"] by simp
  have key: "policy_key x = policy_key p" using quiet_keyed(1) [OF assms x] .
  let ?w = "final (Now a) (final (GetPolicy a (policy_key p)) w)"
  let ?y = "policy_Meta_update (Annotations_update (\<lambda>m. m(preconditionTrigger \<mapsto>
      FormatRFC3339 a (result (Now a) (final (GetPolicy a (policy_key p)) w))))) x"
  have yk: "policy_key ?y = policy_key p"
    using key by (simp add: policy_key_def meta_key_def)
  have "cPolicies (view ?w) (policy_key ?y) = Some x"
    unfolding yk using x by (simp add: quiet_view [OF assms])
  then have "view (final (UpdatePolicy a ?y) ?w) =
      (view ?w)\<lparr>cPolicies := (cPolicies (view ?w))(policy_key p \<mapsto> ?y\<lparr>Status := Status x\<rparr>)\<rparr>"
    using writes_ok [OF quiet_writeD(6) [OF assms, of ?y x], of ?w] yk by simp
  then show ?thesis
    using True x by (simp add: triggerReconcile_def get quiet_view [OF assms] same_but_meta_def option.rel_refl)
qed

lemma triggerPending_quiet:
  assumes "quiet_cluster a view"
  shows "same_but_meta (cPolicies (view w) k) (cPolicies (view (final (triggerPending a) w)) k)"
proof -
  have trans: "same_but_meta x y \<Longrightarrow> same_but_meta y z \<Longrightarrow> same_but_meta x z" for x y z
    unfolding same_but_meta_def by (cases x; cases y; cases z) auto
  have "same_but_meta (cPolicies (view w) k) (cPolicies (view (final (for_each ps (triggerReconcile a)) w)) k)" for ps w
  proof (induction ps arbitrary: w)
    case (Cons p ps)
    then show ?case using trans triggerReconcile_quiet [OF assms, of w k p] by auto
  qed (simp add: same_but_meta_def option.rel_refl)
  from this [of "final (ListPolicies a) w"] show ?thesis
    by (simp add: triggerPending_def quiet_view [OF assms] same_but_meta_def option.rel_refl split: sum.split)
qed

lemma started_meta:
  "started p x \<Longrightarrow> Spec y = Spec x \<Longrightarrow> Status y = Status x \<Longrightarrow> started p y"
  by (auto simp: started_def acknowledged_def split: if_splits)

lemma listed_policies:
  assumes "quiet_cluster a view" and "result (ListPolicies a) w = Inr items"
  shows "policies.listed (view w) items" and "set items = ran (cPolicies (view w))"
proof -
  have l: "set items = ran (cPolicies (view w))" "distinct (map policy_key items)"
    using reads_result [OF quiet_readD(6) [OF assms(1)], of w] assms(2) by (simp_all add: lists_def)
  have "cPolicies (view w) (policy_key p) = Some p" if "p \<in> set items" for p
    using that l(1) quiet_keyed(1) [OF assms(1)] by (auto simp: ran_def)
  with l show "policies.listed (view w) items" "set items = ran (cPolicies (view w))"
    by (simp_all add: policies.listed_def)
qed

lemma listed_mset:
  assumes "policies.listed c ps" and "mset qs = mset (filter P ps)"
  shows "policies.listed c qs"
proof -
  have "mset (map policy_key qs) = mset (map policy_key (filter P ps))"
    using assms(2) by simp
  then have "distinct (map policy_key qs) = distinct (map policy_key (filter P ps))"
    by (rule mset_eq_imp_distinct_iff)
  then have "distinct (map policy_key qs)"
    using assms(1) by (simp add: policies.listed_def distinct_map_filter)
  moreover have "set qs = set (filter P ps)" using assms(2) by (metis set_mset_mset)
  ultimately show ?thesis using assms(1) by (simp add: policies.listed_def)
qed



subsection \<open>Waiting for nodes on a quiet cluster\<close>

definition ready_nodes :: "nodeSelector option \<Rightarrow> cluster \<Rightarrow> int" where
  "ready_nodes sel c =
     int (card {i. i < length (cNodes c) \<and> isNodeReady (cNodes c ! i) \<and>
       (\<forall>(k, v) \<in> set (selectorOrWorkers sel). Labels (node_Meta (cNodes c ! i)) k = Some v)})"

definition matching_nodes :: "nodeSelector option \<Rightarrow> cluster \<Rightarrow> int" where
  "matching_nodes sel c =
     int (card {i. i < length (cNodes c) \<and>
       (\<forall>(k, v) \<in> set (selectorOrWorkers sel). Labels (node_Meta (cNodes c ! i)) k = Some v)})"

text \<open>How many nodes the policy asks for: all that match, or its minimum, which is 1 when unset.\<close>

definition required_nodes :: "startupNodeReadinessPolicy \<Rightarrow> cluster \<Rightarrow> int" where
  "required_nodes np c =
     (if RequireAllNodes np then i32 (matching_nodes (nodes_NodeSelector np) c)
      else if MinReadyNodes np > 0 then MinReadyNodes np else 1)"

lemma countReady_quiet:
  assumes "quiet_cluster a view"
  shows "looks view (countReadyWorkerNodes a sel)"
    and "result (countReadyWorkerNodes a sel) w = Inr (i32 (ready_nodes sel (view w)))"
proof -
  show "looks view (countReadyWorkerNodes a sel)"
    unfolding countReadyWorkerNodes_def by (intro looks_intros looks_calls [OF assms])
  have "length (filter isNodeReady (filter (matchesSelector s) ns)) =
      length (filter (\<lambda>n. isNodeReady n \<and> (\<forall>(k, v) \<in> set s. Labels (node_Meta n) k = Some v)) ns)" for s ns
    by (simp add: matchesSelector_def list_all_iff conj_commute)
  then have "length (filter isNodeReady (filter (matchesSelector (selectorOrWorkers sel)) (cNodes (view w)))) =
      nat (ready_nodes sel (view w))"
    by (simp only: ready_nodes_def length_filter_conv_card nat_int)
  then show "result (countReadyWorkerNodes a sel) w = Inr (i32 (ready_nodes sel (view w)))"
    using reads_result [OF quiet_readD(15) [OF assms, of None], of w]
    by (simp add: countReadyWorkerNodes_def Let_def) (simp add: ready_nodes_def)
qed

lemma countTotal_quiet:
  assumes "quiet_cluster a view"
  shows "result (countTotalWorkerNodes a sel) w = Inr (i32 (matching_nodes sel (view w)))"
proof -
  have "length (filter (matchesSelector (selectorOrWorkers sel)) (cNodes (view w))) = nat (matching_nodes sel (view w))"
    by (simp only: matching_nodes_def length_filter_conv_card nat_int matchesSelector_def list_all_iff)
  then show ?thesis
    using reads_result [OF quiet_readD(15) [OF assms, of None], of w]
    by (simp add: countTotalWorkerNodes_def) (simp add: matching_nodes_def)
qed

lemma requiredNodes_quiet:
  assumes "quiet_cluster a view"
  shows "looks view (requiredNodes a np)" and "result (requiredNodes a np) w = required_nodes np (view w)"
proof -
  show "looks view (requiredNodes a np)"
    unfolding requiredNodes_def countTotalWorkerNodes_def by (intro looks_intros looks_calls [OF assms])
  show "result (requiredNodes a np) w = required_nodes np (view w)"
    by (simp add: requiredNodes_def required_nodes_def countTotal_quiet [OF assms])
qed

lemma later_count:
  assumes "clock_law a clock luck"
  shows "later clock luck w (final (countReadyWorkerNodes a sel) w)"
    and "later clock luck w (final (requiredNodes a np) w)"
proof -
  note R = later_preorder [of clock luck]
  note io = io_return [OF R] io_bind [OF R] io_if io_case_sum io_case_option clock_law_io [OF assms]
  have c: "state_io_rel (later clock luck) (countReadyWorkerNodes a sel)" "state_io_rel (later clock luck) (requiredNodes a np)"
    unfolding countReadyWorkerNodes_def requiredNodes_def countTotalWorkerNodes_def by (intro io)+
  show "later clock luck w (final (countReadyWorkerNodes a sel) w)" using c(1) by (rule io_final)
  show "later clock luck w (final (requiredNodes a np) w)" using c(2) by (rule io_final)
qed

text \<open>
  The outcome of the wait: the number of ready nodes and the seconds between the start and a time
  \<open>t\<close> within the run, which is past the deadline when too few nodes are ready.
\<close>

definition waited :: "'w api \<Rightarrow> ('w \<Rightarrow> time) \<Rightarrow> 'w \<Rightarrow> int \<Rightarrow> int \<Rightarrow> time \<Rightarrow> time \<Rightarrow>
    ((int \<times> int \<times> err option) option \<times> 'w) \<Rightarrow> bool" where
  "waited a clock w n m start dl out \<longleftrightarrow>
     (\<exists>t. fst out = Some (n, secondsSince a start t, None) \<and> clock w \<le> t \<and> t \<le> clock (snd out) \<and> (n < m \<longrightarrow> dl \<le> t))"

lemma waitedI:
  "fst out = Some (n, secondsSince a start t, None) \<Longrightarrow> clock w \<le> t \<Longrightarrow> t \<le> clock (snd out) \<Longrightarrow>
     (n < m \<Longrightarrow> dl \<le> t) \<Longrightarrow> waited a clock w n m start dl out"
  by (auto simp: waited_def)

lemma waited_earlier: "clock w \<le> clock w' \<Longrightarrow> waited a clock w' n m start dl out \<Longrightarrow> waited a clock w n m start dl out"
  unfolding waited_def by (meson order_trans)

lemma waitForNodesReadyLoop_quiet:
  assumes q: "quiet_cluster a view"
    and law: "clock_law a clock luck" "draw_law a clock luck" "uncancelled a"
  shows "0 < tickPeriod tk \<Longrightarrow>
    (if m \<le> i32 (ready_nodes sel (view w)) then 0 < fuel else enough_rounds fuel dl tk (clock w) (luck w)) \<Longrightarrow>
    waited a clock w (i32 (ready_nodes sel (view w))) m t dl (run_state (waitForNodesReadyLoop fuel a sel m t tk dl) w) \<and>
    view (final (waitForNodesReadyLoop fuel a sel m t tk dl) w) = view w"
proof (induction fuel arbitrary: w tk)
  case 0
  then show ?case by (simp add: enough_rounds_def split: if_splits)
next
  case (Suc fuel)
  let ?w = "final (selectTimers a tk (Some dl)) w" and ?n = "i32 (ready_nodes sel (view w))"
  let ?c = "final (countReadyWorkerNodes a sel) ?w"
  let ?v = "final (Now a) ?c"
  have v: "view ?w = view w" "view ?c = view w"
    using looks_final [OF countReady_quiet(1) [OF q]] looks_final [OF looks_selectTimers(1) [OF q]] by simp_all
  have n: "result (countReadyWorkerNodes a sel) ?w = Inr ?n"
    using countReady_quiet(2) [OF q, of sel ?w] by (simp add: v)
  have lc: "later clock luck ?w ?c" by (rule later_count(1) [OF law(1)])
  have lv: "later clock luck ?c ?v" by (rule io_final [OF clock_law_io(4) [OF law(1)]])
  have now: "clock ?c \<le> result (Now a) ?c" "result (Now a) ?c \<le> clock ?v"
    by (rule clock_lawD [OF law(1)])+
  from law Suc.prems(1) show ?case
  proof (cases rule: select_round [where w = w and dl = dl])
    case timeout
    have "dl \<le> result (Now a) ?c" "clock w \<le> result (Now a) ?c"
      using timeout(2,3) lc now unfolding later_def by linarith+
    then show ?thesis
      using timeout(1) now by (auto simp: n v quiet_view [OF q] intro!: waitedI [of _ _ _ _ "result (Now a) ?c"])
  next
    case (tick tk')
    have lw: "clock w \<le> clock ?w" using tick(5) by (simp add: later_def)
    show ?thesis
    proof (cases "m \<le> ?n")
      case True
      have "clock w \<le> result (Now a) ?c" using lc now lw unfolding later_def by linarith
      then show ?thesis
        using tick(1) True now by (auto simp: n v quiet_view [OF q] intro!: waitedI [of _ _ _ _ "result (Now a) ?c"])
    next
      case False
      have "luck ?v \<le> luck ?w" using lc lv unfolding later_def by linarith
      then have "enough_rounds fuel dl tk' (clock ?v) (luck ?v)"
        using tick(5,6) False Suc.prems(2)
        by (intro enough_rounds_tick [where l = "luck w", OF _ Suc.prems(1) tick(2-4)]) (auto simp: later_def)
      moreover have "0 < tickPeriod tk'" using tick(2) Suc.prems(1) by simp
      moreover have "view ?v = view w" by (simp add: v quiet_view [OF q])
      ultimately have out: "waited a clock ?v ?n m t dl (run_state (waitForNodesReadyLoop fuel a sel m t tk' dl) ?v) \<and>
          view (final (waitForNodesReadyLoop fuel a sel m t tk' dl) ?v) = view w"
        using Suc.IH [of tk' ?v] False by simp
      have "clock w \<le> clock ?v" using lc lv lw unfolding later_def by linarith
      note early = waited_earlier [OF this conjunct1 [OF out]]
      have run: "run_state (waitForNodesReadyLoop (Suc fuel) a sel m t tk dl) w =
          run_state (waitForNodesReadyLoop fuel a sel m t tk' dl) ?v"
        using tick(1) False by (simp add: n)
      show ?thesis unfolding run using early conjunct2 [OF out] by (rule conjI)
    qed
  qed
qed

subsection \<open>Properties of the startup\<close>

text \<open>
  C25: the wait for nodes. It answers with the number of ready nodes that carry all labels of the
  selector (the worker label when none is given) and with the seconds between its start and a time
  within the run, and writes nothing. When at least as many are ready as the policy asks for, the
  first tick ends it; otherwise it ends only once the timeout has passed, and does end: enough rounds
  are the two-second ticks that fit into the timeout, one for a tick that is already there, one for
  every time that \<open>select\<close>, with both the tick and the timeout ready, chooses the tick (\<open>luck\<close>), and
  the last. The context is not cancelled and the nodes do not change meanwhile.
\<close>

theorem waitForNodesReady_terminates:
  assumes "quiet_cluster a view" and "clock_law a clock luck" and "draw_law a clock luck" and "uncancelled a"
    and "if required_nodes np (view w) \<le> i32 (ready_nodes (nodes_NodeSelector np) (view w)) then 0 < fuel
         else nat ((nodesTimeout np + 1) div 2) + 1 + luck w < fuel"
  shows "\<exists>start now. result (waitForNodesReady fuel a np) w =
      Some (i32 (ready_nodes (nodes_NodeSelector np) (view w)), secondsSince a start now, None) \<and>
    clock w \<le> start \<and> start \<le> now \<and> now \<le> clock (final (waitForNodesReady fuel a np) w) \<and>
    (i32 (ready_nodes (nodes_NodeSelector np) (view w)) < required_nodes np (view w) \<longrightarrow>
       start + nodesTimeout np * Second \<le> now) \<and>
    view (final (waitForNodesReady fuel a np) w) = view w"
proof -
  let ?r = "final (requiredNodes a np) w"
  let ?w1 = "final (Now a) ?r" and ?t0 = "result (Now a) ?r"
  let ?w2 = "final (Now a) ?w1" and ?c0 = "result (Now a) ?w1"
  let ?w3 = "final (Now a) ?w2" and ?t1 = "result (Now a) ?w2"
  let ?tk = "\<lparr>tickPeriod = 2 * Second, nextTick = ?c0 + 2 * Second\<rparr>" and ?dl = "?t1 + nodesTimeout np * Second"
  let ?sel = "nodes_NodeSelector np" and ?m = "required_nodes np (view w)"
  have v: "view ?w3 = view w"
    by (simp add: looks_final [OF requiredNodes_quiet(1) [OF assms(1)]] quiet_view [OF assms(1)])
  note now = clock_lawD(1,2) [OF assms(2)]
  have l: "later clock luck w ?r" by (rule later_count(2) [OF assms(2)])
  have l': "later clock luck ?r ?w1" "later clock luck ?w1 ?w2" "later clock luck ?w2 ?w3"
    by (rule io_final [OF clock_law_io(4) [OF assms(2)]])+
  have luck: "luck ?w3 \<le> luck w" using l l' unfolding later_def by linarith
  have t: "clock w \<le> ?t0" "?t0 \<le> ?c0" "?c0 \<le> ?t1" "?t0 \<le> clock ?w3" "?t1 \<le> clock ?w3"
    using l l' now [of ?r] now [of ?w1] now [of ?w2] unfolding later_def by linarith+
  have run: "run_state (waitForNodesReady fuel a np) w =
      run_state (waitForNodesReadyLoop fuel a ?sel ?m ?t0 ?tk ?dl) ?w3"
    by (simp add: waitForNodesReady_def NewTicker_def requiredNodes_quiet(2) [OF assms(1)])
  have T: "0 < nodesTimeout np" by (simp add: nodesTimeout_def)
  have "?dl - clock ?w3 \<le> int (nat ((nodesTimeout np + 1) div 2)) * tickPeriod ?tk"
    using t(5) T by (simp add: Second_def)
  then have "if ?m \<le> i32 (ready_nodes ?sel (view ?w3)) then 0 < fuel
      else enough_rounds fuel ?dl ?tk (clock ?w3) (luck ?w3)"
    using assms(5) luck unfolding enough_rounds_def v by (meson add_left_mono le_less_trans)
  then have "waited a clock ?w3 (i32 (ready_nodes ?sel (view w))) ?m ?t0 ?dl
        (run_state (waitForNodesReadyLoop fuel a ?sel ?m ?t0 ?tk ?dl) ?w3) \<and>
      view (final (waitForNodesReadyLoop fuel a ?sel ?m ?t0 ?tk ?dl) ?w3) = view w"
    using waitForNodesReadyLoop_quiet [OF assms(1-4), of ?tk ?m ?sel ?w3 fuel ?dl ?t0, unfolded v]
    by (simp only: v ticker.select_convs) (simp add: Second_def)
  then obtain now where o: "result (waitForNodesReady fuel a np) w =
        Some (i32 (ready_nodes ?sel (view w)), secondsSince a ?t0 now, None)"
      "clock ?w3 \<le> now" "now \<le> clock (final (waitForNodesReady fuel a np) w)"
      "i32 (ready_nodes ?sel (view w)) < ?m \<longrightarrow> ?dl \<le> now"
      "view (final (waitForNodesReady fuel a np) w) = view w"
    unfolding waited_def run by blast
  have "?t0 + nodesTimeout np * Second \<le> ?dl" "?t0 \<le> now" using t(2-5) o(2) by linarith+
  with o t(1) show ?thesis by (intro exI [of _ ?t0] exI [of _ now]) auto
qed

definition node_policy :: startupNodeReadinessPolicy where
  "node_policy = \<lparr>nodes_Enabled = True, nodes_TimeoutSeconds = 10, MinReadyNodes = 2,
     RequireAllNodes = False, nodes_NodeSelector = None\<rparr>"

definition worker_mem :: mem where
  "worker_mem = sample_mem\<lparr>mNodes := [sample_node ''n1'' ConditionTrue, sample_node ''n2'' ConditionFalse]\<rparr>"

theorem waitForNodesReady_terminates_witness:
  "\<exists>start now. result (waitForNodesReady 7 mem_api node_policy) worker_mem =
     Some (1, secondsSince mem_api start now, None) \<and> start + 10 * Second \<le> now"
proof -
  have "result (countReadyWorkerNodes mem_api None) worker_mem = Inr 1"
    by (simp add: countReadyWorkerNodes_def mem_ops worker_mem_def matchesSelector_def selectorOrWorkers_def
        workerSelector_def sample_node_def isNodeReady_def)
  then have n: "i32 (ready_nodes None (mem_view worker_mem)) = 1"
    using countReady_quiet(2) [OF mem_quiet, of None worker_mem] by simp
  have np: "nodes_NodeSelector node_policy = None" "required_nodes node_policy c = 2" "nodesTimeout node_policy = 10" for c
    by (simp_all add: node_policy_def required_nodes_def nodesTimeout_def)
  have fuel: "if (2::int) \<le> 1 then 0 < (7::nat) else nat ((10 + 1) div 2) + 1 + 0 < 7" by simp
  from waitForNodesReady_terminates [OF mem_quiet mem_clock mem_draw mem_uncancelled, of node_policy worker_mem 7,
      unfolded np n, OF fuel]
  show ?thesis by auto
qed

subsection \<open>The phases of the startup keep to their policies\<close>

text \<open>A run that leaves the nodes and the policies outside of \<open>K\<close> alone.\<close>

definition keeps :: "('w \<Rightarrow> cluster) \<Rightarrow> nsname set \<Rightarrow> 'w \<Rightarrow> 'w \<Rightarrow> bool" where
  "keeps view K w w' \<longleftrightarrow> cNodes (view w') = cNodes (view w) \<and>
     (\<forall>k. k \<notin> K \<longrightarrow> cPolicies (view w') k = cPolicies (view w) k)"

lemma keeps_preorder: "preorder_rel (keeps view K)"
  by (rule preorder_relI) (simp_all add: keeps_def)

lemma keepsD: "keeps view K w w' \<Longrightarrow> k \<notin> K \<Longrightarrow> cPolicies (view w') k = cPolicies (view w) k"
  unfolding keeps_def by blast

text \<open>
  Two laws for runs in which a write may fail and goroutines run side by side. A write, whether it
  succeeds or not, touches no policy but the one it names and no node; goroutines share nothing but
  the API server, so what every one of them leaves alone from any world is left alone by all.
\<close>

definition own_writes :: "'w api \<Rightarrow> ('w \<Rightarrow> cluster) \<Rightarrow> bool" where
  "own_writes a view \<longleftrightarrow>
     (\<forall>p b. state_io_rel (keeps view {policy_key p}) (PatchPolicyStatus a p b)) \<and>
     (\<forall>p. state_io_rel (keeps view {policy_key p}) (UpdatePolicyStatus a p)) \<and>
     (\<forall>d b. state_io_rel (keeps view {}) (PatchDeployment a d b)) \<and>
     (\<forall>d b. state_io_rel (keeps view {}) (PatchStatefulSet a d b)) \<and>
     (\<forall>d g. state_io_rel (keeps view {}) (DeletePod a d g))"

definition go_law :: "'w api \<Rightarrow> ('w \<Rightarrow> cluster) \<Rightarrow> bool" where
  "go_law a view \<longleftrightarrow> (\<forall>K ms. (\<forall>m \<in> set ms. state_io_rel (keeps view K) m) \<longrightarrow>
     state_io_rel (keeps view K) (GoWait a ms))"

lemma keeps_mono: "state_io_rel (keeps view K) m \<Longrightarrow> K \<subseteq> L \<Longrightarrow> state_io_rel (keeps view L) m"
  unfolding state_io_rel_def keeps_def by blast

lemma keeps_looks: "looks view m \<Longrightarrow> state_io_rel (keeps view K) m"
  unfolding looks_def state_io_rel_def keeps_def by (metis snd_conv)

lemma keeps_writes:
  assumes "own_writes a view"
  shows "policy_key p \<in> K \<Longrightarrow> state_io_rel (keeps view K) (PatchPolicyStatus a p b)"
    and "policy_key p \<in> K \<Longrightarrow> state_io_rel (keeps view K) (UpdatePolicyStatus a p)"
    and "state_io_rel (keeps view K) (PatchDeployment a d e)"
    and "state_io_rel (keeps view K) (PatchStatefulSet a d e)"
    and "state_io_rel (keeps view K) (DeletePod a pod g)"
  using assms keeps_mono [of view "{policy_key p}" "PatchPolicyStatus a p b" K]
    keeps_mono [of view "{policy_key p}" "UpdatePolicyStatus a p" K]
    keeps_mono [of view "{}" "PatchDeployment a d e" K] keeps_mono [of view "{}" "PatchStatefulSet a d e" K]
    keeps_mono [of view "{}" "DeletePod a pod g" K]
  unfolding own_writes_def by blast+

text \<open>A fetched policy has the key that was asked for.\<close>

lemma keeps_GetPolicy:
  assumes "quiet_cluster a view" and "\<And>p. policy_key p = k \<Longrightarrow> state_io_rel (keeps view K) (f (Inr p))"
    and "\<And>e. state_io_rel (keeps view K) (f (Inl e))"
  shows "state_io_rel (keeps view K) (State_Monad.bind (GetPolicy a k) f)"
proof
  fix r w w'
  assume run: "run_state (State_Monad.bind (GetPolicy a k) f) w = (r, w')"
  have "state_io_rel (keeps view K) (f (result (GetPolicy a k) w))"
  proof (cases "result (GetPolicy a k) w")
    case (Inr p)
    then have "cPolicies (view w) k = Some p"
      using reads_result [OF quiet_readD(1) [OF assms(1)], of w k]
      by (cases "cPolicies (view w) k") (auto simp: found_def)
    then show ?thesis using assms(2) quiet_keyed(1) [OF assms(1)] by (simp add: Inr)
  qed (simp add: assms(3))
  from io_final [OF this, of "final (GetPolicy a k) w"] run show "keeps view K w w'"
    by (simp add: keeps_def quiet_view [OF assms(1)])
qed

lemma keeps_GetPolicy_case:
  assumes "quiet_cluster a view" and "\<And>p. policy_key p = k \<Longrightarrow> state_io_rel (keeps view K) (g p)"
    and "\<And>e. state_io_rel (keeps view K) (f e)"
  shows "state_io_rel (keeps view K) (State_Monad.bind (GetPolicy a k) (\<lambda>r. case r of Inl e \<Rightarrow> f e | Inr p \<Rightarrow> g p))"
  by (rule keeps_GetPolicy [OF assms(1)]) (simp_all add: assms(2,3))

lemma keeps_status_blocks:
  assumes q: "quiet_cluster a view" and own: "own_writes a view" and k: "k \<in> K"
  shows "state_io_rel (keeps view K) (patchStatus a k change)"
    and "state_io_rel (keeps view K) (updateLatestStatus a k change)"
proof -
  note R = keeps_preorder [of view K]
  show "state_io_rel (keeps view K) (patchStatus a k change)"
    and "state_io_rel (keeps view K) (updateLatestStatus a k change)"
    unfolding patchStatus_def updateLatestStatus_def getModifyWrite_def
    by (intro io_retry [OF quiet_retry [OF q] R] keeps_GetPolicy [OF q] keeps_looks [OF looks_calls(8) [OF q]];
        simp add: io_return [OF R] keeps_writes [OF own] k)+
qed

lemma keeps_freeze:
  assumes q: "quiet_cluster a view" and own: "own_writes a view"
  shows "state_io_rel (keeps view K) (freezeDeployment a d p)" and "state_io_rel (keeps view K) (freezeStatefulSet a d p)"
proof -
  note R = keeps_preorder [of view K]
  show "state_io_rel (keeps view K) (freezeDeployment a d p)" and "state_io_rel (keeps view K) (freezeStatefulSet a d p)"
    unfolding freezeDeployment_def freezeStatefulSet_def getModifyWrite_def
    by (intro io_retry [OF quiet_retry [OF q] R] io_bind [OF R] io_case_sum io_case_option io_return [OF R]
        keeps_writes [OF own] keeps_looks looks_calls [OF q])+
qed

lemma looks_lists:
  assumes "quiet_cluster a view"
  shows "looks view (listDeployments a ns sel)" and "looks view (listStatefulSets a ns sel)"
  unfolding listDeployments_def listStatefulSets_def by (intro looks_intros looks_calls [OF assms])+

lemma keeps_ApplyStartupPolicy:
  assumes q: "quiet_cluster a view" and own: "own_writes a view" and k: "policy_key p \<in> K"
  shows "state_io_rel (keeps view K) (ApplyStartupPolicy fuel a p)"
proof -
  note R = keeps_preorder [of view K]
  note io = io_return [OF R] io_bind [OF R] io_if io_case_sum io_case_option io_for_each [OF R]
    keeps_status_blocks [OF q own] keeps_freeze [OF q own] keeps_looks [OF looks_calls(5) [OF q]]
    keeps_looks [OF looks_calls(16) [OF q]] keeps_looks [OF looks_lists(1) [OF q]] keeps_looks [OF looks_lists(2) [OF q]]
  have fr: "state_io_rel (keeps view K) (startupFreeze a x now)" if "policy_key x \<in> K" for x now
    unfolding startupFreeze_def freezeNow_def
    by (intro io keeps_writes(2) [OF own]) (use that in \<open>simp_all add: policy_key_def\<close>)
  have st: "state_io_rel (keeps view K) (startupResume a x now)" "state_io_rel (keeps view K) (markStartup a x now act)"
    if "policy_key x \<in> K" for x now act
    unfolding startupResume_def markStartup_def using that by (intro io; simp)+
  show ?thesis
  proof
    fix r w w'
    assume run: "run_state (ApplyStartupPolicy fuel a p) w = (r, w')"
    let ?now = "result (Now a) w" and ?w = "final (Now a) w"
    let ?p = "p\<lparr>Status := (Status p)\<lparr>LastStartupAt := Some ?now\<rparr>\<rparr>"
    let ?v = "final (checkStartupNodes fuel a ?p) ?w"
    have kp: "policy_key ?p \<in> K" using k by (simp add: policy_key_def)
    have v: "view ?w = view w" "view ?v = view w"
      by (simp_all add: looks_final [OF checkStartupNodes_quiet(1) [OF q]] quiet_view [OF q])
    show "keeps view K w w'"
    proof (cases "StartupPolicy (Spec p) = StartupPolicyIgnore")
      case True
      then have "w' = final (markStartup a ?p ?now ''SKIPPED_IGNORE'') ?w"
        using run by (simp add: ApplyStartupPolicy_def Let_def)
      then show ?thesis
        using io_final [OF st(2) [OF kp, of ?now "''SKIPPED_IGNORE''"], of ?w] by (simp add: keeps_def v)
    next
      case False
      show ?thesis
      proof (cases "result (checkStartupNodes fuel a ?p) ?w")
        case None
        then show ?thesis using run False v by (simp add: ApplyStartupPolicy_def Let_def keeps_def)
      next
        case (Some p1)
        then have k1: "policy_key p1 \<in> K" "Spec p1 = Spec p" using checkStartupNodes_quiet(2) [OF q Some] kp by auto
        have "keeps view K ?v w'"
          using run False Some io_final [OF fr [OF k1(1), of ?now], of ?v] io_final [OF st(1) [OF k1(1), of ?now], of ?v]
            io_final [OF st(2) [OF k1(1), of ?now "''SKIPPED_UNKNOWN_POLICY''"], of ?v]
          by (auto simp: ApplyStartupPolicy_def Let_def k1(2) split: startupPolicy.splits)
        then show ?thesis by (simp add: keeps_def v)
      qed
    qed
  qed
qed

lemma looks_waits:
  assumes q: "quiet_cluster a view"
  shows "looks view (waitFrozenLoop fuel a k t p)" and "looks view (waitForReplicasZero fuel a ns sel)"
proof -
  note calls = looks_calls [OF q] looks_lists [OF q]
  show "looks view (waitFrozenLoop fuel a k t p)"
  proof (induction fuel arbitrary: p)
    case (Suc fuel)
    show ?case unfolding waitFrozenLoop.simps by (intro looks_intros calls Suc)
  qed (simp add: looks_return)
  have "looks view (waitForReplicasZeroLoop fuel a ns sel t)" for t
  proof (induction fuel)
    case (Suc fuel)
    show ?case unfolding waitForReplicasZeroLoop.simps by (intro looks_intros calls Suc)
  qed (simp add: looks_return)
  then show "looks view (waitForReplicasZero fuel a ns sel)"
    unfolding waitForReplicasZero_def by (intro looks_intros calls)
qed

lemma keeps_processPolicy:
  assumes q: "quiet_cluster a view" and own: "own_writes a view" and k: "policy_key p \<in> K"
  shows "state_io_rel (keeps view K) (processPolicyWithDelayAndFreeze fuel a p)"
proof -
  note R = keeps_preorder [of view K]
  have "looks view (do {
      r \<leftarrow> GetPolicy a (policy_key p);
      (case r of
         Inl e \<Rightarrow> return (Some ())
       | Inr latestPolicy \<Rightarrow>
           if StartupPolicy (Spec latestPolicy) \<noteq> StartupPolicyFreeze then return (Some ())
           else do {
             delayed \<leftarrow> (if FreezeDelay (Spec latestPolicy) > 0 then do {
                 _ \<leftarrow> Sleep a (FreezeDelay (Spec latestPolicy));
                 GetPolicy a (policy_key p)
               } else return (Inr latestPolicy));
             (case delayed of
                Inl e \<Rightarrow> return (Some ())
              | Inr latestPolicy \<Rightarrow> do {
                  startTime \<leftarrow> Now a;
                  polled \<leftarrow> waitFrozenLoop fuel a (policy_key p) startTime latestPolicy;
                  (case polled of
                     None \<Rightarrow> return None
                   | Some latest \<Rightarrow> do {
                       zero \<leftarrow> waitForReplicasZero fuel a (TargetNamespace (Spec latest)) (Selector (Spec latest));
                       return (case zero of None \<Rightarrow> None | Some _ \<Rightarrow> Some ())
                     })
                })
           })
    })"
    by (intro looks_intros looks_calls [OF q] looks_waits [OF q])
  then show ?thesis
    unfolding processPolicyWithDelayAndFreeze_def
    by (intro io_bind [OF R] io_case_option io_return [OF R] keeps_ApplyStartupPolicy [OF q own k] keeps_looks)
qed

lemma keeps_processGroups:
  assumes q: "quiet_cluster a view" and own: "own_writes a view" and go: "go_law a view"
    and "\<And>p. p \<in> set (concat groups) \<Longrightarrow> policy_key p \<in> K"
  shows "state_io_rel (keeps view K) (processGroups fuel a groups)"
  using assms(4)
proof (induction groups)
  case Nil
  show ?case by (simp add: io_return [OF keeps_preorder])
next
  case (Cons grp groups)
  have "state_io_rel (keeps view K) m" if "m \<in> set (map (processPolicyWithDelayAndFreeze fuel a) grp)" for m
    using that Cons.prems keeps_processPolicy [OF q own] by auto
  then have "state_io_rel (keeps view K) (GoWait a (map (processPolicyWithDelayAndFreeze fuel a) grp))"
    using go unfolding go_law_def by blast
  then show ?case
    using Cons unfolding processGroups.simps
    by (intro io_bind [OF keeps_preorder] io_case_option io_return [OF keeps_preorder]) auto
qed

lemma keeps_handleNodeFailureEvent:
  assumes q: "quiet_cluster a view" and own: "own_writes a view"
  shows "state_io_rel (keeps view K) (handleNodeFailureEvent a p)"
proof -
  note R = keeps_preorder [of view K]
  have refs: "looks view (resolveRefs a ns refs)" for ns refs
    by (induction refs) (auto intro!: looks_intros looks_calls [OF q])
  have count: "looks view (countPods a ds ss f pods ws)" for ds ss f pods ws
    by (induction pods arbitrary: ws)
      (auto simp: resolveWorkloadOwnerUID_def intro!: looks_intros refs)
  have find: "looks view (findFullyLocalWorkloads a p f)" for f
    unfolding findFullyLocalWorkloads_def by (intro looks_intros looks_lists [OF q] looks_calls [OF q] count)
  have del: "state_io_rel (keeps view K) (forceDeleteLoop a f pods)" for f pods
    by (induction pods) (auto intro!: io_return [OF R] io_bind [OF R] keeps_writes [OF own])
  have scale: "(\<And>d. state_io_rel (keeps view K) (fr d)) \<Longrightarrow> state_io_rel (keeps view K) (scaleDownLoop fr pre ds acc)"
    for fr pre ds acc
    by (induction ds arbitrary: acc) (auto intro!: io_return [OF R] io_bind [OF R])
  show ?thesis
    unfolding handleNodeFailureEvent_def forceDeleteTerminatingPods_def
    by (intro io_bind [OF R] io_if io_case_sum io_case_prod io_return [OF R] del scale keeps_freeze [OF q own]
        keeps_looks find looks_calls [OF q])
qed

lemma keeps_failureAtStartup:
  assumes q: "quiet_cluster a view" and own: "own_writes a view" and k: "policy_key p \<in> K"
  shows "state_io_rel (keeps view K) (HandleNodeFailureAtStartup a p f)"
proof -
  note R = keeps_preorder [of view K]
  show ?thesis
    unfolding HandleNodeFailureAtStartup_def Let_def policy_key_Status
    by (intro keeps_GetPolicy_case [OF q] io_bind [OF R] io_case_sum io_case_option io_return [OF R]
        keeps_handleNodeFailureEvent [OF q own] keeps_looks [OF looks_calls(5) [OF q]] keeps_writes(2) [OF own])
      (simp add: k)
qed

lemma keeps_prescanPolicies:
  assumes q: "quiet_cluster a view" and own: "own_writes a view"
    and "\<And>p. p \<in> set ps \<Longrightarrow> HandleNodeFailure (Spec p) \<Longrightarrow> policy_key p \<in> K"
  shows "state_io_rel (keeps view K) (prescanPolicies a f ps)"
    and "result (prescanPolicies a f ps) w = filter (\<lambda>p. \<not> HandleNodeFailure (Spec p)) ps"
proof -
  note R = keeps_preorder [of view K]
  show "state_io_rel (keeps view K) (prescanPolicies a f ps)"
    using assms(3)
    by (induction ps) (auto intro!: io_return [OF R] io_bind [OF R] keeps_failureAtStartup [OF q own])
  show "result (prescanPolicies a f ps) w = filter (\<lambda>p. \<not> HandleNodeFailure (Spec p)) ps"
    by (induction ps arbitrary: w) auto
qed

text \<open>The resume policies that the pre-scan leaves to be marked.\<close>

definition marked_at_startup :: "cluster \<Rightarrow> policy \<Rightarrow> bool" where
  "marked_at_startup c p \<longleftrightarrow> StartupPolicy (Spec p) = StartupPolicyResume \<and>
     (HandleNodeFailure (Spec p) \<longrightarrow> (\<forall>n \<in> set (cNodes c). \<not> reportedNotReady n))"

lemma prescan_quiet:
  assumes q: "quiet_cluster a view" and own: "own_writes a view"
  shows "\<exists>P. result (prescan a ps) w = filter P ps \<and>
    (\<forall>p. StartupPolicy (Spec p) = StartupPolicyResume \<longrightarrow> marked_at_startup (view w) p \<longrightarrow> P p) \<and>
    keeps view (policy_key ` {p \<in> set ps. \<not> P p}) w (final (prescan a ps) w)"
proof -
  let ?v = "final (ReaderListNodes a) w"
  have nodes: "result (ReaderListNodes a) w = Inr (cNodes (view w))" and v: "view ?v = view w"
    using reads_result [OF quiet_readD(10) [OF q], of w] by (simp_all add: quiet_view [OF q])
  show ?thesis
  proof (cases "filter reportedNotReady (cNodes (view w))")
    case Nil
    then have "\<forall>n \<in> set (cNodes (view w)). \<not> reportedNotReady n" by (simp add: filter_empty_conv)
    then show ?thesis
      using Nil nodes v by (intro exI [of _ "\<lambda>p. True"]) (simp add: prescan_def marked_at_startup_def keeps_def)
  next
    case (Cons n ns)
    then have "n \<in> set (cNodes (view w)) \<and> reportedNotReady n" by (metis list.set_intros(1) mem_Collect_eq set_filter)
    then have bad: "\<not> HandleNodeFailure (Spec p)" if "marked_at_startup (view w) p" for p
      using that unfolding marked_at_startup_def by blast
    let ?P = "\<lambda>p. \<not> HandleNodeFailure (Spec p)"
    let ?K = "policy_key ` {p \<in> set ps. \<not> ?P p}"
    have "state_io_rel (keeps view ?K) (prescanPolicies a (node_Name n) ps)"
      by (rule keeps_prescanPolicies(1) [OF q own]) auto
    from io_final [OF this, of ?v] have "keeps view ?K w (final (prescanPolicies a (node_Name n) ps) ?v)"
      by (simp add: keeps_def v)
    then show ?thesis
      using Cons nodes bad keeps_prescanPolicies(2) [OF q own, of ps UNIV "node_Name n" ?v]
      by (intro exI [of _ ?P]) (simp add: prescan_def)
  qed
qed

lemma freezeGroups_subset:
  assumes "sort_law a"
  shows "set (concat (freezeGroups a ps)) \<subseteq> set ps"
  using sort_lawD(3) [OF assms weak_orders(1), of ps] by (auto simp: freezeGroups_def Let_def split: if_splits)

lemma applyStartupPolicies_marks:
  assumes q: "quiet_cluster a view" and s: "sort_law a" and own: "own_writes a view" and go: "go_law a view"
    and fuel: "result (applyStartupPolicies fuel a) w \<noteq> None"
    and p: "cPolicies (view w) k = Some p" and marked: "marked_at_startup (view w) p"
  shows "\<exists>p'. cPolicies (view (final (applyStartupPolicies fuel a) w)) k = Some p' \<and> started p p'"
proof -
  obtain items where items: "result (ListPolicies a) w = Inr items"
    using reads_result [OF quiet_readD(6) [OF q], of w] by (auto simp: lists_def)
  note l = listed_policies [OF q items]
  let ?fz = "withStartupPolicy StartupPolicyFreeze items" and ?rs = "withStartupPolicy StartupPolicyResume items"
  let ?w0 = "final (ListPolicies a) w" and ?groups = "freezeGroups a (withStartupPolicy StartupPolicyFreeze items)"
  let ?w1 = "final (processGroups fuel a ?groups) ?w0"
  let ?w2 = "final (prescan a ?rs) ?w1"
  have same: "x = y" if "x \<in> set items" "y \<in> set items" "policy_key x = policy_key y" for x y
    using l(1) that unfolding policies.listed_def by (metis option.inject)
  have v0: "view ?w0 = view w" by (rule quiet_view [OF q])
  have "state_io_rel (keeps view (policy_key ` set ?fz)) (processGroups fuel a ?groups)"
    using freezeGroups_subset [OF s, of ?fz] by (intro keeps_processGroups [OF q own go]) blast
  from io_final [OF this, of ?w0] have k1: "keeps view (policy_key ` set ?fz) w ?w1"
    by (simp add: keeps_def v0)
  obtain P where P: "result (prescan a ?rs) ?w1 = filter P ?rs"
    "\<forall>p. StartupPolicy (Spec p) = StartupPolicyResume \<longrightarrow> marked_at_startup (view ?w1) p \<longrightarrow> P p"
    "keeps view (policy_key ` {p \<in> set ?rs. \<not> P p}) ?w1 ?w2"
    using prescan_quiet [OF q own] by blast
  let ?sorted = "sortedResume a (filter P ?rs)"
  have ms: "mset ?sorted = mset (filter P ?rs)"
    using sort_lawD(1) [OF s weak_orders(2)] by (cases "filter P ?rs = []") (simp_all add: sortedResume_def)
  then have set: "set ?sorted = set (filter P ?rs)" by (metis set_mset_mset)
  have stored: "cPolicies (view ?w2) (policy_key x) = Some x" if x: "x \<in> set ?sorted" for x
  proof -
    have i: "x \<in> set items" "StartupPolicy (Spec x) = StartupPolicyResume" "P x"
      using x unfolding set by (auto simp: withStartupPolicy_def)
    have "policy_key x \<notin> policy_key ` {p \<in> set ?rs. \<not> P p}"
      using same [OF i(1)] i(3) by (auto simp: withStartupPolicy_def)
    then have "cPolicies (view ?w2) (policy_key x) = cPolicies (view ?w1) (policy_key x)"
      by (rule keepsD [OF P(3)])
    also have "policy_key x \<notin> policy_key ` set ?fz"
      using same [OF i(1)] i(2) by (auto simp: withStartupPolicy_def)
    then have "cPolicies (view ?w1) (policy_key x) = cPolicies (view w) (policy_key x)"
      by (rule keepsD [OF k1])
    finally show ?thesis using l(1) i(1) by (simp add: policies.listed_def)
  qed
  have "policies.listed (view w) ?sorted"
    using listed_mset [OF l(1), of ?sorted "\<lambda>p. StartupPolicy (Spec p) = StartupPolicyResume \<and> P p"] ms
    by (simp add: withStartupPolicy_def conj_commute)
  then have ls: "policies.listed (view ?w2) ?sorted" using stored by (simp add: policies.listed_def)
  have resume: "StartupPolicy (Spec x) = StartupPolicyResume" if "x \<in> set ?sorted" for x
    using that unfolding set by (simp add: withStartupPolicy_def)
  have done': "result (processGroups fuel a ?groups) ?w0 = Some ()"
    using fuel items by (cases "result (processGroups fuel a ?groups) ?w0") (simp_all add: applyStartupPolicies_def)
  then have "result (markPolicies fuel a ?sorted) ?w2 \<noteq> None"
    using fuel items P(1) by (cases "result (markPolicies fuel a ?sorted) ?w2") (simp_all add: applyStartupPolicies_def)
  then obtain m where m: "view (final (markPolicies fuel a ?sorted) ?w2) = (view ?w2)\<lparr>cPolicies := m\<rparr>"
    "\<forall>p \<in> set ?sorted. \<exists>p'. m (policy_key p) = Some p' \<and> started p p'"
    and some: "result (markPolicies fuel a ?sorted) ?w2 = Some ()"
    using markPolicies_quiet [OF q ls resume, of fuel] by (auto simp del: split_paired_All)
  let ?w3 = "final (markPolicies fuel a ?sorted) ?w2"
  have final': "final (applyStartupPolicies fuel a) w = final (triggerPending a) ?w3"
    using items done' P(1) some by (simp add: applyStartupPolicies_def)
  have "cNodes (view ?w1) = cNodes (view w)" using k1 by (simp add: keeps_def)
  then have "P p" using P(2) marked by (simp add: marked_at_startup_def)
  then have "p \<in> set ?sorted"
    using p l(2) marked unfolding set by (auto simp: withStartupPolicy_def marked_at_startup_def ranI)
  then obtain x where x: "m (policy_key p) = Some x" "started p x" using m(2) by blast
  have "same_but_meta (Some x) (cPolicies (view (final (triggerPending a) ?w3)) k)"
    using triggerPending_quiet [OF q, of ?w3 k] quiet_keyed(1) [OF q p] x(1) by (simp add: m(1))
  then obtain y where "cPolicies (view (final (triggerPending a) ?w3)) k = Some y" "Spec y = Spec x" "Status y = Status x"
    by (auto simp: same_but_meta_def option_rel_Some1)
  then show ?thesis using started_meta [OF x(2)] final' by auto
qed

text \<open>
  C13: the flag that lets the reconciler resume goes up only after the resume policies were marked. When
  a run of the startup procedure raises it, each policy with startup policy Resume that was not resumed
  is idle and pending, its delay has started and its operation id is acknowledged; the ones already
  resumed stay resumed. Excepted are the policies that handle node failures when some node is reported
  not ready: the pre-scan takes them out. Freeze policies, waits for nodes and not-ready nodes are
  allowed, under two laws of the client: a write touches no other policy (\<open>own_writes\<close>), and what every
  goroutine of a group leaves alone is left alone by the group (\<open>go_law\<close>).
\<close>

theorem startup_flag_after_marking:
  assumes "quiet_cluster a view" and "sort_law a" and "own_writes a view" and "go_law a view"
    and "\<not> startupComplete s" and "startupComplete (final (startupRunnable fuel a synced) s)"
    and "cPolicies (sysview view s) k = Some p" and "StartupPolicy (Spec p) = StartupPolicyResume"
    and "HandleNodeFailure (Spec p) \<longrightarrow> (\<forall>n \<in> set (cNodes (sysview view s)). \<not> reportedNotReady n)"
  shows "\<exists>p'. cPolicies (sysview view (final (startupRunnable fuel a synced) s)) k = Some p' \<and> started p p'"
proof -
  let ?n = "final (Now a) (final (ReaderListNodes a) (world s))"
  let ?dl = "result (Now a) (final (ReaderListNodes a) (world s)) + 50 * Second"
  have scan: "looks view (nodeScan f a dl)" for f dl
  proof (induction f)
    case (Suc f)
    then show ?case unfolding nodeScan.simps by (intro looks_intros looks_calls [OF assms(1)])
  qed (simp add: looks_return)
  let ?w = "final (nodeScan fuel a ?dl) ?n"
  have v: "view ?w = view (world s)" by (simp add: looks_final [OF scan] quiet_view [OF assms(1)])
  have "synced" and "result (nodeScan fuel a ?dl) ?n = Some True"
    and fuel: "result (applyStartupPolicies fuel a) ?w \<noteq> None"
    using assms(5,6) by (auto simp: startupRunnable_def split: option.splits bool.splits if_splits)
  then have "world (final (startupRunnable fuel a synced) s) = final (applyStartupPolicies fuel a) ?w"
    by (auto simp: startupRunnable_def MarkStartupComplete_def)
  moreover have "marked_at_startup (view ?w) p" using assms(8,9) by (simp add: marked_at_startup_def v)
  moreover have "cPolicies (view ?w) k = Some p" using assms(7) by (simp add: v)
  ultimately show ?thesis
    using applyStartupPolicies_marks [OF assms(1-4) fuel] by simp
qed

lemma mem_own_writes: "own_writes mem_api mem_view"
proof -
  have other: "lookup_key key (replace_key key x xs) k = lookup_key key xs k" if "k \<noteq> key x"
    for key :: "'o \<Rightarrow> 'k" and x xs k
    using that by (induction xs) (auto simp: lookup_key_def by_key_def replace_key_def)
  have "policy_key (stored_policy ((the (lookup_key policy_key ps (policy_key p)))\<lparr>Status := s\<rparr>)) = policy_key p"
    if "lookup_key policy_key ps (policy_key p) \<noteq> None" for ps p s
    using that lookup_key_Some by fastforce
  then show ?thesis
    unfolding own_writes_def
    by (auto simp: mem_ops state_io_rel_def keeps_def mem_view_def other simp del: split_paired_All)
qed

lemma mem_go: "go_law mem_api mem_view"
proof -
  have "(\<forall>m \<in> set ms. state_io_rel (keeps mem_view K) m) \<Longrightarrow> state_io_rel (keeps mem_view K) (in_turn ms)" for K ms
    by (induction ms) (auto intro!: io_return [OF keeps_preorder] io_bind [OF keeps_preorder])
  then show ?thesis by (simp add: go_law_def mem_ops)
qed

definition starting_policy :: policy where
  "starting_policy = (sample_policy ''p'')\<lparr>Spec := sample_spec\<lparr>StartupPolicy := StartupPolicyResume\<rparr>\<rparr>"

definition booting :: "mem sys" where
  "booting = throttled_sys\<lparr>startupComplete := False,
     world := sample_mem\<lparr>mPolicies := [starting_policy], mNodes := [sample_node ''n1'' ConditionFalse]\<rparr>\<rparr>"

theorem startup_flag_after_marking_witness:
  "\<exists>p'. cPolicies (sysview mem_view (final (startupRunnable 1 mem_api True) booting)) (''ops'', ''p'') = Some p' \<and>
     PendingStartupResume (Status p')"
proof -
  have pol: "cPolicies (sysview mem_view booting) (''ops'', ''p'') = Some starting_policy"
    by (simp add: booting_def mem_view_def lookup_key_def by_key_def starting_policy_def sample_defs key_defs)
  have sp: "StartupPolicy (Spec starting_policy) = StartupPolicyResume" "\<not> HandleNodeFailure (Spec starting_policy)"
    "StartupNodeReadinessPolicy (Spec starting_policy) = None"
    by (simp_all add: starting_policy_def sample_defs)
  have scan: "list_ex unhealthyNode (mNodes (world booting))"
    by (simp add: booting_def sample_node_def unhealthyNode_def)
  have items: "list_keys policy_key (mPolicies (world booting)) = [starting_policy]"
    by (simp add: booting_def list_keys_def by_key_def)
  have applied: "result (ApplyStartupPolicy 1 mem_api starting_policy) w \<noteq> None" for w
    by (simp add: ApplyStartupPolicy_def checkStartupNodes_def Let_def sp)
  have "result (markPolicies 1 mem_api [starting_policy]) w = Some ()" for w
  proof -
    obtain e where "result (ApplyStartupPolicy 1 mem_api starting_policy) w = Some e"
      using applied [of w] by blast
    then show ?thesis by (simp only: markPolicies.simps run_bind option.case run_state_return fst_conv)
  qed
  moreover have "result (prescanPolicies mem_api f [starting_policy]) w = [starting_policy]" for f w
    by (simp add: sp)
  then have "result (prescan mem_api [starting_policy]) w = [starting_policy]" for w
    by (simp add: prescan_def mem_ops split: list.split)
  ultimately have "result (applyStartupPolicies 1 mem_api) (world booting) = Some None"
    by (simp add: applyStartupPolicies_def mem_ops items withStartupPolicy_def sp freezeGroups_def sortedResume_def
        insertion_sort_def)
  then have "startupComplete (final (startupRunnable 1 mem_api True) booting)"
    by (simp add: startupRunnable_def scan mem_ops MarkStartupComplete_def)
  moreover have "\<not> startupComplete booting" by (simp add: booting_def)
  ultimately obtain p' where "cPolicies (sysview mem_view (final (startupRunnable 1 mem_api True) booting)) (''ops'', ''p'') = Some p'"
    "started starting_policy p'"
    using startup_flag_after_marking [OF mem_quiet mem_sort mem_own_writes mem_go _ _ pol sp(1)] sp(2) by blast
  then show ?thesis by (auto simp: started_def starting_policy_def sample_defs)
qed

end
