(* ===== verification/PreConditions.thy ===== *)
theory PreConditions
  imports PolicyRules
begin

text \<open>
  The pre-conditions of a resume, lines 2623 to 2994 of
  \<open>src/internal/controller/namespacelifecyclepolicy_controller.go\<close>: the readiness of an application,
  the health of an endpoint, the check of all of them, and the wait that repeats the check on a
  ticker until it passes, the policy changes or a deadline expires. The wait can go on for ever when
  no timeout is configured, so it takes fuel, one unit per round of its \<open>select\<close>; with a timeout
  the number of rounds that suffices is computed from it.
\<close>

subsection \<open>Readiness of an application\<close>

text \<open>The loop over the conditions of a Deployment: the first \<open>Available\<close> one decides.\<close>

fun availableOrUnknown :: "(string \<times> string) list \<Rightarrow> bool" where
  "availableOrUnknown [] = True"
| "availableOrUnknown ((ty, st) # rest) =
     (if ty = ''Available'' then st = ''True'' else availableOrUnknown rest)"

definition deploymentReady :: "workload \<Rightarrow> bool" where
  "deploymentReady d =
     (if status_Replicas d = 0 then False
      else if ReadyReplicas d \<noteq> status_Replicas d then False
      else availableOrUnknown (workload_Conditions d))"

definition statefulSetReady :: "workload \<Rightarrow> bool" where
  "statefulSetReady s =
     (if status_Replicas s = 0 then False
      else if ReadyReplicas s \<noteq> status_Replicas s then False
      else True)"

definition checkAppReadiness :: "'w api \<Rightarrow> string \<Rightarrow> ('w, err + bool) state" where
  "checkAppReadiness a appRef =
     (case Split (CHR ''.'') appRef of
        [namespace, name] \<Rightarrow> do {
          r \<leftarrow> GetDeployment a (namespace, name);
          (case r of
             Inr deployment \<Rightarrow> return (Inr (deploymentReady deployment))
           | Inl e \<Rightarrow>
               if \<not> IsNotFound e
               then return (Inl (Wrapf (''failed to get deployment '' @ namespace @ ''/'' @ name) e))
               else do {
                 r' \<leftarrow> GetStatefulSet a (namespace, name);
                 (case r' of
                    Inl e' \<Rightarrow>
                      if IsNotFound e' then return (Inr False)
                      else return (Inl (Wrapf (''failed to get statefulset '' @ namespace @ ''/'' @ name) e'))
                  | Inr statefulSet \<Rightarrow> return (Inr (statefulSetReady statefulSet)))
               })
        }
      | _ \<Rightarrow> return (Inl (Errorf (''invalid app reference format: '' @ appRef @
               '' (expected '' @ [CHR 0x27] @ ''namespace.name'' @ [CHR 0x27] @ '')''))))"

subsection \<open>Health endpoints\<close>

definition expectedCodesOf :: "healthEndpointCheck \<Rightarrow> int list" where
  "expectedCodesOf check =
     (if ExpectedStatusCodes check = [] then [200, 201, 202, 204] else ExpectedStatusCodes check)"

definition healthTimeout :: "healthEndpointCheck \<Rightarrow> duration" where
  "healthTimeout check =
     (let timeout = health_TimeoutSeconds check * Second
      in if timeout = 0 then 5 * Second else timeout)"

definition checkHealthEndpoint :: "'w api \<Rightarrow> healthEndpointCheck \<Rightarrow> ('w, err + bool) state" where
  "checkHealthEndpoint a check =
     (case HttpNewRequest a (URL check) of
        Some e \<Rightarrow> return (Inl (Wrapf (''failed to create request for '' @ URL check) e))
      | None \<Rightarrow> do {
          resp \<leftarrow> HttpDo a (healthTimeout check) (URL check);
          return (case resp of
             Inl e \<Rightarrow> Inr False
           | Inr r \<Rightarrow> Inr (i32 (StatusCode r) \<in> set (expectedCodesOf check)))
        })"

subsection \<open>All pre-conditions\<close>

text \<open>
  The two loops of \<open>checkPreConditions\<close> are one: run a check per element, stop at an error, wrapped
  with a prefix, and collect the label of every element that is not ready.
\<close>

fun failedChecks ::
    "('c \<Rightarrow> ('w, err + bool) state) \<Rightarrow> ('c \<Rightarrow> string) \<Rightarrow> string \<Rightarrow> 'c list \<Rightarrow> string list \<Rightarrow>
     ('w, err + string list) state" where
  "failedChecks check label prefix [] failed = return (Inr failed)"
| "failedChecks check label prefix (c # cs) failed = do {
     ready \<leftarrow> check c;
     (case ready of
        Inl e \<Rightarrow> return (Inl (Wrapf (prefix @ label c) e))
      | Inr True \<Rightarrow> failedChecks check label prefix cs failed
      | Inr False \<Rightarrow> failedChecks check label prefix cs (failed @ [label c]))
   }"

definition waitingFor :: "string \<Rightarrow> string list \<Rightarrow> string list" where
  "waitingFor what failed = (if 0 < length failed then [what @ Join '', '' failed] else [])"

definition preConditionsOn :: "policy \<Rightarrow> preConditionsConfig option" where
  "preConditionsOn policy =
     (case PreConditions (Spec policy) of
        None \<Rightarrow> None
      | Some c \<Rightarrow> if pre_Enabled c then Some c else None)"

definition checkPreConditions :: "'w api \<Rightarrow> policy \<Rightarrow> ('w, err + bool \<times> string) state" where
  "checkPreConditions a policy =
     (case preConditionsOn policy of
        None \<Rightarrow> return (Inr (True, []))
      | Some preConditions \<Rightarrow> do {
          apps \<leftarrow> failedChecks (checkAppReadiness a) (\<lambda>ref. ref) ''failed to check app readiness for ''
                   (AppReadinessChecks preConditions) [];
          (case apps of
             Inl e \<Rightarrow> return (Inl e)
           | Inr failedApps \<Rightarrow> do {
               endpoints \<leftarrow> failedChecks (checkHealthEndpoint a) URL ''failed to check health endpoint ''
                   (HealthEndpointChecks preConditions) [];
               return (case endpoints of
                  Inl e \<Rightarrow> Inl e
                | Inr failedEndpoints \<Rightarrow>
                    (let messages = waitingFor ''waiting for apps: '' failedApps @
                           waitingFor ''waiting for endpoints: '' failedEndpoints
                     in if 0 < length messages then Inr (False, Join ''; '' messages)
                        else Inr (True, ''All pre-conditions passed'')))
             })
        })"

subsection \<open>Waiting for them\<close>

definition updatePreConditionsStatus ::
    "'w api \<Rightarrow> policy \<Rightarrow> preConditionsStatus \<Rightarrow> ('w, err option) state" where
  "updatePreConditionsStatus a policy status =
     patchStatus a (policy_key policy) (\<lambda>latestPolicy. (Status latestPolicy)\<lparr>PreConditionsStatus := Some status\<rparr>)"

definition preStatus :: "bool \<Rightarrow> time \<Rightarrow> bool \<Rightarrow> string \<Rightarrow> preConditionsStatus" where
  "preStatus checking now passed message =
     \<lparr>Checking = checking, LastCheckedAt = Some now, Passed = passed, pre_Message = message\<rparr>"

text \<open>
  The block that every exit of the wait has: the time, and the status with \<open>Checking\<close> and \<open>Passed\<close>
  set, written to the policy; an error of the write is only logged.
\<close>

definition reportPreConditions :: "'w api \<Rightarrow> policy \<Rightarrow> bool \<Rightarrow> bool \<Rightarrow> string \<Rightarrow> ('w, unit) state" where
  "reportPreConditions a policy checking passed message = do {
     now \<leftarrow> Now a;
     _ \<leftarrow> updatePreConditionsStatus a policy (preStatus checking now passed message);
     return ()
   }"

definition newFreezeOperation :: "bool \<Rightarrow> policy \<Rightarrow> bool" where
  "newFreezeOperation isStartupOperation latestPolicy =
     (let opId = OperationId (Spec latestPolicy);
          handled = LastHandledOperationId (Status latestPolicy);
          hasNewOperation = (opId \<noteq> '''' \<and> opId \<noteq> handled);
          hasNewOperation = (if isStartupOperation \<and> handled = '''' then False else hasNewOperation)
      in hasNewOperation \<and> Action (Spec latestPolicy) = LifecycleActionFreeze)"

definition cancelledError :: err where
  "cancelledError = Errorf ''pre-conditions cancelled: new manual Freeze operation''"

definition timeoutError :: "int \<Rightarrow> err" where
  "timeoutError seconds = Errorf (''pre-conditions timeout after '' @ Itoa seconds @ '' seconds'')"

text \<open>
  What a tick does before the check: the policy is read again. \<open>Inl\<close> is a return of the function,
  \<open>Inr\<close> the policy to check with.
\<close>

definition refetchForCheck :: "'w api \<Rightarrow> policy \<Rightarrow> bool \<Rightarrow> ('w, err option + policy) state" where
  "refetchForCheck a policy isStartupOperation = do {
     r \<leftarrow> GetPolicy a (policy_key policy);
     (case r of
        Inl e \<Rightarrow> return (Inr policy)
      | Inr latestPolicy \<Rightarrow>
          if newFreezeOperation isStartupOperation latestPolicy then do {
            _ \<leftarrow> reportPreConditions a latestPolicy False False
                  ''Pre-conditions check cancelled - new manual Freeze operation received'';
            return (Inl (Some cancelledError))
          }
          else if preConditionsOn latestPolicy = None then do {
            _ \<leftarrow> reportPreConditions a latestPolicy False False ''Pre-conditions check cancelled - disabled'';
            return (Inl None)
          }
          else return (Inr latestPolicy))
   }"

text \<open>One tick: \<open>Inl\<close> is a return of the function, \<open>Inr\<close> the policy of the next round.\<close>

definition preConditionsTick :: "'w api \<Rightarrow> policy \<Rightarrow> bool \<Rightarrow> ('w, err option + policy) state" where
  "preConditionsTick a policy0 isStartupOperation = do {
     r \<leftarrow> refetchForCheck a policy0 isStartupOperation;
     (case r of
        Inl ret \<Rightarrow> return (Inl ret)
      | Inr policy \<Rightarrow> do {
          checked \<leftarrow> checkPreConditions a policy;
          (case checked of
             Inl e \<Rightarrow> do {
               _ \<leftarrow> reportPreConditions a policy False False (''Error checking pre-conditions: '' @ err_Error e);
               return (Inl (Some e))
             }
           | Inr (allPassed, message) \<Rightarrow>
               if allPassed then do {
                 _ \<leftarrow> reportPreConditions a policy False True ''All pre-conditions passed'';
                 return (Inl None)
               } else do {
                 _ \<leftarrow> reportPreConditions a policy True False message;
                 return (Inr policy)
               })
        })
   }"

fun waitForPreConditionsLoop ::
    "nat \<Rightarrow> 'w api \<Rightarrow> policy \<Rightarrow> bool \<Rightarrow> int \<Rightarrow> ticker \<Rightarrow> time option \<Rightarrow> ('w, err option option) state" where
  "waitForPreConditionsLoop 0 a policy isStartupOperation timeoutSeconds tk deadline = return None"
| "waitForPreConditionsLoop (Suc fuel) a policy isStartupOperation timeoutSeconds tk deadline = do {
     (ev, tk) \<leftarrow> selectTimers a tk deadline;
     (case ev of
        CtxDone e \<Rightarrow> return (Some (Some e))
      | TimeoutFired \<Rightarrow> do {
          _ \<leftarrow> reportPreConditions a policy False False ''Pre-conditions timeout reached'';
          return (Some (Some (timeoutError timeoutSeconds)))
        }
      | TickerFired \<Rightarrow> do {
          r \<leftarrow> preConditionsTick a policy isStartupOperation;
          (case r of
             Inl ret \<Rightarrow> return (Some ret)
           | Inr policy' \<Rightarrow>
               waitForPreConditionsLoop fuel a policy' isStartupOperation timeoutSeconds tk deadline)
        })
   }"

definition checkIntervalOf :: "preConditionsConfig \<Rightarrow> duration" where
  "checkIntervalOf preConditions =
     (let checkInterval = CheckInterval preConditions * Second
      in if checkInterval = 0 then 5 * Second else checkInterval)"

text \<open>\<open>time.After\<close> reads the clock; \<open>time.NewTicker\<close> panics on an interval that is not positive.\<close>

definition preDeadline :: "'w api \<Rightarrow> preConditionsConfig \<Rightarrow> ('w, time option) state" where
  "preDeadline a preConditions =
     (if pre_TimeoutSeconds preConditions > 0 then do {
        now \<leftarrow> Now a;
        return (Some (now + pre_TimeoutSeconds preConditions * Second))
      } else return None)"

definition waitForPreConditions :: "nat \<Rightarrow> 'w api \<Rightarrow> policy \<Rightarrow> bool \<Rightarrow> ('w, err option option) state" where
  "waitForPreConditions fuel a policy isStartupOperation =
     (case preConditionsOn policy of
        None \<Rightarrow> return (Some None)
      | Some preConditions \<Rightarrow> do {
          deadline \<leftarrow> preDeadline a preConditions;
          _ \<leftarrow> reportPreConditions a policy True False ''Checking pre-conditions...'';
          if checkIntervalOf preConditions \<le> 0
          then return (Some (Some (Panic ''non-positive interval for NewTicker'')))
          else do {
            tk \<leftarrow> NewTicker a (checkIntervalOf preConditions);
            waitForPreConditionsLoop fuel a policy isStartupOperation (pre_TimeoutSeconds preConditions) tk deadline
          }
        })"

subsection \<open>What the checks decide\<close>

text \<open>
  The specification: a reference names a ready Deployment, or, when there is no such Deployment, a
  ready StatefulSet; an endpoint answers with an expected code.
\<close>

definition app_ready :: "cluster \<Rightarrow> string \<Rightarrow> bool" where
  "app_ready c ref \<longleftrightarrow>
     (\<exists>ns name. ref = ns @ ''.'' @ name \<and>
        (case cDeployments c (ns, name) of
           Some d \<Rightarrow> deploymentReady d
         | None \<Rightarrow> (case cStatefulSets c (ns, name) of Some s \<Rightarrow> statefulSetReady s | None \<Rightarrow> False)))"

definition endpoint_healthy :: "(string \<Rightarrow> err + httpResponse) \<Rightarrow> healthEndpointCheck \<Rightarrow> bool" where
  "endpoint_healthy answer e \<longleftrightarrow>
     (case answer (URL e) of Inl _ \<Rightarrow> False | Inr r \<Rightarrow> i32 (StatusCode r) \<in> set (expectedCodesOf e))"

definition pre_met :: "(string \<Rightarrow> err + httpResponse) \<Rightarrow> preConditionsConfig \<Rightarrow> cluster \<Rightarrow> bool" where
  "pre_met answer pc c \<longleftrightarrow>
     (\<forall>ref \<in> set (AppReadinessChecks pc). app_ready c ref) \<and>
     (\<forall>e \<in> set (HealthEndpointChecks pc). endpoint_healthy answer e)"

text \<open>References have one dot, and endpoints have valid URLs and keep their answer.\<close>

definition dotted :: "string \<Rightarrow> bool" where
  "dotted ref \<longleftrightarrow> length (Split (CHR ''.'') ref) = 2"

definition checkable :: "'w api \<Rightarrow> (string \<Rightarrow> err + httpResponse) \<Rightarrow> preConditionsConfig \<Rightarrow> bool" where
  "checkable a answer pc \<longleftrightarrow>
     (\<forall>ref \<in> set (AppReadinessChecks pc). dotted ref) \<and>
     (\<forall>e \<in> set (HealthEndpointChecks pc). HttpNewRequest a (URL e) = None \<and>
        (\<forall>w. result (HttpDo a (healthTimeout e) (URL e)) w = answer (URL e)))"

lemma dotted_parts:
  assumes "dotted ref"
  obtains ns name where "Split (CHR ''.'') ref = [ns, name]" and "ref = ns @ ''.'' @ name"
    and "\<forall>ns' name'. ref = ns' @ ''.'' @ name' \<longrightarrow> ns' = ns \<and> name' = name"
proof -
  obtain ns name where s: "Split (CHR ''.'') ref = [ns, name]"
    using assms by (auto simp: dotted_def length_Suc_conv numeral_2_eq_2)
  have ref: "ref = ns @ ''.'' @ name"
    using Join_Split [of "CHR ''.''" ref] s by simp
  have free: "CHR ''.'' \<notin> set ns" "CHR ''.'' \<notin> set name"
    using Split_parts_free [of _ "CHR ''.''" ref] s by auto
  have "ns' = ns \<and> name' = name" if "ref = ns' @ ''.'' @ name'" for ns' name'
  proof -
    have eq: "ns @ CHR ''.'' # name = ns' @ CHR ''.'' # name'" using ref that by simp
    then show ?thesis using append_Cons_eq_iff [of "CHR ''.''" ns name ns' name'] free by simp
  qed
  then have "\<forall>ns' name'. ref = ns' @ ''.'' @ name' \<longrightarrow> ns' = ns \<and> name' = name"
    by blast
  with s ref show thesis by (rule that)
qed

lemma checkAppReadiness_quiet:
  assumes "quiet_cluster a view"
  shows "looks view (checkAppReadiness a ref)"
    and "dotted ref \<Longrightarrow> result (checkAppReadiness a ref) w = Inr (app_ready (view w) ref)"
proof -
  show "looks view (checkAppReadiness a ref)"
    unfolding checkAppReadiness_def
    by (auto split: list.split intro!: looks_intros looks_calls [OF assms])
  assume "dotted ref"
  then obtain ns name where s: "Split (CHR ''.'') ref = [ns, name]" and r: "ref = ns @ ''.'' @ name"
    and u: "\<forall>ns' name'. ref = ns' @ ''.'' @ name' \<longrightarrow> ns' = ns \<and> name' = name"
    by (rule dotted_parts)
  have app: "app_ready (view w) ref =
      (case cDeployments (view w) (ns, name) of
         Some d \<Rightarrow> deploymentReady d
       | None \<Rightarrow> (case cStatefulSets (view w) (ns, name) of Some s \<Rightarrow> statefulSetReady s | None \<Rightarrow> False))"
    unfolding app_ready_def using r u by blast
  have d: "found (cDeployments (view w) (ns, name)) (result (GetDeployment a (ns, name)) w)" for w
    using reads_result [OF quiet_readD(2) [OF assms], of w] .
  have t: "found (cStatefulSets (view w) (ns, name)) (result (GetStatefulSet a (ns, name)) v)"
    if "view v = view w" for v
    using reads_result [OF quiet_readD(3) [OF assms], of v] that by simp
  show "result (checkAppReadiness a ref) w = Inr (app_ready (view w) ref)"
    using d [of w] t [of "final (GetDeployment a (ns, name)) w"]
    unfolding app checkAppReadiness_def s
    by (auto simp: found_def quiet_view [OF assms] split: option.splits)
qed

lemma checkHealthEndpoint_quiet:
  assumes "quiet_cluster a view"
  shows "looks view (checkHealthEndpoint a e)"
    and "HttpNewRequest a (URL e) = None \<Longrightarrow> result (HttpDo a (healthTimeout e) (URL e)) w = answer (URL e) \<Longrightarrow>
      result (checkHealthEndpoint a e) w = Inr (endpoint_healthy answer e)"
proof -
  show "looks view (checkHealthEndpoint a e)"
    unfolding checkHealthEndpoint_def by (intro looks_intros looks_calls [OF assms])
  show "HttpNewRequest a (URL e) = None \<Longrightarrow> result (HttpDo a (healthTimeout e) (URL e)) w = answer (URL e) \<Longrightarrow>
      result (checkHealthEndpoint a e) w = Inr (endpoint_healthy answer e)"
    by (simp add: checkHealthEndpoint_def endpoint_healthy_def split: sum.split)
qed

lemma failedChecks_quiet:
  assumes look: "\<And>c. looks view (check c)"
    and ready: "\<And>c w. c \<in> set cs \<Longrightarrow> view w = v \<Longrightarrow> result (check c) w = Inr (P c)"
    and "view w = v"
  shows "result (failedChecks check label pre cs failed) w =
    Inr (failed @ map label (filter (\<lambda>c. \<not> P c) cs))"
  using ready assms(3)
proof (induction cs arbitrary: failed w)
  case (Cons c cs)
  have "view (final (check c) w) = v"
    using look Cons.prems(2) by (simp add: looks_def)
  with Cons show ?case by (cases "P c") auto
qed simp

lemma looks_failedChecks:
  "(\<And>c. looks view (check c)) \<Longrightarrow> looks view (failedChecks check label pre cs failed)"
  by (induction cs arbitrary: failed) (auto intro!: looks_intros split: bool.split)

lemma looks_checkPreConditions:
  assumes "quiet_cluster a view"
  shows "looks view (checkPreConditions a policy)"
  unfolding checkPreConditions_def
  by (intro looks_intros looks_failedChecks checkAppReadiness_quiet(1) checkHealthEndpoint_quiet(1) assms)

text \<open>The message about the applications and endpoints that are not ready.\<close>

definition pre_message :: "(string \<Rightarrow> err + httpResponse) \<Rightarrow> preConditionsConfig \<Rightarrow> cluster \<Rightarrow> string" where
  "pre_message answer pc c =
     Join ''; '' (waitingFor ''waiting for apps: '' (filter (\<lambda>r. \<not> app_ready c r) (AppReadinessChecks pc)) @
       waitingFor ''waiting for endpoints: ''
         (map URL (filter (\<lambda>e. \<not> endpoint_healthy answer e) (HealthEndpointChecks pc))))"

lemma checkPreConditions_quiet:
  assumes q: "quiet_cluster a view" and on: "preConditionsOn policy = Some pc" and ok: "checkable a answer pc"
  shows "result (checkPreConditions a policy) w =
    Inr (if pre_met answer pc (view w) then (True, ''All pre-conditions passed'')
         else (False, pre_message answer pc (view w)))"
proof -
  let ?A = "failedChecks (checkAppReadiness a) (\<lambda>ref. ref) ''failed to check app readiness for '' (AppReadinessChecks pc) []"
  let ?E = "failedChecks (checkHealthEndpoint a) URL ''failed to check health endpoint '' (HealthEndpointChecks pc) []"
  let ?w = "final ?A w"
  have v: "view ?w = view w"
    using checkAppReadiness_quiet(1) [OF q] by (intro looks_final looks_failedChecks)
  have A: "result ?A w = Inr (filter (\<lambda>r. \<not> app_ready (view w) r) (AppReadinessChecks pc))"
    using failedChecks_quiet [where P = "app_ready (view w)" and check = "checkAppReadiness a",
        OF checkAppReadiness_quiet(1) [OF q] _ refl] checkAppReadiness_quiet(2) [OF q] ok
    by (simp add: checkable_def)
  have "result (checkHealthEndpoint a e) x = Inr (endpoint_healthy answer e)"
    if "e \<in> set (HealthEndpointChecks pc)" for e x
    using that ok by (intro checkHealthEndpoint_quiet(2) [OF q]) (auto simp: checkable_def)
  then have E: "result ?E ?w = Inr (map URL (filter (\<lambda>e. \<not> endpoint_healthy answer e) (HealthEndpointChecks pc)))"
    using failedChecks_quiet [where P = "endpoint_healthy answer" and check = "checkHealthEndpoint a"
        and w = ?w, OF checkHealthEndpoint_quiet(1) [OF q] _ refl] by simp
  have "pre_met answer pc (view w) \<longleftrightarrow>
      filter (\<lambda>r. \<not> app_ready (view w) r) (AppReadinessChecks pc) = [] \<and>
      filter (\<lambda>e. \<not> endpoint_healthy answer e) (HealthEndpointChecks pc) = []"
    by (auto simp: pre_met_def filter_empty_conv)
  then show ?thesis
    by (simp add: checkPreConditions_def on A E waitingFor_def pre_message_def Let_def)
qed

subsection \<open>A tick on a quiet cluster\<close>

text \<open>The stored policy keeps its spec and its handled operation id during the wait.\<close>

definition waiting_policy :: "policy \<Rightarrow> bool \<Rightarrow> preConditionsConfig \<Rightarrow> cluster \<Rightarrow> bool" where
  "waiting_policy policy startup pc c \<longleftrightarrow>
     (\<exists>p. cPolicies c (policy_key policy) = Some p \<and> policy_key p = policy_key policy \<and>
        preConditionsOn p = Some pc \<and> \<not> newFreezeOperation startup p)"

lemma waiting_policy_key:
  "policy_key p' = policy_key p \<Longrightarrow> waiting_policy p' startup pc c = waiting_policy p startup pc c"
  by (simp add: waiting_policy_def)

lemma pre_met_policies [simp]: "pre_met answer pc (c\<lparr>cPolicies := m\<rparr>) = pre_met answer pc c"
  by (simp add: pre_met_def app_ready_def cong: option.case_cong)

definition reported :: "cluster \<Rightarrow> nsname \<Rightarrow> bool \<Rightarrow> bool \<Rightarrow> bool" where
  "reported c k checking passed \<longleftrightarrow>
     (\<exists>p s. cPolicies c k = Some p \<and> PreConditionsStatus (Status p) = Some s \<and>
        Checking s = checking \<and> Passed s = passed)"

lemma reportPreConditions_quiet:
  assumes q: "quiet_cluster a view" and wp: "waiting_policy policy startup pc (view w)"
  shows "\<exists>m. view (final (reportPreConditions a policy checking passed msg) w) = (view w)\<lparr>cPolicies := m\<rparr>"
    and "waiting_policy policy startup pc (view (final (reportPreConditions a policy checking passed msg) w))"
    and "reported (view (final (reportPreConditions a policy checking passed msg) w)) (policy_key policy) checking passed"
proof -
  obtain p where p: "cPolicies (view w) (policy_key policy) = Some p" "policy_key p = policy_key policy"
    and on: "preConditionsOn p = Some pc" "\<not> newFreezeOperation startup p"
    using wp by (auto simp: waiting_policy_def)
  have "cPolicies (view (final (Now a) w)) (policy_key policy) = Some p"
    using p(1) by (simp add: quiet_view [OF q])
  note up = patchStatus_quiet(2) [OF q this p(2)]
  obtain s where v: "view (final (reportPreConditions a policy checking passed msg) w) =
      (view w)\<lparr>cPolicies := (cPolicies (view w))(policy_key policy \<mapsto> stored_policy (p\<lparr>Status := s\<rparr>))\<rparr>"
    and s: "LastHandledOperationId s = LastHandledOperationId (Status p)"
      "\<exists>now. PreConditionsStatus s = Some (preStatus checking now passed msg)"
    by (auto simp: reportPreConditions_def updatePreConditionsStatus_def up quiet_view [OF q] intro!: that)
  have "policy_key (stored_policy (p\<lparr>Status := s\<rparr>)) = policy_key policy"
    "preConditionsOn (stored_policy (p\<lparr>Status := s\<rparr>)) = Some pc"
    "\<not> newFreezeOperation startup (stored_policy (p\<lparr>Status := s\<rparr>))"
    using p(2) on s(1) by (simp_all add: preConditionsOn_def newFreezeOperation_def)
  then show "waiting_policy policy startup pc (view (final (reportPreConditions a policy checking passed msg) w))"
    by (simp add: v waiting_policy_def)
  show "\<exists>m. view (final (reportPreConditions a policy checking passed msg) w) = (view w)\<lparr>cPolicies := m\<rparr>"
    using v by blast
  show "reported (view (final (reportPreConditions a policy checking passed msg) w)) (policy_key policy) checking passed"
    using s(2) by (auto simp: v reported_def preStatus_def)
qed

lemma tick_quiet:
  assumes q: "quiet_cluster a view" and wp: "waiting_policy policy startup pc (view w)"
    and ok: "checkable a answer pc"
  defines "w' \<equiv> final (preConditionsTick a policy startup) w"
  shows "if pre_met answer pc (view w) then result (preConditionsTick a policy startup) w = Inl None
      else \<exists>p. result (preConditionsTick a policy startup) w = Inr p \<and> policy_key p = policy_key policy"
    and "\<exists>m. view w' = (view w)\<lparr>cPolicies := m\<rparr>"
    and "waiting_policy policy startup pc (view w')"
    and "reported (view w') (policy_key policy) (\<not> pre_met answer pc (view w)) (pre_met answer pc (view w))"
proof -
  obtain p where p: "cPolicies (view w) (policy_key policy) = Some p" "policy_key p = policy_key policy"
    and on: "preConditionsOn p = Some pc" "\<not> newFreezeOperation startup p"
    using wp by (auto simp: waiting_policy_def)
  let ?g = "final (GetPolicy a (policy_key policy)) w" and ?ok = "pre_met answer pc (view w)"
  let ?c = "final (checkPreConditions a p) ?g"
  have get: "result (GetPolicy a (policy_key policy)) w = Inr p"
    using reads_result [OF quiet_readD(1) [OF q], of w "policy_key policy"] p(1) by simp
  have v: "view ?g = view w" "view ?c = view w"
    using looks_final [OF looks_checkPreConditions [OF q]] by (simp_all add: quiet_view [OF q])
  have check: "result (checkPreConditions a p) ?g =
      Inr (if ?ok then (True, ''All pre-conditions passed'') else (False, pre_message answer pc (view w)))"
    using checkPreConditions_quiet [OF q on(1) ok, of ?g] by (simp add: v)
  have refetch: "run_state (refetchForCheck a policy startup) w = (Inr p, ?g)"
    using on by (simp add: refetchForCheck_def get)
  have run: "run_state (preConditionsTick a policy startup) w =
     (if ?ok then (Inl None, final (reportPreConditions a p False True ''All pre-conditions passed'') ?c)
      else (Inr p, final (reportPreConditions a p True False (pre_message answer pc (view w))) ?c))"
    by (cases ?ok) (simp_all add: preConditionsTick_def refetch check)
  have wp': "waiting_policy p startup pc (view ?c)"
    using wp waiting_policy_key [OF p(2)] by (simp add: v)
  note rep = reportPreConditions_quiet [OF q wp']
  show "if ?ok then result (preConditionsTick a policy startup) w = Inl None
      else \<exists>p. result (preConditionsTick a policy startup) w = Inr p \<and> policy_key p = policy_key policy"
    using p(2) by (simp add: run)
  show "\<exists>m. view w' = (view w)\<lparr>cPolicies := m\<rparr>"
    unfolding w'_def run using rep(1) by (auto simp: v)
  show "waiting_policy policy startup pc (view w')"
    unfolding w'_def run waiting_policy_key [OF p(2) [symmetric]] using rep(2) by auto
  show "reported (view w') (policy_key policy) (\<not> ?ok) ?ok"
    unfolding w'_def run using rep(3) [unfolded p(2)] by auto
qed

subsection \<open>The clock during a tick\<close>

lemma io_failedChecks:
  assumes "preorder_rel R" and "\<And>c. state_io_rel R (check c)"
  shows "state_io_rel R (failedChecks check label pre cs failed)"
  by (induction cs arbitrary: failed)
    (auto intro!: io_return io_bind io_case_sum assms split: bool.split)

lemma clock_tick:
  assumes "retry_law a" and "clock_law a clock luck"
  shows "later clock luck w (final (preConditionsTick a policy startup) w)"
    and "later clock luck w (final (reportPreConditions a policy checking passed msg) w)"
proof -
  let ?R = "later clock luck"
  note R = later_preorder [of clock luck]
  note io = io_return [OF R] io_bind [OF R] io_if io_case_sum io_case_option clock_law_io [OF assms(2)]
  have up: "state_io_rel ?R (updatePreConditionsStatus a p s)" for p s
    unfolding updatePreConditionsStatus_def patchStatus_def getModifyWrite_def
    by (intro io_retry [OF assms(1) R] io)
  then have rep: "state_io_rel ?R (reportPreConditions a p c b m)" for p c b m
    unfolding reportPreConditions_def by (intro io)
  have "state_io_rel ?R (checkAppReadiness a r)" "state_io_rel ?R (checkHealthEndpoint a e)" for r e
    unfolding checkAppReadiness_def checkHealthEndpoint_def by (auto split: list.split intro!: io)
  then have "state_io_rel ?R (checkPreConditions a p)" for p
    unfolding checkPreConditions_def by (intro io io_failedChecks [OF R])
  then have "state_io_rel ?R (preConditionsTick a policy startup)"
    unfolding preConditionsTick_def refetchForCheck_def by (auto intro!: io rep split: sum.split)
  then show "?R w (final (preConditionsTick a policy startup) w)"
    by (rule io_final)
  show "?R w (final (reportPreConditions a policy checking passed msg) w)"
    using rep by (rule io_final)
qed


subsection \<open>The wait\<close>

lemma wait_loop_unmet:
  assumes q: "quiet_cluster a view" and ck: "checkable a answer pc"
    and law: "clock_law a clock luck" "draw_law a clock luck" "uncancelled a"
  shows "waiting_policy policy startup pc (view w) \<Longrightarrow> \<not> pre_met answer pc (view w) \<Longrightarrow>
    0 < tickPeriod tk \<Longrightarrow> enough_rounds fuel dl tk (clock w) (luck w) \<Longrightarrow>
    result (waitForPreConditionsLoop fuel a policy startup T tk (Some dl)) w = Some (Some (timeoutError T)) \<and>
    reported (view (final (waitForPreConditionsLoop fuel a policy startup T tk (Some dl)) w))
      (policy_key policy) False False \<and>
    dl \<le> clock (final (waitForPreConditionsLoop fuel a policy startup T tk (Some dl)) w)"
proof (induction fuel arbitrary: w policy tk)
  case 0
  then show ?case by (simp add: enough_rounds_def)
next
  case (Suc fuel)
  let ?w = "final (selectTimers a tk (Some dl)) w"
  have v: "view ?w = view w" by (rule looks_final [OF looks_selectTimers(1) [OF q]])
  from law Suc.prems(3) show ?case
  proof (cases rule: select_round [where w = w and dl = dl])
    case timeout
    moreover have "clock ?w \<le> clock (final (reportPreConditions a policy False False ''Pre-conditions timeout reached'') ?w)"
      using clock_tick(2) [OF quiet_retry [OF q] law(1)] unfolding later_def by blast
    ultimately show ?thesis
      using reportPreConditions_quiet(3) [OF q, of policy startup pc ?w] Suc.prems(1) by (simp add: v)
  next
    case (tick tk')
    let ?w' = "final (preConditionsTick a policy startup) ?w"
    note tk = tick_quiet [OF q _ ck, of policy startup ?w, unfolded v, OF Suc.prems(1)]
    obtain p where p: "result (preConditionsTick a policy startup) ?w = Inr p" "policy_key p = policy_key policy"
      using tk(1) Suc.prems(2) by auto
    have "luck ?w' \<le> luck ?w"
      using clock_tick(1) [OF quiet_retry [OF q] law(1)] unfolding later_def by blast
    then have "enough_rounds fuel dl tk' (clock ?w') (luck ?w')"
      using tick(5,6) by (intro enough_rounds_tick [OF Suc.prems(4,3) tick(2-4)]) (auto simp: later_def)
    moreover have "waiting_policy p startup pc (view ?w')"
      using tk(3) waiting_policy_key [OF p(2)] by simp
    moreover have "\<not> pre_met answer pc (view ?w')"
      using tk(2) Suc.prems(2) by auto
    ultimately show ?thesis
      using Suc.IH [of p ?w' tk'] p tick(1,2) Suc.prems(3) by simp
  qed
qed

lemma wait_loop_sound:
  assumes q: "quiet_cluster a view" and ck: "checkable a answer pc"
  shows "waiting_policy policy startup pc (view w) \<Longrightarrow>
    result (waitForPreConditionsLoop fuel a policy startup T tk dl) w = Some None \<Longrightarrow>
    pre_met answer pc (view w) \<and>
    reported (view (final (waitForPreConditionsLoop fuel a policy startup T tk dl) w)) (policy_key policy) False True"
proof (induction fuel arbitrary: w policy tk)
  case (Suc fuel)
  let ?w = "final (selectTimers a tk dl) w"
  have v: "view ?w = view w" by (rule looks_final [OF looks_selectTimers(1) [OF q]])
  note check = tick_quiet [OF q _ ck, of policy startup ?w, unfolded v, OF Suc.prems(1)]
  obtain tk' where tick: "result (selectTimers a tk dl) w = (TickerFired, tk')"
    using Suc.prems(2) by (cases "result (selectTimers a tk dl) w"; cases "fst (result (selectTimers a tk dl) w)") auto
  show ?case
  proof (cases "pre_met answer pc (view w)")
    case True
    then show ?thesis using check(1,4) tick by simp
  next
    case False
    then obtain p where p: "result (preConditionsTick a policy startup) ?w = Inr p" "policy_key p = policy_key policy"
      using check(1) by auto
    have "waiting_policy p startup pc (view (final (preConditionsTick a policy startup) ?w))"
      using check(3) waiting_policy_key [OF p(2)] by simp
    then have "pre_met answer pc (view (final (preConditionsTick a policy startup) ?w))"
      using Suc.IH Suc.prems(2) tick p(1) by simp
    then show ?thesis using check(2) False by auto
  qed
qed simp

lemma preDeadline_quiet:
  assumes "quiet_cluster a view"
  shows "looks view (preDeadline a pc)"
  unfolding preDeadline_def by (intro looks_intros looks_calls [OF assms])

subsection \<open>Properties\<close>


definition sample_pre :: "string \<Rightarrow> preConditionsConfig" where
  "sample_pre app = \<lparr>pre_Enabled = True, AppReadinessChecks = [app],
     HealthEndpointChecks = [\<lparr>URL = ''http://gw/health'', ExpectedStatusCodes = [], health_TimeoutSeconds = 0\<rparr>],
     CheckInterval = 5, pre_TimeoutSeconds = 20, BlockPriorityChain = None\<rparr>"

definition gated_policy :: "string \<Rightarrow> policy" where
  "gated_policy app = (sample_policy ''p'')\<lparr>Spec := sample_spec\<lparr>Action := LifecycleActionResume,
     PreConditions := Some (sample_pre app)\<rparr>\<rparr>"

definition gated_mem :: "string \<Rightarrow> mem" where
  "gated_mem app = sample_mem\<lparr>mPolicies := [gated_policy app]\<rparr>"

definition ok_answer :: "string \<Rightarrow> err + httpResponse" where
  "ok_answer url = Inr \<lparr>StatusCode = 200, BodyJSON = Inr []\<rparr>"

lemma gated_on: "preConditionsOn (gated_policy app) = Some (sample_pre app)"
  by (simp add: preConditionsOn_def gated_policy_def sample_pre_def)

lemma gated_checkable: "dotted app \<Longrightarrow> checkable mem_api ok_answer (sample_pre app)"
  by (simp add: checkable_def sample_pre_def mem_ops ok_answer_def)

lemma gated_waiting: "waiting_policy (gated_policy app) startup (sample_pre app) (mem_view (gated_mem app))"
  by (simp add: waiting_policy_def gated_on mem_view_def gated_mem_def lookup_key_def by_key_def
      newFreezeOperation_def) (simp add: gated_policy_def Let_def)

lemma gated_met: "pre_met ok_answer (sample_pre ''shop.web'') (mem_view (gated_mem ''shop.web''))"
  "\<not> pre_met ok_answer (sample_pre ''shop.app'') (mem_view (gated_mem ''shop.app''))"
proof -
  have d: "dotted ''shop.web''" "dotted ''shop.app''" by (simp_all add: dotted_def)
  have "result (checkAppReadiness mem_api ''shop.web'') (gated_mem ''shop.web'') = Inr True"
    "result (checkAppReadiness mem_api ''shop.app'') (gated_mem ''shop.app'') = Inr False"
    by (simp_all add: checkAppReadiness_def deploymentReady_def statefulSetReady_def gated_mem_def
        mem_eval sample_defs key_defs)
  then have "app_ready (mem_view (gated_mem ''shop.web'')) ''shop.web''"
    "\<not> app_ready (mem_view (gated_mem ''shop.app'')) ''shop.app''"
    using checkAppReadiness_quiet(2) [OF mem_quiet d(1), of "gated_mem ''shop.web''"]
      checkAppReadiness_quiet(2) [OF mem_quiet d(2), of "gated_mem ''shop.app''"] by simp_all
  then show "pre_met ok_answer (sample_pre ''shop.web'') (mem_view (gated_mem ''shop.web''))"
    "\<not> pre_met ok_answer (sample_pre ''shop.app'') (mem_view (gated_mem ''shop.app''))"
    by (simp_all add: pre_met_def sample_pre_def endpoint_healthy_def ok_answer_def expectedCodesOf_def)
qed


text \<open>
  C19: a blocking wait that returns without error has seen every pre-condition hold, and the stored
  status says that they passed and are no longer being checked.
\<close>

theorem waitForPreConditions_sound:
  assumes "quiet_cluster a view" and "preConditionsOn policy = Some pc" and "checkable a answer pc"
    and "waiting_policy policy startup pc (view w)"
    and "result (waitForPreConditions fuel a policy startup) w = Some None"
  shows "pre_met answer pc (view w) \<and>
    reported (view (final (waitForPreConditions fuel a policy startup) w)) (policy_key policy) False True"
proof
  let ?w = "final (preDeadline a pc) w"
  let ?r = "final (reportPreConditions a policy True False ''Checking pre-conditions...'') ?w"
  have v: "view ?w = view w" by (rule looks_final [OF preDeadline_quiet [OF assms(1)]])
  have wp: "waiting_policy policy startup pc (view ?w)" using assms(4) by (simp add: v)
  note rep = reportPreConditions_quiet [OF assms(1) wp, of True False "''Checking pre-conditions...''"]
  let ?tk = "result (NewTicker a (checkIntervalOf pc)) ?r" and ?n = "final (NewTicker a (checkIntervalOf pc)) ?r"
  have n: "view ?n = view ?r" by (rule looks_final [OF looks_selectTimers(2) [OF assms(1)]])
  have "result (waitForPreConditionsLoop fuel a policy startup (pre_TimeoutSeconds pc) ?tk
      (result (preDeadline a pc) w)) ?n = Some None"
    using assms(2,5) by (simp add: waitForPreConditions_def split: if_splits)
  note s = wait_loop_sound [OF assms(1,3) _ this, unfolded n, OF rep(2)]
  then show "pre_met answer pc (view w)" using rep(1) by (auto simp: v)
  from s show "reported (view (final (waitForPreConditions fuel a policy startup) w)) (policy_key policy) False True"
    using assms(2,5) by (simp add: waitForPreConditions_def split: if_splits)
qed

lemma gated_tick:
  "result (waitForPreConditions 1 mem_api (gated_policy ''shop.web'') False) (gated_mem ''shop.web'') = Some None"
proof -
  let ?p = "gated_policy ''shop.web''" and ?c = "sample_pre ''shop.web''"
  let ?w = "final (preDeadline mem_api ?c) (gated_mem ''shop.web'')"
  let ?r = "final (reportPreConditions mem_api ?p True False ''Checking pre-conditions...'') ?w"
  let ?tk = "\<lparr>tickPeriod = 5 * Second, nextTick = 1005 * Second\<rparr>"
  let ?s = "final (selectTimers mem_api ?tk (Some (1020 * Second))) ?r"
  have v: "mem_view ?w = mem_view (gated_mem ''shop.web'')"
    by (rule looks_final [OF preDeadline_quiet [OF mem_quiet]])
  then have "waiting_policy ?p False ?c (mem_view ?w)"
    using gated_waiting [of "''shop.web''"] by simp
  note rep = reportPreConditions_quiet [of mem_api mem_view ?p False ?c ?w True False
      "''Checking pre-conditions...''", OF mem_quiet this]
  have s: "mem_view ?s = mem_view ?r" by (rule looks_final [OF looks_selectTimers(1) [OF mem_quiet]])
  have met: "pre_met ok_answer ?c (mem_view ?s)" using rep(1) gated_met(1) by (auto simp: v s)
  have "waiting_policy ?p False ?c (mem_view ?s)" using rep(2) by (simp add: s)
  from tick_quiet(1) [of mem_api mem_view ?p False ?c ?s ok_answer, OF mem_quiet this gated_checkable] met
  have "result (preConditionsTick mem_api ?p False) ?s = Inl None" by (simp add: dotted_def)
  moreover have i: "checkIntervalOf ?c = 5 * Second" by (simp add: checkIntervalOf_def sample_pre_def Second_def)
  moreover have dl: "result (preDeadline mem_api ?c) (gated_mem ''shop.web'') = Some (1020 * Second)"
    by (simp add: preDeadline_def sample_pre_def gated_mem_def sample_mem_def mem_ops Second_def)
  moreover have now: "mNow ?r = 1000 * Second"
    by (simp add: preDeadline_def reportPreConditions_def updatePreConditionsStatus_def patchStatus_def
        getModifyWrite_def gated_mem_def mem_eval sample_mem_def sample_pre_def)
  then have "run_state (NewTicker mem_api (5 * Second)) ?r = (?tk, ?r)"
    by (simp add: NewTicker_def mem_ops Second_def)
  moreover have "fst (result (selectTimers mem_api ?tk (Some (1020 * Second))) ?r) = TickerFired"
    by (simp add: selectTimers_def mem_ops readyCases_def readyTimers_def firstTimer_def drawCase_def now Second_def)
  moreover have "0 < 5 * Second" by (simp add: Second_def)
  ultimately show ?thesis
    by (cases "result (selectTimers mem_api ?tk (Some (1020 * Second))) ?r")
      (simp add: waitForPreConditions_def gated_on)
qed

theorem waitForPreConditions_sound_witness:
  "pre_met ok_answer (sample_pre ''shop.web'') (mem_view (gated_mem ''shop.web'')) \<and>
   reported (mem_view (final (waitForPreConditions 1 mem_api (gated_policy ''shop.web'') False)
     (gated_mem ''shop.web''))) (policy_key (gated_policy ''shop.web'')) False True"
  by (rule waitForPreConditions_sound [OF mem_quiet gated_on gated_checkable gated_waiting gated_tick])
    (simp add: dotted_def)

text \<open>
  C17: when some pre-condition does not hold, a blocking wait with a timeout ends in the timeout error,
  not before the timeout has passed, and the stored status says that nothing is being checked and
  nothing passed. Enough rounds are the check intervals that fit into the timeout, one for every time
  that \<open>select\<close>, with both the tick and the timeout ready, chooses the tick (\<open>luck\<close>), and the last.
  The context is not cancelled, and the cluster and the answers of the endpoints do not change
  meanwhile.
\<close>

theorem waitForPreConditions_times_out:
  assumes "quiet_cluster a view" and "preConditionsOn policy = Some pc" and "checkable a answer pc"
    and "waiting_policy policy startup pc (view w)" and "\<not> pre_met answer pc (view w)"
    and "clock_law a clock luck" and "draw_law a clock luck" and "uncancelled a"
    and "0 < pre_TimeoutSeconds pc" and "0 \<le> CheckInterval pc"
    and "nat (pre_TimeoutSeconds pc * Second div checkIntervalOf pc) + luck w < fuel"
  shows "result (waitForPreConditions fuel a policy startup) w =
      Some (Some (timeoutError (pre_TimeoutSeconds pc))) \<and>
    reported (view (final (waitForPreConditions fuel a policy startup) w)) (policy_key policy) False False \<and>
    clock w + pre_TimeoutSeconds pc * Second \<le> clock (final (waitForPreConditions fuel a policy startup) w)"
proof -
  let ?w = "final (preDeadline a pc) w" and ?d = "checkIntervalOf pc" and ?T = "pre_TimeoutSeconds pc"
  let ?r = "final (reportPreConditions a policy True False ''Checking pre-conditions...'') ?w"
  let ?n = "final (Now a) ?r" and ?tk = "\<lparr>tickPeriod = ?d, nextTick = result (Now a) ?r + ?d\<rparr>"
  let ?dl = "result (Now a) w + ?T * Second"
  have v: "view ?w = view w" by (rule looks_final [OF preDeadline_quiet [OF assms(1)]])
  have wp: "waiting_policy policy startup pc (view ?w)" using assms(4) by (simp add: v)
  note rep = reportPreConditions_quiet [OF assms(1) wp, of True False "''Checking pre-conditions...''"]
  have vn: "view ?n = view ?r" by (rule quiet_view [OF assms(1)])
  have d: "0 < ?d" using assms(10) by (simp add: checkIntervalOf_def Let_def Second_def)
  have dl: "result (preDeadline a pc) w = Some ?dl" and w: "?w = final (Now a) w"
    using assms(9) by (simp_all add: preDeadline_def)
  have "later clock luck w ?w" unfolding w by (rule io_final [OF clock_law_io(4) [OF assms(6)]])
  moreover have r: "later clock luck ?w ?r" by (rule clock_tick(2) [OF quiet_retry [OF assms(1)] assms(6)])
  moreover have "later clock luck ?r ?n" by (rule io_final [OF clock_law_io(4) [OF assms(6)]])
  ultimately have luck: "luck ?n \<le> luck w" unfolding later_def by linarith
  have "result (Now a) w \<le> result (Now a) ?r"
    using clock_lawD(2) [OF assms(6), of w] clock_lawD(1) [OF assms(6), of ?r] r unfolding w later_def by linarith
  moreover have "?T * Second < (?T * Second div ?d + 1) * ?d" by (rule less_next_multiple [OF d])
  then have "?T * Second - ?d \<le> ?T * Second div ?d * ?d" by (simp add: distrib_right)
  moreover have "0 \<le> ?T * Second div ?d"
    using assms(9) d by (simp add: pos_imp_zdiv_nonneg_iff Second_def)
  ultimately have "?dl - nextTick ?tk \<le> int (nat (?T * Second div ?d)) * tickPeriod ?tk" by simp
  then have "enough_rounds fuel ?dl ?tk (clock ?n) (luck ?n)"
    using luck assms(11) unfolding enough_rounds_def by (meson add_left_mono le_less_trans)
  moreover have "\<not> pre_met answer pc (view ?n)" using rep(1) assms(5) by (auto simp: v vn)
  moreover have "waiting_policy policy startup pc (view ?n)" using rep(2) by (simp add: vn)
  ultimately have "result (waitForPreConditionsLoop fuel a policy startup ?T ?tk (Some ?dl)) ?n = Some (Some (timeoutError ?T)) \<and>
      reported (view (final (waitForPreConditionsLoop fuel a policy startup ?T ?tk (Some ?dl)) ?n)) (policy_key policy) False False \<and>
      ?dl \<le> clock (final (waitForPreConditionsLoop fuel a policy startup ?T ?tk (Some ?dl)) ?n)"
    using d by (intro wait_loop_unmet [OF assms(1,3,6,7,8)]) simp_all
  moreover have "clock w \<le> result (Now a) w" by (rule clock_lawD(1) [OF assms(6)])
  moreover have "run_state (waitForPreConditions fuel a policy startup) w =
      run_state (waitForPreConditionsLoop fuel a policy startup ?T ?tk (Some ?dl)) ?n"
    using assms(2) d dl by (simp add: waitForPreConditions_def NewTicker_def)
  ultimately show ?thesis by simp
qed

theorem waitForPreConditions_times_out_witness:
  "result (waitForPreConditions 5 mem_api (gated_policy ''shop.app'') True) (gated_mem ''shop.app'') =
     Some (Some (timeoutError 20))"
  using waitForPreConditions_times_out [OF mem_quiet gated_on gated_checkable gated_waiting gated_met(2)
      mem_clock mem_draw mem_uncancelled, of 5 True]
  by (simp add: dotted_def sample_pre_def checkIntervalOf_def Second_def)

end
