(* ===== verification/Reconcile.thy ===== *)
theory Reconcile
  imports Startup PreConditions
begin

text \<open>
  The handler \<open>Reconcile\<close> of \<open>src/internal/controller/namespacelifecyclepolicy_controller.go\<close>, stage by
  stage in the order of the source: the fetch and the duplicate check, the pending freeze, the
  pending startup resume, node failures, the clean-up after a failed node, the skip of handled
  operations with pod balancing, the namespace check, a resume whose pre-conditions are being
  checked, and the manual operation.

  A stage either returns from the handler or hands the policy, possibly fetched again, to the next
  one. The handler runs over \<open>'w sys\<close>, the world with the reconciler's own state. Fuel is passed on
  to the waits inside it.
\<close>

subsection \<open>Results and stages\<close>

record ctrlResult =
  Requeue :: bool
  RequeueAfter :: duration

definition noResult :: ctrlResult where
  "noResult = \<lparr>Requeue = False, RequeueAfter = 0\<rparr>"

definition requeueAfter :: "duration \<Rightarrow> ctrlResult" where
  "requeueAfter d = \<lparr>Requeue = False, RequeueAfter = d\<rparr>"

definition requeueNow :: ctrlResult where
  "requeueNow = \<lparr>Requeue = True, RequeueAfter = 0\<rparr>"

datatype stage =
    Return ctrlResult "err option"  \<comment> \<open>the handler returns\<close>
  | Continue policy                 \<comment> \<open>the next stage runs with this policy\<close>
  | NoFuel

definition thenStage :: "('s, stage) state \<Rightarrow> (policy \<Rightarrow> ('s, stage) state) \<Rightarrow> ('s, stage) state" where
  "thenStage m f = do {
     r \<leftarrow> m;
     (case r of
        Continue policy \<Rightarrow> f policy
      | Return res e \<Rightarrow> return (Return res e)
      | NoFuel \<Rightarrow> return NoFuel)
   }"

definition returnErr :: "err option \<Rightarrow> stage" where
  "returnErr e = Return noResult e"

text \<open>A status patch that has to succeed, and the fetch after it.\<close>

definition refetch :: "'w api \<Rightarrow> nsname \<Rightarrow> ('w, stage) state" where
  "refetch a req = do {
     r \<leftarrow> GetPolicy a req;
     return (case r of Inl e \<Rightarrow> returnErr (Some e) | Inr policy \<Rightarrow> Continue policy)
   }"

definition patchAndRefetch :: "'w api \<Rightarrow> nsname \<Rightarrow> (policy \<Rightarrow> policyStatus) \<Rightarrow> ('w, stage) state" where
  "patchAndRefetch a req change = do {
     e \<leftarrow> patchStatus a req change;
     (case e of
        Some err \<Rightarrow> return (returnErr (Some err))
      | None \<Rightarrow> refetch a req)
   }"

text \<open>The two list calls that several stages begin with; the first error is returned.\<close>

definition listWorkloads :: "'w api \<Rightarrow> policy \<Rightarrow> ('w, err + workload list \<times> workload list) state" where
  "listWorkloads a policy = do {
     deployments \<leftarrow> listDeployments a (TargetNamespace (Spec policy)) (Selector (Spec policy));
     (case deployments of
        Inl e \<Rightarrow> return (Inl e)
      | Inr ds \<Rightarrow> do {
          statefulSets \<leftarrow> listStatefulSets a (TargetNamespace (Spec policy)) (Selector (Spec policy));
          return (case statefulSets of Inl e \<Rightarrow> Inl e | Inr ss \<Rightarrow> Inr (ds, ss))
        })
   }"

definition countsMessage :: "string \<Rightarrow> workload list \<Rightarrow> string \<Rightarrow> workload list \<Rightarrow> string \<Rightarrow> string" where
  "countsMessage pre ds mid ss post =
     pre @ Itoa (int (length ds)) @ mid @ Itoa (int (length ss)) @ post"

subsection \<open>Pending freeze\<close>

definition delayedFreezeStatus :: "workload list \<Rightarrow> workload list \<Rightarrow> time \<Rightarrow> policy \<Rightarrow> policyStatus" where
  "delayedFreezeStatus ds ss now latestPolicy = (Status latestPolicy)
     \<lparr>Phase := PhaseFrozen,
      Message := countsMessage ''Freeze applied after delay: completed successfully ('' ds '' deployments, '' ss '' statefulsets)'',
      LastFreezeAt := Some now, LastStartupAction := ''FREEZE_APPLIED'', PendingFreeze := False\<rparr>"

definition executeDelayedFreeze :: "'w api \<Rightarrow> policy \<Rightarrow> ('w, stage) state" where
  "executeDelayedFreeze a policy = do {
     listed \<leftarrow> listWorkloads a policy;
     (case listed of
        Inl e \<Rightarrow> return (returnErr (Some e))
      | Inr (ds, ss) \<Rightarrow> do {
          _ \<leftarrow> freezeNow a policy ds ss;
          now \<leftarrow> Now a;
          e \<leftarrow> updateLatestStatus a (policy_key policy) (delayedFreezeStatus ds ss now);
          return (returnErr e)
        })
   }"

definition handlePendingFreeze :: "'w api \<Rightarrow> nsname \<Rightarrow> policy \<Rightarrow> ('w, stage) state" where
  "handlePendingFreeze a req policy =
     (if \<not> PendingFreeze (Status policy) then return (Continue policy)
      else if \<not> shouldSkipOperation policy then
        patchAndRefetch a req (\<lambda>latestPolicy. (Status latestPolicy)
          \<lparr>PendingFreeze := False, LastStartupAction := ''FREEZE_CANCELLED_BY_MANUAL_OVERRIDE''\<rparr>)
      else case FreezeDelayStartedAt (Status policy) of
        None \<Rightarrow> do {
          _ \<leftarrow> UpdatePolicyStatus a (policy\<lparr>Status := (Status policy)\<lparr>PendingFreeze := False\<rparr>\<rparr>);
          return (returnErr None)
        }
      | Some t \<Rightarrow> do {
          now \<leftarrow> Now a;
          let elapsed = now - t;
          if elapsed < FreezeDelay (Spec policy)
          then return (Return (requeueAfter (FreezeDelay (Spec policy) - elapsed)) None)
          else executeDelayedFreeze a policy
        })"

subsection \<open>Pending startup resume\<close>

definition readComplete :: "('w sys, bool) state" where
  "readComplete = State (\<lambda>s. (startupComplete s, s))"

definition cancelStartupResume :: "'w api \<Rightarrow> nsname \<Rightarrow> string \<Rightarrow> ('w, stage) state" where
  "cancelStartupResume a req action =
     patchAndRefetch a req (\<lambda>latestPolicy. (Status latestPolicy)
       \<lparr>PendingStartupResume := False, LastStartupAction := action\<rparr>)"

definition manualPending :: "policy \<Rightarrow> bool" where
  "manualPending policy \<longleftrightarrow> OperationId (Spec policy) \<noteq> '''' \<and>
     LastHandledOperationId (Status policy) \<noteq> OperationId (Spec policy)"

definition blocksChain :: "preConditionsConfig \<Rightarrow> bool" where
  "blocksChain pc = (case BlockPriorityChain pc of None \<Rightarrow> True | Some b \<Rightarrow> b)"

text \<open>
  The status written while pre-conditions are not met: the caller's copy with the operation id that
  is stored at that moment; then a requeue after the check interval.
\<close>

definition keepWaiting :: "'w api \<Rightarrow> preConditionsConfig \<Rightarrow> policy \<Rightarrow> ('w, stage) state" where
  "keepWaiting a pc policy = do {
     _ \<leftarrow> updateLatestStatus a (policy_key policy) (\<lambda>latestPolicy. (Status policy)
       \<lparr>LastHandledOperationId := LastHandledOperationId (Status latestPolicy)\<rparr>);
     return (Return (requeueAfter (CheckInterval pc * Second)) None)
   }"

definition waitingStatus :: "policyStatus \<Rightarrow> time \<Rightarrow> string \<Rightarrow> string \<Rightarrow> policyStatus" where
  "waitingStatus s now preMessage message = s\<lparr>
     PreConditionsStatus := Some (preStatus True now False preMessage),
     Phase := PhaseResuming, Message := message, PendingStartupResume := True\<rparr>"

definition startupPreConditions :: "'w api \<Rightarrow> policy \<Rightarrow> ('w, stage) state" where
  "startupPreConditions a policy =
     (case preConditionsOn policy of
        None \<Rightarrow> return (Continue policy)
      | Some pc \<Rightarrow> do {
          checked \<leftarrow> checkPreConditions a policy;
          now \<leftarrow> Now a;
          (case checked of
             Inl e \<Rightarrow> keepWaiting a pc (policy\<lparr>Status := waitingStatus (Status policy) now
                 (''Error checking pre-conditions: '' @ err_Error e)
                 (if blocksChain pc then Message (Status policy)
                  else ''Waiting for pre-conditions (non-blocking mode)'')\<rparr>)
           | Inr (False, message) \<Rightarrow> keepWaiting a pc (policy\<lparr>Status := waitingStatus (Status policy) now message
                 (if blocksChain pc then ''Waiting for pre-conditions: '' @ message
                  else ''Waiting for pre-conditions (non-blocking mode - other policies continue)'')\<rparr>)
           | Inr (True, _) \<Rightarrow> return (Continue (policy\<lparr>Status := (Status policy)\<lparr>PreConditionsStatus :=
                 Some (preStatus False now True ''All pre-conditions passed'')\<rparr>\<rparr>)))
        })"

definition throttlingOn :: "policy \<Rightarrow> bool" where
  "throttlingOn policy =
     (case AdaptiveThrottling (Spec policy) of None \<Rightarrow> False | Some c \<Rightarrow> throttle_Enabled c)"

text \<open>
  The resume that the startup stages share: throttled, or all workloads with errors only logged.
  \<open>Continue\<close> when it went through.
\<close>

definition startupResumeWorkloads ::
    "nat \<Rightarrow> 'w api \<Rightarrow> policy \<Rightarrow> workload list \<Rightarrow> workload list \<Rightarrow> ('w sys, stage) state" where
  "startupResumeWorkloads fuel a policy ds ss =
     (if throttlingOn policy then do {
        r \<leftarrow> resumeWithAdaptiveThrottling fuel a policy ds ss True;
        return (case r of
           None \<Rightarrow> NoFuel
         | Some None \<Rightarrow> Continue policy
         | Some (Some e) \<Rightarrow>
             if err_Error e = ''operation aborted due to manual override'' then returnErr None
             else returnErr (Some e))
      } else inWorld (do {
        _ \<leftarrow> for_each ds (resumeDeployment a);
        _ \<leftarrow> for_each ss (resumeStatefulSet a);
        return (Continue policy)
      }))"

definition startupResumedMessage :: "policy \<Rightarrow> workload list \<Rightarrow> workload list \<Rightarrow> string" where
  "startupResumedMessage policy ds ss =
     (case AdaptiveProgress (Status policy) of
        Some ap \<Rightarrow>
          if progress_Message ap \<noteq> '''' then ''Startup resume applied: '' @ progress_Message ap
          else countsMessage ''Startup resume applied: completed after delay ('' ds '' deployments, '' ss '' statefulsets)''
      | None \<Rightarrow> countsMessage ''Startup resume applied: completed after delay ('' ds '' deployments, '' ss '' statefulsets)'')"

definition startupResumedStatus ::
    "policy \<Rightarrow> workload list \<Rightarrow> workload list \<Rightarrow> time \<Rightarrow> policy \<Rightarrow> policyStatus" where
  "startupResumedStatus policy ds ss now latestPolicy =
     (let l = Status latestPolicy
      in l\<lparr>Phase := PhaseResumed, Message := startupResumedMessage policy ds ss, LastResumeAt := Some now,
           LastStartupAction := ''RESUME_APPLIED'', PendingStartupResume := False,
           AdaptiveProgress := orElse (AdaptiveProgress (Status policy)) (AdaptiveProgress l)\<rparr>)"

definition finishStartupResume :: "'w api \<Rightarrow> policy \<Rightarrow> workload list \<Rightarrow> workload list \<Rightarrow> ('w, stage) state" where
  "finishStartupResume a policy ds ss = do {
     now \<leftarrow> Now a;
     e \<leftarrow> updateLatestStatus a (policy_key policy) (startupResumedStatus policy ds ss now);
     (case e of
        Some err \<Rightarrow> return (returnErr (Some err))
      | None \<Rightarrow>
          if HandleNodeFailure (Spec policy) \<and> FailedNodeName (Status policy) \<noteq> '''' then do {
            _ \<leftarrow> forceDeleteTerminatingPods a policy (FailedNodeName (Status policy));
            return (Return (requeueAfter (30 * Second)) None)
          } else return (returnErr None))
   }"

definition executeStartupResume :: "nat \<Rightarrow> 'w api \<Rightarrow> policy \<Rightarrow> ('w sys, stage) state" where
  "executeStartupResume fuel a policy = do {
     listed \<leftarrow> inWorld (listWorkloads a policy);
     (case listed of
        Inl e \<Rightarrow> return (returnErr (Some e))
      | Inr (ds, ss) \<Rightarrow>
          thenStage (inWorld (startupPreConditions a policy)) (\<lambda>policy.
          thenStage (startupResumeWorkloads fuel a policy ds ss) (\<lambda>policy.
          inWorld (finishStartupResume a policy ds ss))))
   }"

definition handlePendingStartupResume :: "nat \<Rightarrow> 'w api \<Rightarrow> nsname \<Rightarrow> policy \<Rightarrow> ('w sys, stage) state" where
  "handlePendingStartupResume fuel a req policy =
     (if \<not> PendingStartupResume (Status policy) then return (Continue policy)
      else do {
        complete \<leftarrow> readComplete;
        if \<not> complete then return (Return (requeueAfter (2 * Second)) None)
        else if hasNodeFailureEvent policy then
          inWorld (cancelStartupResume a req ''CANCELLED_BY_NODE_FAILURE'')
        else do {
          complete' \<leftarrow> readComplete;
          if manualPending policy \<and> complete' then
            inWorld (cancelStartupResume a req ''CANCELLED_BY_MANUAL_OVERRIDE'')
          else do {
            blocked \<leftarrow> inWorld (isBlockedByHigherPriorityResume a policy);
            (case blocked of
               Inl e \<Rightarrow> return (returnErr (Some e))
             | Inr True \<Rightarrow> return (Return (requeueAfter (10 * Second)) None)
             | Inr False \<Rightarrow>
                 (case ResumeDelayStartedAt (Status policy) of
                    None \<Rightarrow> inWorld (do {
                      _ \<leftarrow> UpdatePolicyStatus a (policy\<lparr>Status := (Status policy)\<lparr>PendingStartupResume := False\<rparr>\<rparr>);
                      return (returnErr None)
                    })
                  | Some t \<Rightarrow> do {
                      now \<leftarrow> inWorld (Now a);
                      let elapsed = now - t;
                      if elapsed < ResumeDelay (Spec policy)
                      then return (Return (requeueAfter (ResumeDelay (Spec policy) - elapsed)) None)
                      else executeStartupResume fuel a policy
                    }))
          }
        }
      })"

subsection \<open>Node failures\<close>

text \<open>
  Status blocks whose body reads the clock: \<open>stamp\<close> runs between the fetch and the write, once per
  attempt.
\<close>

definition stampStatus ::
    "'w api \<Rightarrow> nsname \<Rightarrow> ('w, time) state \<Rightarrow> (time \<Rightarrow> policy \<Rightarrow> policyStatus) \<Rightarrow>
     (policy \<Rightarrow> policy \<Rightarrow> ('w, err option) state) \<Rightarrow> ('w, err option) state" where
  "stampStatus a k stamp change put =
     RetryOnConflict a (do {
       r \<leftarrow> GetPolicy a k;
       (case r of
          Inl e \<Rightarrow> return (Some e)
        | Inr latest \<Rightarrow> do {
            now \<leftarrow> stamp;
            put (latest\<lparr>Status := change now latest\<rparr>) latest
          })
     })"

definition nodeFailureStatus :: "time \<Rightarrow> string list \<Rightarrow> time \<Rightarrow> policy \<Rightarrow> policyStatus" where
  "nodeFailureStatus now affectedWorkloads condTime latest =
     (let s = (Status latest)\<lparr>NodeFailureEventHandledAt := Some now, AffectedWorkloads := affectedWorkloads\<rparr>;
          s = (if OperationId (Spec latest) \<noteq> '''' then s\<lparr>LastHandledOperationId := OperationId (Spec latest)\<rparr>
               else s);
          s = s\<lparr>PendingStartupResume := True, ResumeDelayStartedAt := Some now\<rparr>
      in if length affectedWorkloads > 0
         then s\<lparr>Conditions := setDegradedCondition condTime (Conditions s) (FailedNodeName s) affectedWorkloads\<rparr>
         else s)"

definition handleNodeFailureStage :: "'w api \<Rightarrow> nsname \<Rightarrow> policy \<Rightarrow> ('w, stage) state" where
  "handleNodeFailureStage a req policy =
     (if \<not> hasNodeFailureEvent policy then return (Continue policy)
      else do {
        r \<leftarrow> handleNodeFailureEvent a policy;
        (case r of
           Inl e \<Rightarrow> return (returnErr (Some e))
         | Inr affectedWorkloads \<Rightarrow> do {
             now \<leftarrow> Now a;
             e \<leftarrow> stampStatus a req (if length affectedWorkloads > 0 then Now a else return now)
                   (nodeFailureStatus now affectedWorkloads) (PatchPolicyStatus a);
             (case e of
                Some err \<Rightarrow> return (returnErr (Some err))
              | None \<Rightarrow> return (Return requeueNow None))
           })
      })"

definition cleanupFailedNode :: "'w api \<Rightarrow> nsname \<Rightarrow> policy \<Rightarrow> ('w, stage) state" where
  "cleanupFailedNode a req policy =
     (if HandleNodeFailure (Spec policy) \<and> FailedNodeName (Status policy) \<noteq> '''' then
        if \<not> shouldSkipOperation policy then return (Continue policy)
        else do {
          nodeList \<leftarrow> ListNodes a None;
          let nodeStillFailed = (case nodeList of
             Inl e \<Rightarrow> False
           | Inr nodes \<Rightarrow> list_ex (\<lambda>n. node_Name n = FailedNodeName (Status policy) \<and> reportedNotReady n) nodes);
          if nodeStillFailed then do {
            _ \<leftarrow> forceDeleteTerminatingPods a policy (FailedNodeName (Status policy));
            return (Return (requeueAfter (30 * Second)) None)
          } else do {
            _ \<leftarrow> patchStatus a req (\<lambda>latest. (Status latest)\<lparr>FailedNodeName := ''''\<rparr>);
            refetch a req
          }
        }
      else return (Continue policy))"

subsection \<open>Handled operations\<close>

definition balanceAfterNodeEvent :: "'w api \<Rightarrow> policy \<Rightarrow> ('w, unit) state" where
  "balanceAfterNodeEvent a policy =
     (if BalancePods (Spec policy) \<and> LastResumeAt (Status policy) \<noteq> None then
        if \<not> afterOpt (NodeReadyEventDetectedAt (Status policy)) (LastResumeAt (Status policy)) then return ()
        else do {
          shouldBalance \<leftarrow> shouldPerformBalancing a policy;
          if shouldBalance then do { _ \<leftarrow> performBalancing a policy; return () }
          else return ()
        }
      else return ())"

definition skipHandled :: "'w api \<Rightarrow> policy \<Rightarrow> ('w, stage) state" where
  "skipHandled a policy =
     (if \<not> shouldSkipOperation policy then return (Continue policy)
      else if unhandledEvent (NodeReadyEventDetectedAt (Status policy)) (NodeReadyEventHandledAt (Status policy)) then
        if Phase (Status policy) \<noteq> PhaseResumed then return (returnErr None)
        else do {
          _ \<leftarrow> balanceAfterNodeEvent a policy;
          now \<leftarrow> Now a;
          e \<leftarrow> UpdatePolicyStatus a (policy\<lparr>Status := (Status policy)\<lparr>NodeReadyEventHandledAt := Some now\<rparr>\<rparr>);
          return (returnErr e)
        }
      else return (returnErr None))"

definition checkNamespace :: "'w api \<Rightarrow> policy \<Rightarrow> ('w, stage) state" where
  "checkNamespace a policy = do {
     nsErr \<leftarrow> GetNamespace a (TargetNamespace (Spec policy));
     (case nsErr of
        None \<Rightarrow> return (Continue policy)
      | Some e \<Rightarrow>
          if IsNotFound e then do {
            err \<leftarrow> updateStatus a policy PhaseFailed
              (''Target namespace '' @ [CHR 0x27] @ TargetNamespace (Spec policy) @ [CHR 0x27] @ '' not found'') False;
            return (returnErr err)
          } else do {
            _ \<leftarrow> updateStatus a policy PhaseFailed (''Failed to get namespace: '' @ err_Error e) False;
            return (returnErr (Some e))
          })
   }"

subsection \<open>A resume whose pre-conditions are being checked\<close>

definition orEmpty :: "preConditionsStatus option \<Rightarrow> preConditionsStatus" where
  "orEmpty s = (case s of
     None \<Rightarrow> \<lparr>Checking = False, LastCheckedAt = None, Passed = False, pre_Message = ''''\<rparr> | Some x \<Rightarrow> x)"

definition recheckInterval :: "policy \<Rightarrow> duration" where
  "recheckInterval policy =
     (case PreConditions (Spec policy) of
        None \<Rightarrow> 5 * Second
      | Some pc \<Rightarrow> if CheckInterval pc > 0 then CheckInterval pc * Second else 5 * Second)"

definition checkedAgain :: "'w api \<Rightarrow> policy \<Rightarrow> string \<Rightarrow> ('w, stage) state" where
  "checkedAgain a policy message = do {
     _ \<leftarrow> stampStatus a (policy_key policy) (Now a)
       (\<lambda>now latestPolicy. (Status latestPolicy)\<lparr>PreConditionsStatus :=
          Some ((orEmpty (PreConditionsStatus (Status latestPolicy)))\<lparr>LastCheckedAt := Some now, pre_Message := message\<rparr>)\<rparr>)
       (\<lambda>new base. UpdatePolicyStatus a new);
     return (Return (requeueAfter (recheckInterval policy)) None)
   }"

definition resumedAfterChecks :: "workload list \<Rightarrow> workload list \<Rightarrow> time \<Rightarrow> policy \<Rightarrow> policyStatus" where
  "resumedAfterChecks ds ss now latestPolicy =
     (let l = Status latestPolicy
      in l\<lparr>Phase := PhaseResumed,
           Message := countsMessage ''Successfully resumed after pre-conditions passed ('' ds '' deployments, '' ss '' statefulsets)'',
           LastResumeAt := Some now,
           PreConditionsStatus := map_option (\<lambda>_. preStatus False now True ''All pre-conditions passed'') (PreConditionsStatus l),
           PendingStartupResume := False\<rparr>)"

definition handleChecking :: "nat \<Rightarrow> 'w api \<Rightarrow> policy \<Rightarrow> ('w sys, stage) state" where
  "handleChecking fuel a policy =
     (if \<not> beingChecked policy then return (Continue policy)
      else do {
        checked \<leftarrow> inWorld (checkPreConditions a policy);
        (case checked of
           Inl e \<Rightarrow> inWorld (checkedAgain a policy (''Error: '' @ err_Error e))
         | Inr (False, message) \<Rightarrow> inWorld (checkedAgain a policy message)
         | Inr (True, _) \<Rightarrow> do {
             now \<leftarrow> inWorld (Now a);
             let policy = policy\<lparr>Status := (Status policy)\<lparr>PendingStartupResume := False,
               PreConditionsStatus := Some (preStatus False now True ''All pre-conditions passed'')\<rparr>\<rparr>;
             listed \<leftarrow> inWorld (listWorkloads a policy);
             (case listed of
                Inl e \<Rightarrow> return (returnErr (Some e))
              | Inr (ds, ss) \<Rightarrow>
                  thenStage (startupResumeWorkloads fuel a policy ds ss) (\<lambda>policy. inWorld (do {
                    e \<leftarrow> stampStatus a (policy_key policy) (Now a) (resumedAfterChecks ds ss)
                      (\<lambda>new base. UpdatePolicyStatus a new);
                    return (returnErr e)
                  })))
           })
      })"

subsection \<open>The manual operation\<close>

text \<open>A failure that is recorded in the status before it is returned.\<close>

definition failWith :: "'w api \<Rightarrow> policy \<Rightarrow> string \<Rightarrow> err \<Rightarrow> ('w, stage) state" where
  "failWith a policy prefix e = do {
     _ \<leftarrow> updateStatus a policy PhaseFailed (prefix @ '': '' @ err_Error e) False;
     return (returnErr (Some e))
   }"

text \<open>A panic inside a call unwinds the handler, which writes nothing more.\<close>

fun isPanic :: "err \<Rightarrow> bool" where
  "isPanic (Panic msg) = True"
| "isPanic e = False"

definition manualFreeze :: "'w api \<Rightarrow> policy \<Rightarrow> workload list \<Rightarrow> workload list \<Rightarrow> ('w, stage) state" where
  "manualFreeze a policy ds ss = do {
     r \<leftarrow> for_until_error ds (\<lambda>d. freezeDeployment a d (Some policy));
     (case r of
        Some (d, e) \<Rightarrow> failWith a policy (''Failed to freeze deployment '' @ Name (workload_Meta d)) e
      | None \<Rightarrow> do {
          r' \<leftarrow> for_until_error ss (\<lambda>s. freezeStatefulSet a s (Some policy));
          (case r' of
             Some (s, e) \<Rightarrow> failWith a policy (''Failed to freeze statefulset '' @ Name (workload_Meta s)) e
           | None \<Rightarrow> do {
               err \<leftarrow> updateStatus a policy PhaseFrozen
                 (countsMessage ''Successfully froze '' ds '' deployments and '' ss '' statefulsets'') False;
               return (returnErr err)
             })
        })
   }"

definition preConditionsFailed :: "'w api \<Rightarrow> policy \<Rightarrow> err \<Rightarrow> ('w, stage) state" where
  "preConditionsFailed a policy e =
     (if Contains (err_Error e) ''timeout'' then do {
        _ \<leftarrow> updateStatus a policy PhaseFailed (''Pre-conditions timeout: '' @ err_Error e) False;
        return (returnErr None)
      } else failWith a policy ''Pre-conditions check failed'' e)"

definition manualPreConditions :: "nat \<Rightarrow> 'w api \<Rightarrow> policy \<Rightarrow> ('w, stage) state" where
  "manualPreConditions fuel a policy =
     (case preConditionsOn policy of
        None \<Rightarrow> return (Continue policy)
      | Some pc \<Rightarrow> do {
          err \<leftarrow> updateStatus a policy PhaseResuming ''Checking pre-conditions before resume'' False;
          (case err of
             Some e \<Rightarrow> return (returnErr (Some e))
           | None \<Rightarrow>
               if blocksChain pc then do {
                 r \<leftarrow> waitForPreConditions fuel a policy False;
                 (case r of
                    None \<Rightarrow> return NoFuel
                  | Some None \<Rightarrow> return (Continue policy)
                  | Some (Some e) \<Rightarrow>
                      if isPanic e then return (returnErr (Some e))
                      else if Contains (err_Error e) ''cancelled'' then return (Return requeueNow None)
                      else preConditionsFailed a policy e)
               } else do {
                 checked \<leftarrow> checkPreConditions a policy;
                 (case checked of
                    Inl e \<Rightarrow> preConditionsFailed a policy e
                  | Inr (allPassed, message) \<Rightarrow>
                      if allPassed then do {
                        _ \<leftarrow> reportPreConditions a policy False True ''All pre-conditions passed'';
                        return (Continue policy)
                      } else do {
                        _ \<leftarrow> reportPreConditions a policy True False message;
                        return (Return (requeueAfter (checkIntervalOf pc)) None)
                      })
               })
        })"

definition manualResumeWorkloads ::
    "nat \<Rightarrow> 'w api \<Rightarrow> policy \<Rightarrow> workload list \<Rightarrow> workload list \<Rightarrow> ('w sys, stage) state" where
  "manualResumeWorkloads fuel a policy ds ss =
     (if throttlingOn policy then do {
        r \<leftarrow> resumeWithAdaptiveThrottling fuel a policy ds ss False;
        (case r of
           None \<Rightarrow> return NoFuel
         | Some None \<Rightarrow> return (Continue policy)
         | Some (Some e) \<Rightarrow>
             if isPanic e then return (returnErr (Some e))
             else if err_Error e = ''operation aborted due to manual override'' then return (returnErr None)
             else inWorld (failWith a policy ''Failed to resume'' e))
      } else inWorld (do {
        r \<leftarrow> for_until_error ds (resumeDeployment a);
        (case r of
           Some (d, e) \<Rightarrow> failWith a policy (''Failed to resume deployment '' @ Name (workload_Meta d)) e
         | None \<Rightarrow> do {
             r' \<leftarrow> for_until_error ss (resumeStatefulSet a);
             (case r' of
                Some (s, e) \<Rightarrow> failWith a policy (''Failed to resume statefulset '' @ Name (workload_Meta s)) e
              | None \<Rightarrow> return (Continue policy))
           })
      }))"

definition manualResumedStatus ::
    "policy \<Rightarrow> workload list \<Rightarrow> workload list \<Rightarrow> time \<Rightarrow> policy \<Rightarrow> policyStatus" where
  "manualResumedStatus policy ds ss now latestPolicy = (Status latestPolicy)
     \<lparr>Phase := PhaseResumed,
      Message := countsMessage ''Successfully resumed '' ds '' deployments and '' ss '' statefulsets'',
      LastHandledOperationId := OperationId (Spec policy), LastResumeAt := Some now, AdaptiveProgress := None\<rparr>"

definition manualResume :: "nat \<Rightarrow> 'w api \<Rightarrow> policy \<Rightarrow> workload list \<Rightarrow> workload list \<Rightarrow> ('w sys, stage) state" where
  "manualResume fuel a policy ds0 ss0 =
     (let (ds, ss) = filterWorkloadsRequiringResume ds0 ss0
      in if ds = [] \<and> ss = [] then inWorld (do {
           err \<leftarrow> updateStatus a policy PhaseResumed ''No workloads require resume (all already resumed)'' False;
           return (returnErr err)
         })
         else
           thenStage (inWorld (manualPreConditions fuel a policy)) (\<lambda>policy.
           thenStage (manualResumeWorkloads fuel a policy ds ss) (\<lambda>policy. inWorld (do {
             now \<leftarrow> Now a;
             err \<leftarrow> updateLatestStatus a (policy_key policy) (manualResumedStatus policy ds ss now);
             return (returnErr err)
           }))))"

definition nothingFound :: "'w api \<Rightarrow> policy \<Rightarrow> ('w, stage) state" where
  "nothingFound a policy = do {
     _ \<leftarrow> updateStatus a policy
       (if Action (Spec policy) = LifecycleActionResume then PhaseResumed else PhaseFrozen)
       (if Selector (Spec policy) \<noteq> None then ''No resources matched the selector in namespace''
        else ''No deployments or statefulsets found in namespace'') False;
     return (returnErr None)
   }"

definition manualOperation :: "nat \<Rightarrow> 'w api \<Rightarrow> policy \<Rightarrow> ('w sys, stage) state" where
  "manualOperation fuel a policy = do {
     err \<leftarrow> inWorld (updateStatus a policy
       (if Action (Spec policy) = LifecycleActionFreeze then PhaseFreezing else PhaseResuming)
       ''Processing request'' False);
     (case err of
        Some e \<Rightarrow> return (returnErr (Some e))
      | None \<Rightarrow> do {
          deployments \<leftarrow> inWorld (listDeployments a (TargetNamespace (Spec policy)) (Selector (Spec policy)));
          (case deployments of
             Inl e \<Rightarrow> inWorld (failWith a policy ''Failed to list deployments'' e)
           | Inr ds \<Rightarrow> do {
               statefulSets \<leftarrow> inWorld (listStatefulSets a (TargetNamespace (Spec policy)) (Selector (Spec policy)));
               (case statefulSets of
                  Inl e \<Rightarrow> inWorld (failWith a policy ''Failed to list statefulsets'' e)
                | Inr ss \<Rightarrow>
                    if ds = [] \<and> ss = [] then inWorld (nothingFound a policy)
                    else (case Action (Spec policy) of
                       LifecycleActionFreeze \<Rightarrow> inWorld (manualFreeze a policy ds ss)
                     | LifecycleActionResume \<Rightarrow> manualResume fuel a policy ds ss
                     | LifecycleActionOther _ \<Rightarrow> return (returnErr None)))
             })
        })
   }"

subsection \<open>The handler\<close>

definition reconcileStages :: "nat \<Rightarrow> 'w api \<Rightarrow> nsname \<Rightarrow> policy \<Rightarrow> ('w sys, stage) state" where
  "reconcileStages fuel a req policy =
     thenStage (inWorld (handlePendingFreeze a req policy)) (\<lambda>policy.
     thenStage (handlePendingStartupResume fuel a req policy) (\<lambda>policy.
     thenStage (inWorld (handleNodeFailureStage a req policy)) (\<lambda>policy.
     thenStage (inWorld (cleanupFailedNode a req policy)) (\<lambda>policy.
     thenStage (inWorld (skipHandled a policy)) (\<lambda>policy.
     thenStage (inWorld (checkNamespace a policy)) (\<lambda>policy.
     thenStage (handleChecking fuel a policy) (\<lambda>policy.
     manualOperation fuel a policy)))))))"

definition Reconcile :: "nat \<Rightarrow> 'w api \<Rightarrow> nsname \<Rightarrow> ('w sys, stage) state" where
  "Reconcile fuel a req = do {
     r \<leftarrow> inWorld (GetPolicy a req);
     (case r of
        Inl e \<Rightarrow> return (if IsNotFound e then returnErr None else returnErr (Some e))
      | Inr policy \<Rightarrow> do {
          dup \<leftarrow> inWorld (checkDuplicate a policy);
          (case dup of
             Inl e \<Rightarrow> return (returnErr e)
           | Inr _ \<Rightarrow> reconcileStages fuel a req policy)
        })
   }"

end
