(* ===== verification/Commands.thy ===== *)
theory Commands
  imports Reconcile
begin

text \<open>
  Commands of the user served by \<open>Reconcile\<close>, on a cluster nobody else writes to.
\<close>

subsection \<open>Running the stages\<close>

lemma run_thenStage [simp, run_simps]:
  "run_state (thenStage m f) s = (case result m s of
     Continue p \<Rightarrow> run_state (f p) (final m s)
   | Return res e \<Rightarrow> (Return res e, final m s)
   | NoFuel \<Rightarrow> (NoFuel, final m s))"
  by (simp add: thenStage_def split: stage.split)

lemma run_readComplete [simp]: "run_state readComplete s = (startupComplete s, s)"
  by (simp add: readComplete_def)

text \<open>The policy at \<open>k\<close> is the one that manages its namespace.\<close>

definition in_charge :: "cluster \<Rightarrow> nsname \<Rightarrow> policy \<Rightarrow> bool" where
  "in_charge c k p \<longleftrightarrow> cPolicies c k = Some p \<and>
     (\<forall>q \<in> ran (cPolicies c). policy_uid q \<noteq> policy_uid p \<longrightarrow>
        claims (TargetNamespace (Spec p)) q \<longrightarrow> \<not> precedes q p)"

lemma in_charge_key:
  assumes "quiet_cluster a view" and "in_charge (view w) k p"
  shows "policy_key p = k" and "cPolicies (view w) k = Some p"
proof -
  show c: "cPolicies (view w) k = Some p" using assms(2) by (simp add: in_charge_def)
  show "policy_key p = k" by (rule quiet_keyed(1) [OF assms(1) c])
qed

text \<open>The world after the reads at the start of the handler.\<close>

definition entered :: "'w api \<Rightarrow> nsname \<Rightarrow> 'w \<Rightarrow> 'w" where
  "entered a k w = final (ListPolicies a) (final (GetPolicy a k) w)"

lemma reconcile_in_charge:
  assumes "quiet_cluster a view" and "in_charge (sysview view s) k p"
  shows "view (entered a k (world s)) = sysview view s"
    and "run_state (Reconcile fuel a k) s =
      run_state (reconcileStages fuel a k p) (s\<lparr>world := entered a k (world s)\<rparr>)"
proof -
  let ?w1 = "final (GetPolicy a k) (world s)"
  have g: "result (GetPolicy a k) (world s) = Inr p"
    using reads_result [OF quiet_readD(1) [OF assms(1)], of "world s" k] assms(2) by (simp add: in_charge_def)
  obtain ps where ps: "result (ListPolicies a) ?w1 = Inr ps"
    using reads_result [OF quiet_readD(6) [OF assms(1)], of ?w1] by (auto simp: lists_def)
  from listed_policies(2) [OF assms(1) ps] have "conflictingPolicy p ps = None"
    using assms(2) by (simp add: conflictingPolicy_None in_charge_def quiet_view [OF assms(1)])
  then show "run_state (Reconcile fuel a k) s =
      run_state (reconcileStages fuel a k p) (s\<lparr>world := entered a k (world s)\<rparr>)"
    by (simp add: Reconcile_def checkDuplicate_def entered_def g ps)
  show "view (entered a k (world s)) = sysview view s" by (simp add: entered_def quiet_view [OF assms(1)])
qed

text \<open>A policy with nothing under way: no delayed operation, no node event, no check.\<close>

definition settled :: "policy \<Rightarrow> bool" where
  "settled p \<longleftrightarrow> \<not> PendingFreeze (Status p) \<and> \<not> PendingStartupResume (Status p) \<and>
     \<not> hasNodeFailureEvent p \<and> \<not> beingChecked p"

text \<open>Besides, no failed node and no node event to balance for.\<close>

definition idle :: "policy \<Rightarrow> bool" where
  "idle p \<longleftrightarrow> settled p \<and> FailedNodeName (Status p) = '''' \<and>
     \<not> unhandledEvent (NodeReadyEventDetectedAt (Status p)) (NodeReadyEventHandledAt (Status p))"

lemma stages_settled:
  assumes "quiet_cluster a view" and "settled p" and "\<not> shouldSkipOperation p"
    and "TargetNamespace (Spec p) \<in> cNamespaces (sysview view s)"
  shows "\<exists>w'. view w' = sysview view s \<and>
    run_state (reconcileStages fuel a k p) s = run_state (manualOperation fuel a p) (s\<lparr>world := w'\<rparr>)"
proof -
  have "result (GetNamespace a (TargetNamespace (Spec p))) (world s) = None"
    using reads_result [OF quiet_readD(8) [OF assms(1), where ns = "TargetNamespace (Spec p)"], of "world s"] assms(4) by simp
  then have "run_state (reconcileStages fuel a k p) s = run_state (manualOperation fuel a p)
      (s\<lparr>world := final (GetNamespace a (TargetNamespace (Spec p))) (world s)\<rparr>)"
    using assms(2,3)
    by (simp add: reconcileStages_def settled_def handlePendingFreeze_def handlePendingStartupResume_def
        handleNodeFailureStage_def cleanupFailedNode_def skipHandled_def checkNamespace_def handleChecking_def)
  then show ?thesis
    by (intro exI [of _ "final (GetNamespace a (TargetNamespace (Spec p))) (world s)"]) (simp add: quiet_view [OF assms(1)])
qed

subsection \<open>The workloads of a policy\<close>

definition selectorOf :: "'w api \<Rightarrow> policy \<Rightarrow> err + selector option" where
  "selectorOf a p = (case Selector (Spec p) of
     None \<Rightarrow> Inr None | Some s \<Rightarrow> map_sum id Some (LabelSelectorAsSelector a s))"

definition selected :: "policy \<Rightarrow> selector option \<Rightarrow> (nsname \<rightharpoonup> workload) \<Rightarrow> nsname set" where
  "selected p sel m = {k. fst k = TargetNamespace (Spec p) \<and>
     (\<exists>d. m k = Some d \<and> (case sel of None \<Rightarrow> True | Some s \<Rightarrow> s (Labels (workload_Meta d))))}"

lemma list_calls:
  assumes "selectorOf a p = Inr sel"
  shows "listDeployments a (TargetNamespace (Spec p)) (Selector (Spec p)) = ListDeployments a (TargetNamespace (Spec p)) sel"
    and "listStatefulSets a (TargetNamespace (Spec p)) (Selector (Spec p)) = ListStatefulSets a (TargetNamespace (Spec p)) sel"
  using assms by (auto simp: selectorOf_def listDeployments_def listStatefulSets_def split: option.splits sum.splits)

lemma selected_keys:
  assumes "\<And>k d. m k = Some d \<Longrightarrow> workload_key d = k"
    and "set ds = in_namespace m (TargetNamespace (Spec p)) sel"
  shows "workload_key ` set ds = selected p sel m" and "\<And>d. d \<in> set ds \<Longrightarrow> m (workload_key d) = Some d"
  using assms by (fastforce simp: in_namespace_def selected_def image_iff)+

lemma listed_deployments:
  assumes "quiet_cluster a view" and "selectorOf a p = Inr sel"
  shows "\<exists>ds. result (listDeployments a (TargetNamespace (Spec p)) (Selector (Spec p))) w = Inr ds \<and>
    deployments.listed (view w) ds \<and> workload_key ` set ds = selected p sel (cDeployments (view w))"
    and "view (final (listDeployments a (TargetNamespace (Spec p)) (Selector (Spec p))) w) = view w"
  using reads_result [OF quiet_readD(4) [OF assms(1), where ns = "TargetNamespace (Spec p)" and sel = sel], of w]
    selected_keys [of "cDeployments (view w)" _ p sel, OF quiet_keyed(2) [OF assms(1)]]
  by (auto simp: list_calls [OF assms(2)] lists_def deployments.listed_def quiet_view [OF assms(1)])

lemma listed_statefulSets:
  assumes "quiet_cluster a view" and "selectorOf a p = Inr sel"
  shows "\<exists>ss. result (listStatefulSets a (TargetNamespace (Spec p)) (Selector (Spec p))) w = Inr ss \<and>
    statefulSets.listed (view w) ss \<and> workload_key ` set ss = selected p sel (cStatefulSets (view w))"
    and "view (final (listStatefulSets a (TargetNamespace (Spec p)) (Selector (Spec p))) w) = view w"
  using reads_result [OF quiet_readD(5) [OF assms(1), where ns = "TargetNamespace (Spec p)" and sel = sel], of w]
    selected_keys [of "cStatefulSets (view w)" _ p sel, OF quiet_keyed(3) [OF assms(1)]]
  by (auto simp: list_calls [OF assms(2)] lists_def statefulSets.listed_def quiet_view [OF assms(1)])


subsection \<open>The specification of freezing and resuming\<close>

text \<open>
  What a workload is to the user of the operator: how many replicas it runs, and how many it is to
  get back. Freezing saves the count and stops the workload, resuming brings the saved count back.
\<close>

record scale =
  running :: int
  saved :: "int option"

definition scale_of :: "workload \<Rightarrow> scale" where
  "scale_of d = \<lparr>running = (case Replicas d of None \<Rightarrow> 1 | Some n \<Rightarrow> n),
     saved = (case count_annotation d of Some (Inr n) \<Rightarrow> Some n | _ \<Rightarrow> None)\<rparr>"

definition scale_down :: "scale \<Rightarrow> scale" where
  "scale_down s = (if running s = 0 then s else \<lparr>running = 0, saved = Some (running s)\<rparr>)"

definition scale_up :: "scale \<Rightarrow> scale" where
  "scale_up s = (case saved s of None \<Rightarrow> s | Some n \<Rightarrow> \<lparr>running = n, saved = None\<rparr>)"

definition serve :: "LifecycleAction \<Rightarrow> scale \<Rightarrow> scale" where
  "serve act = (case act of
     LifecycleActionFreeze \<Rightarrow> scale_down | LifecycleActionResume \<Rightarrow> scale_up | LifecycleActionOther _ \<Rightarrow> id)"

text \<open>Counts as the API types hold them, and a saved count the operator has written.\<close>

definition well_scaled :: "workload \<Rightarrow> bool" where
  "well_scaled d \<longleftrightarrow> (\<exists>n. Replicas d = Some n \<and> int32_range n) \<and>
     (\<forall>r. count_annotation d = Some r \<longrightarrow> (\<exists>n. r = Inr n \<and> int32_range n))"

lemma stored_count [simp]:
  "count_annotation (stored_workload d) = count_annotation d"
  "Replicas d = Some n \<Longrightarrow> Replicas (stored_workload d) = Some n"
  by (simp_all add: count_annotation_def stored_workload_def)

context workload_kind
begin

lemma frozen_scale:
  assumes "well_scaled d"
  shows "scale_of (frozen p d) = scale_down (scale_of d)" and "well_scaled (frozen p d)"
proof -
  obtain n where n: "Replicas d = Some n" "int32_range n" using assms by (auto simp: well_scaled_def)
  have "scale_of (frozen p d) = scale_down (scale_of d) \<and> well_scaled (frozen p d)"
  proof (cases "freeze p d")
    case None
    then show ?thesis
      using assms freeze_skip [of p d] by (simp add: frozen_def changed_def scale_down_def scale_of_def)
  next
    case (Some e)
    have e: "Replicas e = Some 0" "count_annotation e = Some (Inr n)"
      using freeze_zero [OF Some] freeze_count [OF Some] n by (simp_all add: count_annotation_def)
    moreover have "n \<noteq> 0" using freeze_skip [of p d] Some n by auto
    ultimately show ?thesis
      using n by (simp add: frozen_def changed_def Some scale_down_def scale_of_def well_scaled_def)
  qed
  then show "scale_of (frozen p d) = scale_down (scale_of d)" and "well_scaled (frozen p d)" by auto
qed

lemma resumed_scale:
  assumes "well_scaled d"
  shows "scale_of (resumed d) = scale_up (scale_of d)" and "well_scaled (resumed d)"
proof -
  have "scale_of (resumed d) = scale_up (scale_of d) \<and> well_scaled (resumed d)"
  proof (cases "count_annotation d")
    case None
    then show ?thesis using assms by (simp add: resumed_def scale_up_def scale_of_def)
  next
    case (Some r)
    then obtain n where n: "r = Inr n" "int32_range n" using assms by (auto simp: well_scaled_def)
    have "resume n d \<noteq> None" using Some resume_skip [of n d] by (auto simp: count_annotation_def)
    then obtain e where e: "resume n d = Some e" by auto
    have "Replicas e = Some n" "count_annotation e = None"
      using resume_some [OF e] n(2) by (simp_all add: count_annotation_def)
    then show ?thesis
      using Some n e by (simp add: resumed_def changed_def scale_up_def scale_of_def well_scaled_def)
  qed
  then show "scale_of (resumed d) = scale_up (scale_of d)" and "well_scaled (resumed d)" by auto
qed

text \<open>Workloads without a saved count are left alone, so the operator's filter does not matter.\<close>

lemma resumed_unmarked: "workload_Annotations d AnnotationOriginalReplicas = None \<Longrightarrow> resumed d = d"
  by (simp add: resumed_def count_annotation_def)

lemma resumed_filtered:
  assumes "listed c ds"
  shows "on_keys resumed (workload_key ` set (filter (\<lambda>d. workload_Annotations d AnnotationOriginalReplicas \<noteq> None) ds)) (obj c) =
    on_keys resumed (workload_key ` set ds) (obj c)"
proof
  fix k
  show "on_keys resumed (workload_key ` set (filter (\<lambda>d. workload_Annotations d AnnotationOriginalReplicas \<noteq> None) ds)) (obj c) k =
    on_keys resumed (workload_key ` set ds) (obj c) k"
    using assms resumed_unmarked by (fastforce simp: on_keys_def listed_def)
qed

end

definition scales :: "(nsname \<rightharpoonup> workload) \<Rightarrow> (nsname \<rightharpoonup> scale)" where
  "scales m = (\<lambda>k. map_option scale_of (m k))"

lemma scales_on_keys:
  assumes "\<And>d. d \<in> ran m \<Longrightarrow> scale_of (f d) = g (scale_of d)"
  shows "scales (on_keys f K m) = on_keys g K (scales m)"
proof
  fix k
  show "scales (on_keys f K m) k = on_keys g K (scales m) k"
    using assms ranI [of m k] by (cases "m k") (auto simp: scales_def on_keys_def)
qed


subsection \<open>Status writes of a command\<close>

text \<open>The policy after its command: same spec, the phase given, the operation id handled.\<close>

definition recorded :: "phase \<Rightarrow> policy \<Rightarrow> policy \<Rightarrow> bool" where
  "recorded ph p p' \<longleftrightarrow> Spec p' = Spec p \<and> policy_Meta p' = policy_Meta p \<and> Phase (Status p') = ph \<and>
     LastHandledOperationId (Status p') = OperationId (Spec p) \<and> calm_change (Status p) (Status p')"

lemma recorded_trans: "recorded ph p q \<Longrightarrow> recorded ph' q r \<Longrightarrow> recorded ph' p r"
  using calm_trans by (simp add: recorded_def) blast

lemma stored_recorded:
  assumes "calm_change (Status p) s" and "LastHandledOperationId s = OperationId (Spec p)"
  shows "recorded (Phase s) p (stored_policy (p\<lparr>Status := s\<rparr>))"
  using assms by (simp add: recorded_def stored_calm)

lemma calm_keeps:
  assumes "calm_change (Status p) (Status p')" and "Spec p' = Spec p"
  shows "settled p \<Longrightarrow> settled p'" and "idle p \<Longrightarrow> idle p'"
proof -
  have "beingChecked p' = beingChecked p"
    using assms(1) by (auto simp: calm_change_def beingChecked_def split: option.splits)
  then show "settled p \<Longrightarrow> settled p'" "idle p \<Longrightarrow> idle p'"
    using assms by (auto simp: calm_change_def settled_def idle_def hasNodeFailureEvent_def)
qed

lemma updateStatus_recorded:
  assumes "quiet_cluster a view" and "cPolicies (view w) (policy_key p) = Some q" and "Spec q = Spec p"
  shows "result (updateStatus a p ph msg False) w = None"
    and "\<exists>q'. recorded ph q q' \<and> view (final (updateStatus a p ph msg False) w) =
      (view w)\<lparr>cPolicies := (cPolicies (view w))(policy_key p \<mapsto> q')\<rparr>"
proof -
  note k = quiet_keyed(1) [OF assms(1,2)]
  note up = updateStatus_quiet [OF assms(1,2) k refl, where ph = ph and msg = msg and b = False]
  show "result (updateStatus a p ph msg False) w = None" by (rule up(1))
  have "recorded ph q (stored_policy (q\<lparr>Status := updateStatus_change p ph msg False q\<rparr>))"
    using stored_recorded [of q "updateStatus_change p ph msg False q"] assms(3)
    by (simp add: updateStatus_change_def calm_change_def Let_def)
  then show "\<exists>q'. recorded ph q q' \<and> view (final (updateStatus a p ph msg False) w) =
      (view w)\<lparr>cPolicies := (cPolicies (view w))(policy_key p \<mapsto> q')\<rparr>"
    using up(2) by blast
qed

text \<open>What a command makes of the cluster: one function per kind of workload, and the policy.\<close>

definition acted :: "(workload \<Rightarrow> workload) \<Rightarrow> (workload \<Rightarrow> workload) \<Rightarrow> nsname set \<Rightarrow> nsname set \<Rightarrow> nsname \<Rightarrow>
    policy \<Rightarrow> cluster \<Rightarrow> cluster" where
  "acted f g K L k p c = c\<lparr>cDeployments := on_keys f K (cDeployments c),
     cStatefulSets := on_keys g L (cStatefulSets c), cPolicies := (cPolicies c)(k \<mapsto> p)\<rparr>"

lemma manualFreeze_quiet:
  assumes "quiet_cluster a view" and "cPolicies (view w) (policy_key p) = Some q" and "Spec q = Spec p"
    and "deployments.listed (view w) ds" and "statefulSets.listed (view w) ss"
  shows "\<exists>q'. recorded PhaseFrozen q q' \<and> result (manualFreeze a p ds ss) w = returnErr None \<and>
    view (final (manualFreeze a p ds ss) w) = acted (deployment_ops.frozen (Some p)) (statefulSet_ops.frozen (Some p))
      (workload_key ` set ds) (workload_key ` set ss) (policy_key p) q' (view w)"
proof -
  let ?w1 = "final (for_until_error ds (\<lambda>d. freezeDeployment a d (Some p))) w"
  let ?w2 = "final (for_until_error ss (\<lambda>d. freezeStatefulSet a d (Some p))) ?w1"
  note l1 = deployment_ops.freeze_loop [OF assms(1,4), of "Some p"]
  have "statefulSets.listed (view ?w1) ss" using assms(5) by (simp add: l1 statefulSets.listed_def)
  note l2 = statefulSet_ops.freeze_loop [OF assms(1) this, of "Some p"]
  have v2: "view ?w2 = (view w)\<lparr>cDeployments := on_keys (deployment_ops.frozen (Some p)) (workload_key ` set ds) (cDeployments (view w)),
      cStatefulSets := on_keys (statefulSet_ops.frozen (Some p)) (workload_key ` set ss) (cStatefulSets (view w))\<rparr>"
    unfolding l2(2) l1(2) by simp
  have "cPolicies (view ?w2) (policy_key p) = Some q" using assms(2) by (simp add: v2)
  note up = updateStatus_recorded [OF assms(1) this assms(3), where ph = PhaseFrozen
      and msg = "countsMessage ''Successfully froze '' ds '' deployments and '' ss '' statefulsets''"]
  show ?thesis
    using up by (auto simp: manualFreeze_def l1(1) l2(1) v2 acted_def)
qed


subsection \<open>A manual resume\<close>

text \<open>What a throttled resume of \<open>n\<close> workloads needs; nothing when throttling is off.\<close>

definition throttle_ready :: "nat \<Rightarrow> 'w api \<Rightarrow> ('w \<Rightarrow> cluster) \<Rightarrow> policy \<Rightarrow> nat \<Rightarrow> 'w sys \<Rightarrow> bool" where
  "throttle_ready fuel a view p n s \<longleftrightarrow> (\<forall>config. AdaptiveThrottling (Spec p) = Some config \<and> throttle_Enabled config \<longrightarrow>
     node_list_law a view \<and> uncancelled a \<and> undisturbed config (sysview view s) \<and> cache_ok s \<and> int n + 21000000 < 2 ^ 31 \<and> n < fuel)"

lemma manualResumeWorkloads_quiet:
  assumes q: "quiet_cluster a view" and p: "cPolicies (sysview view s) (policy_key p) = Some q" "throttlingOn p \<Longrightarrow> Spec q = Spec p"
    and act: "Action (Spec p) \<noteq> LifecycleActionFreeze"
    and ds: "deployments.listed (sysview view s) ds" and ss: "statefulSets.listed (sysview view s) ss"
    and cnt: "\<And>d e. d \<in> set ds \<union> set ss \<Longrightarrow> count_annotation d \<noteq> Some (Inl e)"
    and ne: "ds \<noteq> [] \<or> ss \<noteq> []" and t: "throttle_ready fuel a view p (length ds + length ss) s"
  shows "\<exists>m. result (manualResumeWorkloads fuel a p ds ss) s = Continue p \<and>
    policy_frame (policy_key p) (cPolicies (sysview view s)) m \<and>
    sysview view (final (manualResumeWorkloads fuel a p ds ss) s) = (sysview view s)\<lparr>
      cDeployments := on_keys deployment_ops.resumed (workload_key ` set ds) (cDeployments (sysview view s)),
      cStatefulSets := on_keys statefulSet_ops.resumed (workload_key ` set ss) (cStatefulSets (sysview view s)),
      cPolicies := m\<rparr>"
proof (cases "throttlingOn p")
  case True
  then obtain config where c: "AdaptiveThrottling (Spec p) = Some config" "throttle_Enabled config"
    by (auto simp: throttlingOn_def split: option.splits)
  have "not_overridden p False (sysview view s)"
    using p(1) p(2) [OF True] act quiet_keyed(1) [OF q p(1)] by (simp add: not_overridden_def overrideDecision_def Let_def)
  from throttled_resume_quiet [OF q c(1) _ _ _ _ this ds ss cnt ne, of fuel] t c show ?thesis
    using True by (auto simp: throttle_ready_def manualResumeWorkloads_def)
next
  case False
  let ?w1 = "final (for_until_error ds (resumeDeployment a)) (world s)"
  note l1 = deployment_ops.resume_loop(2) [OF q ds, OF cnt, simplified]
  have s1: "statefulSets.listed (view ?w1) ss" using ss l1 by (simp add: statefulSets.listed_def)
  note l2 = statefulSet_ops.resume_loop(2) [OF q s1, OF cnt, simplified]
  show ?thesis
    using l1 l2 False policy_frame_refl [of "cPolicies (sysview view s)", OF p(1)]
    by (intro exI [of _ "cPolicies (sysview view s)"]) (simp add: manualResumeWorkloads_def)
qed


text \<open>The last step of a manual resume, after the workloads.\<close>

lemma manualResumed_recorded:
  assumes q: "quiet_cluster a view" and m: "policy_frame (policy_key p) m0 (cPolicies (view w))"
    and p: "m0 (policy_key p) = Some q" "Spec q = Spec p"
  shows "result (updateLatestStatus a (policy_key p) (manualResumedStatus p ds ss now)) w = None"
    and "\<exists>q'. recorded PhaseResumed q q' \<and>
      view (final (updateLatestStatus a (policy_key p) (manualResumedStatus p ds ss now)) w) =
        (view w)\<lparr>cPolicies := m0(policy_key p \<mapsto> q')\<rparr>"
proof -
  obtain q2 where c: "cPolicies (view w) (policy_key p) = Some q2" and q2: "Spec q2 = Spec q"
    "policy_Meta q2 = policy_Meta q" "calm_change (Status q) (Status q2)"
    using m p(1) by (auto simp: policy_frame_def)
  note up = updateLatestStatus_quiet [OF q c quiet_keyed(1) [OF q c], of "manualResumedStatus p ds ss now"]
  let ?q' = "stored_policy (q2\<lparr>Status := manualResumedStatus p ds ss now q2\<rparr>)"
  have "calm_change (Status q2) (stored_status (manualResumedStatus p ds ss now q2))"
    by (rule stored_calm) (simp add: calm_change_def manualResumedStatus_def)
  then have "recorded PhaseResumed q ?q'"
    using q2 p(2) calm_trans [OF q2(3)] by (simp add: recorded_def) (simp add: manualResumedStatus_def)
  moreover have "(cPolicies (view w))(policy_key p \<mapsto> ?q') = m0(policy_key p \<mapsto> ?q')"
    using m by (auto simp: policy_frame_def fun_eq_iff)
  ultimately show "result (updateLatestStatus a (policy_key p) (manualResumedStatus p ds ss now)) w = None"
    and "\<exists>q'. recorded PhaseResumed q q' \<and>
      view (final (updateLatestStatus a (policy_key p) (manualResumedStatus p ds ss now)) w) =
        (view w)\<lparr>cPolicies := m0(policy_key p \<mapsto> q')\<rparr>"
    using up by metis+
qed

text \<open>The workloads the operator's filter lets through.\<close>

definition marked :: "workload list \<Rightarrow> workload list" where
  "marked = filter (\<lambda>d. workload_Annotations d AnnotationOriginalReplicas \<noteq> None)"

lemma marked_listed:
  "deployments.listed c ds \<Longrightarrow> deployments.listed c (marked ds)"
  "statefulSets.listed c ss \<Longrightarrow> statefulSets.listed c (marked ss)"
  "set (marked ds) \<subseteq> set ds" "length (marked ds) \<le> length ds"
  by (auto simp: marked_def deployments.listed_def statefulSets.listed_def distinct_map_filter)

lemma acted_marked:
  assumes "deployments.listed c ds" and "statefulSets.listed c ss"
  shows "acted deployment_ops.resumed statefulSet_ops.resumed (workload_key ` set (marked ds)) (workload_key ` set (marked ss)) k q c =
    acted deployment_ops.resumed statefulSet_ops.resumed (workload_key ` set ds) (workload_key ` set ss) k q c"
  using deployment_ops.resumed_filtered [OF assms(1)] statefulSet_ops.resumed_filtered [OF assms(2)]
  by (simp add: acted_def marked_def)

lemma manualResume_quiet:
  assumes q: "quiet_cluster a view" and p: "cPolicies (sysview view s) (policy_key p) = Some q" "Spec q = Spec p"
    and act: "Action (Spec p) \<noteq> LifecycleActionFreeze" and pre: "preConditionsOn p = None"
    and ds: "deployments.listed (sysview view s) ds" and ss: "statefulSets.listed (sysview view s) ss"
    and cnt: "\<And>d e. d \<in> set ds \<union> set ss \<Longrightarrow> count_annotation d \<noteq> Some (Inl e)"
    and t: "throttle_ready fuel a view p (length ds + length ss) s"
  shows "\<exists>q'. recorded PhaseResumed q q' \<and> result (manualResume fuel a p ds ss) s = returnErr None \<and>
    sysview view (final (manualResume fuel a p ds ss) s) = acted deployment_ops.resumed statefulSet_ops.resumed
      (workload_key ` set ds) (workload_key ` set ss) (policy_key p) q' (sysview view s)"
  unfolding acted_marked [OF ds ss, symmetric]
proof (cases "marked ds = [] \<and> marked ss = []")
  let ?v = "\<lambda>q'. acted deployment_ops.resumed statefulSet_ops.resumed (workload_key ` set (marked ds))
    (workload_key ` set (marked ss)) (policy_key p) q' (sysview view s)"
  have filt: "filterWorkloadsRequiringResume ds ss = (marked ds, marked ss)"
    by (simp add: filterWorkloadsRequiringResume_def marked_def)
  case True
  with updateStatus_recorded [OF q p, where ph = PhaseResumed
      and msg = "''No workloads require resume (all already resumed)''"]
  show "\<exists>q'. recorded PhaseResumed q q' \<and> result (manualResume fuel a p ds ss) s = returnErr None \<and>
      sysview view (final (manualResume fuel a p ds ss) s) = ?v q'"
    by (auto simp: manualResume_def filt acted_def)
next
  let ?v = "\<lambda>q'. acted deployment_ops.resumed statefulSet_ops.resumed (workload_key ` set (marked ds))
    (workload_key ` set (marked ss)) (policy_key p) q' (sysview view s)"
  have filt: "filterWorkloadsRequiringResume ds ss = (marked ds, marked ss)"
    by (simp add: filterWorkloadsRequiringResume_def marked_def)
  case False
  have "length (marked ds) + length (marked ss) \<le> length ds + length ss" by (simp add: add_mono marked_listed)
  then have t': "throttle_ready fuel a view p (length (marked ds) + length (marked ss)) s"
    using t by (auto simp: throttle_ready_def)
  have cnt': "count_annotation d \<noteq> Some (Inl e)" if "d \<in> set (marked ds) \<union> set (marked ss)" for d e
    using that cnt marked_listed(3) by blast
  let ?s1 = "final (manualResumeWorkloads fuel a p (marked ds) (marked ss)) s"
  obtain m where r: "result (manualResumeWorkloads fuel a p (marked ds) (marked ss)) s = Continue p"
    and fr: "policy_frame (policy_key p) (cPolicies (sysview view s)) m"
    and v: "sysview view ?s1 = (sysview view s)\<lparr>
      cDeployments := on_keys deployment_ops.resumed (workload_key ` set (marked ds)) (cDeployments (sysview view s)),
      cStatefulSets := on_keys statefulSet_ops.resumed (workload_key ` set (marked ss)) (cStatefulSets (sysview view s)),
      cPolicies := m\<rparr>"
    using manualResumeWorkloads_quiet [OF q p(1) p(2) act marked_listed(1) [OF ds] marked_listed(2) [OF ss] cnt' _ t'] False by auto
  let ?w = "final (Now a) (world ?s1)" and ?now = "result (Now a) (world ?s1)"
  have "policy_frame (policy_key p) (cPolicies (sysview view s)) (cPolicies (view ?w))"
    using fr by (simp add: quiet_view [OF q] v)
  note up = manualResumed_recorded [OF q this p, of "marked ds" "marked ss" ?now]
  from False r up show "\<exists>q'. recorded PhaseResumed q q' \<and> result (manualResume fuel a p ds ss) s = returnErr None \<and>
      sysview view (final (manualResume fuel a p ds ss) s) = ?v q'"
    by (auto simp: manualResume_def filt manualPreConditions_def pre acted_def quiet_view [OF q] v)
qed

subsection \<open>The command as a whole\<close>

definition deployment_effect :: "policy \<Rightarrow> workload \<Rightarrow> workload" where
  "deployment_effect p = (case Action (Spec p) of
     LifecycleActionFreeze \<Rightarrow> deployment_ops.frozen (Some p)
   | LifecycleActionResume \<Rightarrow> deployment_ops.resumed | LifecycleActionOther _ \<Rightarrow> id)"

definition statefulSet_effect :: "policy \<Rightarrow> workload \<Rightarrow> workload" where
  "statefulSet_effect p = (case Action (Spec p) of
     LifecycleActionFreeze \<Rightarrow> statefulSet_ops.frozen (Some p)
   | LifecycleActionResume \<Rightarrow> statefulSet_ops.resumed | LifecycleActionOther _ \<Rightarrow> id)"

definition phase_after :: "policy \<Rightarrow> phase" where
  "phase_after p = (if Action (Spec p) = LifecycleActionFreeze then PhaseFrozen else PhaseResumed)"

definition served :: "policy \<Rightarrow> selector option \<Rightarrow> policy \<Rightarrow> cluster \<Rightarrow> cluster" where
  "served p sel p' c = acted (deployment_effect p) (statefulSet_effect p) (selected p sel (cDeployments c))
     (selected p sel (cStatefulSets c)) (policy_key p) p' c"

text \<open>The workloads of a policy whose resume cannot fail on a saved count, with fuel for throttling.\<close>

definition restorable :: "nat \<Rightarrow> 'w api \<Rightarrow> policy \<Rightarrow> selector option \<Rightarrow> ('w \<Rightarrow> cluster) \<Rightarrow> 'w sys \<Rightarrow> bool" where
  "restorable fuel a p sel view s \<longleftrightarrow>
     (\<forall>d \<in> ran (cDeployments (sysview view s)) \<union> ran (cStatefulSets (sysview view s)).
        \<forall>e. count_annotation d \<noteq> Some (Inl e)) \<and>
     throttle_ready fuel a view p (card (selected p sel (cDeployments (sysview view s))) +
       card (selected p sel (cStatefulSets (sysview view s)))) s"

definition resumable :: "nat \<Rightarrow> 'w api \<Rightarrow> policy \<Rightarrow> selector option \<Rightarrow> ('w \<Rightarrow> cluster) \<Rightarrow> 'w sys \<Rightarrow> bool" where
  "resumable fuel a p sel view s \<longleftrightarrow> preConditionsOn p = None \<and> restorable fuel a p sel view s"

lemma throttle_ready_spec:
  "Spec p' = Spec p \<Longrightarrow> cNodes (view w) = cNodes (sysview view s) \<Longrightarrow>
     throttle_ready fuel a view p' n (s\<lparr>world := w\<rparr>) = throttle_ready fuel a view p n s"
  by (simp add: throttle_ready_def cache_ok_def undisturbed_cong [of "view w" "sysview view s"])

lemma resumable_world:
  "cDeployments (view w) = cDeployments (sysview view s) \<Longrightarrow> cStatefulSets (view w) = cStatefulSets (sysview view s) \<Longrightarrow>
     cNodes (view w) = cNodes (sysview view s) \<Longrightarrow>
     resumable fuel a p sel view (s\<lparr>world := w\<rparr>) = resumable fuel a p sel view s"
  by (simp add: resumable_def restorable_def throttle_ready_spec)

lemma listed_lengths:
  "deployments.listed c ds \<Longrightarrow> length ds = card (workload_key ` set ds)"
  "statefulSets.listed c ds \<Longrightarrow> length ds = card (workload_key ` set ds)"
  by (simp_all add: deployments.listed_def statefulSets.listed_def distinct_card flip: set_map)

lemma listed_ran:
  "deployments.listed c ds \<Longrightarrow> set ds \<subseteq> ran (cDeployments c)"
  "statefulSets.listed c ds \<Longrightarrow> set ds \<subseteq> ran (cStatefulSets c)"
  by (meson deployments.listed_def statefulSets.listed_def ranI subsetI)+

lemma command_quiet:
  assumes q: "quiet_cluster a view" and p: "cPolicies (sysview view s) (policy_key p) = Some q" "Spec q = Spec p"
    and ds: "deployments.listed (sysview view s) ds" "workload_key ` set ds = selected p sel (cDeployments (sysview view s))"
    and ss: "statefulSets.listed (sysview view s) ss" "workload_key ` set ss = selected p sel (cStatefulSets (sysview view s))"
    and act: "Action (Spec p) = LifecycleActionFreeze \<or>
      Action (Spec p) = LifecycleActionResume \<and> resumable fuel a p sel view s"
  shows "\<exists>q'. recorded (phase_after p) q q' \<and>
    (let m = (case Action (Spec p) of LifecycleActionFreeze \<Rightarrow> inWorld (manualFreeze a p ds ss)
       | LifecycleActionResume \<Rightarrow> manualResume fuel a p ds ss | LifecycleActionOther _ \<Rightarrow> return (returnErr None))
     in result m s = returnErr None \<and> sysview view (final m s) = served p sel q' (sysview view s))"
  using act
proof
  assume f: "Action (Spec p) = LifecycleActionFreeze"
  show ?thesis
    using manualFreeze_quiet [OF q p ds(1) ss(1)]
    by (auto simp: f phase_after_def served_def deployment_effect_def statefulSet_effect_def ds(2) ss(2))
next
  assume r: "Action (Spec p) = LifecycleActionResume \<and> resumable fuel a p sel view s"
  have "count_annotation d \<noteq> Some (Inl e)" if "d \<in> set ds \<union> set ss" for d e
    using that r listed_ran(1) [OF ds(1)] listed_ran(2) [OF ss(1)] unfolding resumable_def restorable_def by blast
  moreover have "throttle_ready fuel a view p (length ds + length ss) s"
    using r by (simp add: resumable_def restorable_def listed_lengths(1) [OF ds(1)] listed_lengths(2) [OF ss(1)] ds(2) ss(2))
  ultimately show ?thesis
    using manualResume_quiet [OF q p _ _ ds(1) ss(1), of fuel] r
    by (auto simp: resumable_def restorable_def phase_after_def served_def deployment_effect_def statefulSet_effect_def ds(2) ss(2))
qed


lemma manualOperation_lists:
  assumes q: "quiet_cluster a view" and p: "cPolicies (sysview view s) (policy_key p) = Some p"
    and sel: "selectorOf a p = Inr sel"
  shows "\<exists>w ph p1 ds ss. recorded ph p p1 \<and>
    view w = (sysview view s)\<lparr>cPolicies := (cPolicies (sysview view s))(policy_key p \<mapsto> p1)\<rparr> \<and>
    deployments.listed (view w) ds \<and> workload_key ` set ds = selected p sel (cDeployments (view w)) \<and>
    statefulSets.listed (view w) ss \<and> workload_key ` set ss = selected p sel (cStatefulSets (view w)) \<and>
    run_state (manualOperation fuel a p) s =
      run_state (if ds = [] \<and> ss = [] then inWorld (nothingFound a p)
        else (case Action (Spec p) of
           LifecycleActionFreeze \<Rightarrow> inWorld (manualFreeze a p ds ss)
         | LifecycleActionResume \<Rightarrow> manualResume fuel a p ds ss
         | LifecycleActionOther _ \<Rightarrow> return (returnErr None))) (s\<lparr>world := w\<rparr>)"
proof -
  define ph where "ph = (if Action (Spec p) = LifecycleActionFreeze then PhaseFreezing else PhaseResuming)"
  let ?ns = "TargetNamespace (Spec p)" and ?sl = "Selector (Spec p)" and ?c = "sysview view s"
  let ?w1 = "final (updateStatus a p ph ''Processing request'' False) (world s)"
  let ?w2 = "final (listDeployments a ?ns ?sl) ?w1"
  note up = updateStatus_recorded [OF q p refl, where ph = ph and msg = "''Processing request''"]
  obtain p1 where r1: "recorded ph p p1" and v1: "view ?w1 = ?c\<lparr>cPolicies := (cPolicies ?c)(policy_key p \<mapsto> p1)\<rparr>"
    using up(2) by blast
  obtain ds where ds: "result (listDeployments a ?ns ?sl) ?w1 = Inr ds" "deployments.listed (view ?w1) ds"
      "workload_key ` set ds = selected p sel (cDeployments (view ?w1))"
    using listed_deployments(1) [OF q sel, of ?w1] by blast
  obtain ss where ss: "result (listStatefulSets a ?ns ?sl) ?w2 = Inr ss" "statefulSets.listed (view ?w2) ss"
      "workload_key ` set ss = selected p sel (cStatefulSets (view ?w2))"
    using listed_statefulSets(1) [OF q sel, of ?w2] by blast
  note v2 = listed_deployments(2) [OF q sel, of ?w1] and v3 = listed_statefulSets(2) [OF q sel, of ?w2]
  have "run_state (manualOperation fuel a p) s =
      run_state (if ds = [] \<and> ss = [] then inWorld (nothingFound a p)
        else (case Action (Spec p) of
           LifecycleActionFreeze \<Rightarrow> inWorld (manualFreeze a p ds ss)
         | LifecycleActionResume \<Rightarrow> manualResume fuel a p ds ss
         | LifecycleActionOther _ \<Rightarrow> return (returnErr None))) (s\<lparr>world := final (listStatefulSets a ?ns ?sl) ?w2\<rparr>)"
    using up(1) by (simp add: manualOperation_def ds(1) ss(1) flip: ph_def)
  then show ?thesis
    using r1 v1 v2 v3 ds(2,3) ss(2,3) by metis
qed

lemma manualOperation_quiet:
  assumes q: "quiet_cluster a view" and p: "cPolicies (sysview view s) (policy_key p) = Some p"
    and sel: "selectorOf a p = Inr sel"
    and act: "Action (Spec p) = LifecycleActionFreeze \<or>
      Action (Spec p) = LifecycleActionResume \<and> resumable fuel a p sel view s"
  shows "\<exists>p'. recorded (phase_after p) p p' \<and> result (manualOperation fuel a p) s = returnErr None \<and>
    sysview view (final (manualOperation fuel a p) s) = served p sel p' (sysview view s)"
proof -
  let ?c = "sysview view s"
  obtain w ph p1 ds ss where r1: "recorded ph p p1"
    and v: "view w = ?c\<lparr>cPolicies := (cPolicies ?c)(policy_key p \<mapsto> p1)\<rparr>"
    and ds: "deployments.listed (view w) ds" "workload_key ` set ds = selected p sel (cDeployments (view w))"
    and ss: "statefulSets.listed (view w) ss" "workload_key ` set ss = selected p sel (cStatefulSets (view w))"
    and run: "run_state (manualOperation fuel a p) s =
      run_state (if ds = [] \<and> ss = [] then inWorld (nothingFound a p)
        else (case Action (Spec p) of
           LifecycleActionFreeze \<Rightarrow> inWorld (manualFreeze a p ds ss)
         | LifecycleActionResume \<Rightarrow> manualResume fuel a p ds ss
         | LifecycleActionOther _ \<Rightarrow> return (returnErr None))) (s\<lparr>world := w\<rparr>)"
    using manualOperation_lists [OF q p sel, of fuel] by auto
  let ?s = "s\<lparr>world := w\<rparr>"
  have c: "cPolicies (sysview view ?s) (policy_key p) = Some p1" "Spec p1 = Spec p"
    using r1 v by (simp_all add: recorded_def)
  have sv: "served p sel p' (view w) = served p sel p' ?c" for p'
    unfolding v by (simp add: served_def acted_def)
  have "\<exists>p'. recorded (phase_after p) p1 p' \<and> result (manualOperation fuel a p) s = returnErr None \<and>
    sysview view (final (manualOperation fuel a p) s) = served p sel p' ?c"
  proof (cases "ds = [] \<and> ss = []")
    case True
    have "(if Action (Spec p) = LifecycleActionResume then PhaseResumed else PhaseFrozen) = phase_after p"
      using act by (auto simp: phase_after_def)
    moreover have "served p sel p' ?c = (view w)\<lparr>cPolicies := (cPolicies (view w))(policy_key p \<mapsto> p')\<rparr>" for p'
      using True ds(2) ss(2) unfolding sv [symmetric] by (simp add: served_def acted_def)
    ultimately show ?thesis
      unfolding run using True updateStatus_recorded(2) [OF q c, where ph = "phase_after p"]
      by (auto simp: nothingFound_def)
  next
    case False
    have "resumable fuel a p sel view ?s" if "resumable fuel a p sel view s"
      using that by (simp add: resumable_world v)
    with False show ?thesis
      unfolding run using command_quiet [OF q c, of ds sel ss fuel] act ds ss by (auto simp: sv Let_def)
  qed
  then show ?thesis using recorded_trans [OF r1] by blast
qed

text \<open>A command the handler is about to serve.\<close>

definition commanded :: "nat \<Rightarrow> 'w api \<Rightarrow> ('w \<Rightarrow> cluster) \<Rightarrow> nsname \<Rightarrow> policy \<Rightarrow> selector option \<Rightarrow> 'w sys \<Rightarrow> bool" where
  "commanded fuel a view k p sel s \<longleftrightarrow> in_charge (sysview view s) k p \<and> settled p \<and> \<not> shouldSkipOperation p \<and>
     TargetNamespace (Spec p) \<in> cNamespaces (sysview view s) \<and> selectorOf a p = Inr sel \<and>
     (Action (Spec p) = LifecycleActionFreeze \<or>
      Action (Spec p) = LifecycleActionResume \<and> resumable fuel a p sel view s)"

lemma reconcile_command:
  assumes q: "quiet_cluster a view" and c: "commanded fuel a view k p sel s"
  shows "\<exists>p'. recorded (phase_after p) p p' \<and> policy_key p = k \<and> result (Reconcile fuel a k) s = Return noResult None \<and>
    sysview view (final (Reconcile fuel a k) s) = served p sel p' (sysview view s)"
proof -
  have ic: "in_charge (sysview view s) k p" using c by (simp add: commanded_def)
  then have k: "policy_key p = k" "cPolicies (sysview view s) (policy_key p) = Some p"
    using in_charge_key [OF q ic] by simp_all
  obtain w1 where w1: "view w1 = sysview view s"
    "run_state (Reconcile fuel a k) s = run_state (reconcileStages fuel a k p) (s\<lparr>world := w1\<rparr>)"
    using reconcile_in_charge [OF q ic] by blast
  obtain w2 where w2: "view w2 = sysview view s"
    "run_state (Reconcile fuel a k) s = run_state (manualOperation fuel a p) (s\<lparr>world := w2\<rparr>)"
    using stages_settled [OF q, of p "s\<lparr>world := w1\<rparr>" fuel k] c w1 by (auto simp: commanded_def)
  show ?thesis
    using manualOperation_quiet [OF q, of "s\<lparr>world := w2\<rparr>" p sel fuel] c k w2
    by (auto simp: commanded_def resumable_world returnErr_def)
qed

lemma effect_scales:
  assumes "well_scaled d"
  shows "scale_of (deployment_effect p d) = serve (Action (Spec p)) (scale_of d)"
    and "scale_of (statefulSet_effect p d) = serve (Action (Spec p)) (scale_of d)"
    and "well_scaled (deployment_effect p d)" and "well_scaled (statefulSet_effect p d)"
  using assms deployment_ops.frozen_scale deployment_ops.resumed_scale statefulSet_ops.frozen_scale statefulSet_ops.resumed_scale
  by (simp_all add: deployment_effect_def statefulSet_effect_def serve_def split: LifecycleAction.split)

lemma served_scales:
  assumes "\<And>d. d \<in> ran (cDeployments c) \<union> ran (cStatefulSets c) \<Longrightarrow> well_scaled d"
  shows "scales (cDeployments (served p sel p' c)) =
      on_keys (serve (Action (Spec p))) (selected p sel (cDeployments c)) (scales (cDeployments c))"
    and "scales (cStatefulSets (served p sel p' c)) =
      on_keys (serve (Action (Spec p))) (selected p sel (cStatefulSets c)) (scales (cStatefulSets c))"
  unfolding served_def acted_def using assms effect_scales by (simp_all add: scales_on_keys)



subsection \<open>A freeze and a resume\<close>

context workload_kind
begin

lemma frozen_Labels: "Labels (workload_Meta (frozen p d)) = Labels (workload_Meta d)"
proof (cases "freeze p d")
  case (Some e)
  then have "Labels (workload_Meta e) = Labels (workload_Meta d)"
    using arg_cong [OF conjunct1 [OF freeze_frame [OF Some]], of "\<lambda>x. Labels (workload_Meta x)"] by simp
  then show ?thesis by (simp add: frozen_def changed_def Some stored_workload_def)
qed (simp add: frozen_def changed_def)

lemma frozen_resumed_map:
  assumes "\<And>d. d \<in> ran m \<Longrightarrow> unfrozen_workload d"
  shows "on_keys resumed K (on_keys (frozen p) K m) = m"
  unfolding on_keys_on_keys using assms by (intro on_keys_id) (auto intro: resumed_frozen ranI)

lemma frozen_map_counts:
  assumes "\<And>d. d \<in> ran m \<Longrightarrow> unfrozen_workload d" and "d \<in> ran (on_keys (frozen p) K m)"
  shows "count_annotation d \<noteq> Some (Inl e)"
proof -
  obtain k x where x: "m k = Some x" "d = frozen p x \<or> d = x"
    using assms(2) by (auto simp: ran_def on_keys_def split: if_splits)
  moreover have "unfrozen_workload x" using assms(1) x(1) by (blast intro: ranI)
  ultimately show ?thesis
    using frozen_count by (auto simp: unfrozen_workload_def count_annotation_def)
qed

end

lemma selected_frozen:
  assumes "\<And>d. Labels (workload_Meta (f d)) = Labels (workload_Meta d)" and "Spec p' = (Spec p)\<lparr>Action := x, OperationId := y\<rparr>"
  shows "selected p' sel (on_keys f K m) = selected p sel m"
  using assms by (auto simp: selected_def on_keys_def split: option.splits)

text \<open>The user gives the next command: an edit of action and operation id.\<close>

definition edited :: "LifecycleAction \<Rightarrow> string \<Rightarrow> policy \<Rightarrow> policy" where
  "edited act op p = p\<lparr>Spec := (Spec p)\<lparr>Action := act, OperationId := op\<rparr>\<rparr>"

definition edit :: "nsname \<Rightarrow> LifecycleAction \<Rightarrow> string \<Rightarrow> cluster \<Rightarrow> cluster" where
  "edit k act op c = c\<lparr>cPolicies := on_keys (edited act op) {k} (cPolicies c)\<rparr>"

lemma in_charge_same:
  assumes "in_charge c k p" and "policy_Meta p' = policy_Meta p" and "TargetNamespace (Spec p') = TargetNamespace (Spec p)"
    and "cPolicies c' = (cPolicies c)(k \<mapsto> p')"
  shows "in_charge c' k p'"
proof -
  have "q = p' \<or> q \<in> ran (cPolicies c)" if "q \<in> ran ((cPolicies c)(k \<mapsto> p'))" for q
    using that by (auto simp: ran_def split: if_splits)
  moreover have "policy_uid p' = policy_uid p" "precedes q p' = precedes q p" for q
    using assms(2) by (simp_all add: policy_uid_def precedes_def)
  ultimately show ?thesis
    using assms unfolding in_charge_def by (metis map_upd_Some_unfold)
qed


text \<open>
  C3: a freeze command followed by a resume command gives every workload back. When the user
  freezes a namespace whose workloads were never frozen, then edits the policy to Resume with a new
  operation id, the two runs of \<open>Reconcile\<close> leave all Deployments and StatefulSets of the cluster
  as they were before the freeze, field by field, and the policy ends in phase Resumed.
\<close>

theorem freeze_then_resume_restores:
  assumes "quiet_cluster a view" and "commanded fuel a view k p sel s" and "Action (Spec p) = LifecycleActionFreeze"
    and "\<And>d. d \<in> ran (cDeployments (sysview view s)) \<union> ran (cStatefulSets (sysview view s)) \<Longrightarrow> unfrozen_workload d"
    and "sysview view s' = edit k LifecycleActionResume op (sysview view (final (Reconcile fuel a k) s))"
    and "op \<noteq> ''''" and "op \<noteq> OperationId (Spec p)" and "preConditionsOn p = None"
    and "throttle_ready fuel a view p (card (selected p sel (cDeployments (sysview view s))) +
      card (selected p sel (cStatefulSets (sysview view s)))) s'"
  shows "result (Reconcile fuel a k) s' = Return noResult None \<and>
    cDeployments (sysview view (final (Reconcile fuel a k) s')) = cDeployments (sysview view s) \<and>
    cStatefulSets (sysview view (final (Reconcile fuel a k) s')) = cStatefulSets (sysview view s) \<and>
    (\<exists>p'. cPolicies (sysview view (final (Reconcile fuel a k) s')) k = Some p' \<and> Phase (Status p') = PhaseResumed)"
proof -
  let ?c = "sysview view s" and ?f = "deployment_ops.frozen (Some p)" and ?g = "statefulSet_ops.frozen (Some p)"
  let ?K = "selected p sel (cDeployments ?c)" and ?L = "selected p sel (cStatefulSets ?c)"
  obtain p1 where p1: "recorded (phase_after p) p p1" "policy_key p = k"
    "sysview view (final (Reconcile fuel a k) s) = served p sel p1 ?c"
    using reconcile_command [OF assms(1,2)] by blast
  let ?p2 = "edited LifecycleActionResume op p1"
  have sp: "Spec ?p2 = (Spec p)\<lparr>Action := LifecycleActionResume, OperationId := op\<rparr>"
    using p1(1) by (simp add: edited_def recorded_def)
  have v: "sysview view s' = ?c\<lparr>cDeployments := on_keys ?f ?K (cDeployments ?c),
      cStatefulSets := on_keys ?g ?L (cStatefulSets ?c), cPolicies := (cPolicies ?c)(k \<mapsto> ?p2)\<rparr>"
    using assms(3,5) p1(2,3)
    by (auto simp: edit_def served_def acted_def deployment_effect_def statefulSet_effect_def on_keys_def fun_eq_iff)
  have in2: "in_charge (sysview view s') k ?p2"
    by (rule in_charge_same [of ?c k p]) (use assms(2) p1(1) sp v in \<open>simp_all add: commanded_def recorded_def edited_def\<close>)
  have set2: "settled ?p2"
  proof -
    have "settled p1" using calm_keeps(1) [of p p1] p1(1) assms(2) by (simp add: recorded_def commanded_def)
    then show ?thesis by (simp add: settled_def hasNodeFailureEvent_def beingChecked_def edited_def)
  qed
  have new: "\<not> shouldSkipOperation ?p2"
    using p1(1) assms(6,7) by (auto simp: shouldSkipOperation_def recorded_def edited_def)
  have sel2: "selectorOf a ?p2 = Inr sel" using assms(2) sp by (simp add: commanded_def selectorOf_def)
  have pre2: "preConditionsOn ?p2 = None" using assms(8) sp by (simp add: preConditionsOn_def)
  have keys: "selected ?p2 sel (cDeployments (sysview view s')) = ?K" "selected ?p2 sel (cStatefulSets (sysview view s')) = ?L"
    unfolding v using selected_frozen [OF deployment_ops.frozen_Labels sp] selected_frozen [OF statefulSet_ops.frozen_Labels sp] by simp_all
  have "resumable fuel a ?p2 sel view s'"
    using assms(9) deployment_ops.frozen_map_counts [of "cDeployments ?c"] statefulSet_ops.frozen_map_counts [of "cStatefulSets ?c"] assms(4)
    unfolding resumable_def restorable_def keys by (auto simp: pre2 v throttle_ready_def sp)
  then have com: "commanded fuel a view k ?p2 sel s'"
    using in2 set2 new sel2 assms(2) sp by (simp add: commanded_def v)
  obtain p3 where p3: "recorded (phase_after ?p2) ?p2 p3" "policy_key ?p2 = k" "result (Reconcile fuel a k) s' = Return noResult None"
    "sysview view (final (Reconcile fuel a k) s') = served ?p2 sel p3 (sysview view s')"
    using reconcile_command [OF assms(1) com] by blast
  have "served ?p2 sel p3 (sysview view s') = ?c\<lparr>cPolicies := (cPolicies ?c)(k \<mapsto> p3)\<rparr>"
    using deployment_ops.frozen_resumed_map [of "cDeployments ?c"] statefulSet_ops.frozen_resumed_map [of "cStatefulSets ?c"]
      assms(4) p3(2) sp keys unfolding served_def acted_def
    by (simp add: v deployment_effect_def statefulSet_effect_def)
  with p3 show ?thesis by (simp add: recorded_def phase_after_def sp)
qed


subsection \<open>Any sequence of commands\<close>

text \<open>A handled operation id: the run changes nothing.\<close>

lemma reconcile_skips:
  assumes q: "quiet_cluster a view" and ic: "in_charge (sysview view s) k p" and i: "idle p" and sk: "shouldSkipOperation p"
  shows "result (Reconcile fuel a k) s = Return noResult None" and "sysview view (final (Reconcile fuel a k) s) = sysview view s"
proof -
  obtain w1 where w1: "view w1 = sysview view s"
    "run_state (Reconcile fuel a k) s = run_state (reconcileStages fuel a k p) (s\<lparr>world := w1\<rparr>)"
    using reconcile_in_charge [OF q ic] by blast
  have "run_state (reconcileStages fuel a k p) (s\<lparr>world := w1\<rparr>) = (Return noResult None, s\<lparr>world := w1\<rparr>)"
    using i sk by (simp add: reconcileStages_def idle_def settled_def handlePendingFreeze_def handlePendingStartupResume_def
        handleNodeFailureStage_def cleanupFailedNode_def skipHandled_def returnErr_def)
  with w1 show "result (Reconcile fuel a k) s = Return noResult None"
    and "sysview view (final (Reconcile fuel a k) s) = sysview view s" by simp_all
qed

text \<open>What a user may do with a policy, and the runs of the handler in between.\<close>

inductive commands :: "nat \<Rightarrow> 'w api \<Rightarrow> ('w \<Rightarrow> cluster) \<Rightarrow> nsname \<Rightarrow> 'w sys \<Rightarrow> 'w sys \<Rightarrow> bool"
  for fuel a view k s0 where
  start: "commands fuel a view k s0 s0"
| handle: "commands fuel a view k s0 s \<Longrightarrow> commands fuel a view k s0 (final (Reconcile fuel a k) s)"
| request: "commands fuel a view k s0 s \<Longrightarrow> act = LifecycleActionFreeze \<or> act = LifecycleActionResume \<Longrightarrow>
    sysview view s' = edit k act op (sysview view s) \<Longrightarrow> commands fuel a view k s0 s'"

text \<open>The number of replicas a workload is meant to run, now or after its next resume.\<close>

definition intended :: "scale \<Rightarrow> int" where
  "intended x = (case saved x of None \<Rightarrow> running x | Some n \<Rightarrow> n)"

definition tidy :: "workload \<Rightarrow> bool" where
  "tidy d \<longleftrightarrow> well_scaled d \<and> (saved (scale_of d) = None \<or> running (scale_of d) = 0)"

lemma serve_intended:
  "saved x = None \<or> running x = 0 \<Longrightarrow> intended (serve act x) = intended x \<and> (saved (serve act x) = None \<or> running (serve act x) = 0)"
  by (auto simp: serve_def scale_down_def scale_up_def intended_def split: LifecycleAction.splits option.splits)

lemma effect_intended:
  assumes "tidy d"
  shows "tidy (deployment_effect p d)" and "tidy (statefulSet_effect p d)"
    and "intended (scale_of (deployment_effect p d)) = intended (scale_of d)"
    and "intended (scale_of (statefulSet_effect p d)) = intended (scale_of d)"
  using assms effect_scales [of d p] serve_intended [of "scale_of d" "Action (Spec p)"] by (simp_all add: tidy_def)

text \<open>A namespace under one plain policy, and the counts the user wants in it.\<close>

definition governed :: "'w api \<Rightarrow> nsname \<Rightarrow> string \<Rightarrow> selector option \<Rightarrow> cluster \<Rightarrow> bool" where
  "governed a k ns sel c \<longleftrightarrow>
     (\<exists>p. in_charge c k p \<and> idle p \<and> TargetNamespace (Spec p) = ns \<and> ns \<in> cNamespaces c \<and> selectorOf a p = Inr sel \<and>
        preConditionsOn p = None \<and> \<not> throttlingOn p \<and>
        (Action (Spec p) = LifecycleActionFreeze \<or> Action (Spec p) = LifecycleActionResume)) \<and>
     (\<forall>d \<in> ran (cDeployments c) \<union> ran (cStatefulSets c). tidy d)"

definition wanted :: "(nsname \<rightharpoonup> workload) \<Rightarrow> nsname \<rightharpoonup> int" where
  "wanted m = (\<lambda>k. map_option (\<lambda>d. intended (scale_of d)) (m k))"

lemma ran_on_keys: "d \<in> ran (on_keys f K m) \<Longrightarrow> \<exists>x \<in> ran m. d = f x \<or> d = x"
  by (auto simp: ran_def on_keys_def split: if_splits)

lemma wanted_on_keys:
  assumes "\<And>d. d \<in> ran m \<Longrightarrow> intended (scale_of (f d)) = intended (scale_of d)"
  shows "wanted (on_keys f K m) = wanted m"
proof
  fix k
  show "wanted (on_keys f K m) k = wanted m k"
    using assms ranI [of m k] by (cases "m k") (auto simp: wanted_def on_keys_def)
qed

text \<open>No count is lost, and no other namespace is touched.\<close>

definition counts_kept :: "string \<Rightarrow> cluster \<Rightarrow> cluster \<Rightarrow> bool" where
  "counts_kept ns c c' \<longleftrightarrow>
     wanted (cDeployments c') = wanted (cDeployments c) \<and> wanted (cStatefulSets c') = wanted (cStatefulSets c) \<and>
     (\<forall>j. fst j \<noteq> ns \<longrightarrow> cDeployments c' j = cDeployments c j \<and> cStatefulSets c' j = cStatefulSets c j)"

lemma served_kept:
  assumes "\<forall>d \<in> ran (cDeployments c) \<union> ran (cStatefulSets c). tidy d"
  shows "counts_kept (TargetNamespace (Spec p)) c (served p sel p' c)"
    and "\<forall>d \<in> ran (cDeployments (served p sel p' c)) \<union> ran (cStatefulSets (served p sel p' c)). tidy d"
proof -
  show "counts_kept (TargetNamespace (Spec p)) c (served p sel p' c)"
    unfolding counts_kept_def served_def acted_def using assms effect_intended(3,4)
    by (simp add: wanted_on_keys) (simp add: on_keys_def selected_def)
  show "\<forall>d \<in> ran (cDeployments (served p sel p' c)) \<union> ran (cStatefulSets (served p sel p' c)). tidy d"
    unfolding served_def acted_def using assms effect_intended(1,2) by (auto dest!: ran_on_keys)
qed

lemma governed_handle:
  assumes q: "quiet_cluster a view" and g: "governed a k ns sel (sysview view s)"
  shows "governed a k ns sel (sysview view (final (Reconcile fuel a k) s)) \<and>
    counts_kept ns (sysview view s) (sysview view (final (Reconcile fuel a k) s))"
proof -
  let ?c = "sysview view s"
  obtain p where p: "in_charge ?c k p" "idle p" "TargetNamespace (Spec p) = ns" "ns \<in> cNamespaces ?c" "selectorOf a p = Inr sel"
    "preConditionsOn p = None" "\<not> throttlingOn p" "Action (Spec p) = LifecycleActionFreeze \<or> Action (Spec p) = LifecycleActionResume"
    and d: "\<forall>d \<in> ran (cDeployments ?c) \<union> ran (cStatefulSets ?c). tidy d"
    using g unfolding governed_def by blast
  show ?thesis
  proof (cases "shouldSkipOperation p")
    case True
    then show ?thesis
      using reconcile_skips(2) [OF q p(1,2), of fuel] g by (simp add: counts_kept_def)
  next
    case False
    have "count_annotation d \<noteq> Some (Inl e)" if "d \<in> ran (cDeployments ?c) \<union> ran (cStatefulSets ?c)" for d e
      using bspec [OF d that] by (auto simp: tidy_def well_scaled_def)
    then have "resumable fuel a p sel view s"
      using p(6,7) by (auto simp: resumable_def restorable_def throttle_ready_def throttlingOn_def split: option.splits)
    then have "commanded fuel a view k p sel s"
      using p False by (simp add: commanded_def idle_def)
    from reconcile_command [OF q this] obtain p' where r: "recorded (phase_after p) p p'" "policy_key p = k"
      and v: "sysview view (final (Reconcile fuel a k) s) = served p sel p' ?c" by blast
    have "in_charge (served p sel p' ?c) k p'"
      by (rule in_charge_same [OF p(1)]) (use r in \<open>simp_all add: recorded_def served_def acted_def\<close>)
    moreover have "idle p'" using calm_keeps(2) [of p p'] r(1) p(2) by (simp add: recorded_def)
    moreover have "Spec p' = Spec p" using r(1) by (simp add: recorded_def)
    then have "TargetNamespace (Spec p') = ns" "selectorOf a p' = Inr sel" "preConditionsOn p' = None" "\<not> throttlingOn p'"
      "Action (Spec p') = LifecycleActionFreeze \<or> Action (Spec p') = LifecycleActionResume"
      using p by (simp_all add: selectorOf_def preConditionsOn_def throttlingOn_def)
    moreover have "ns \<in> cNamespaces (served p sel p' ?c)" using p(4) by (simp add: served_def acted_def)
    ultimately show ?thesis
      unfolding v governed_def using served_kept [OF d, of p sel p', unfolded p(3)] by blast
  qed
qed

lemma governed_edit:
  assumes "governed a k ns sel c" and "act = LifecycleActionFreeze \<or> act = LifecycleActionResume"
  shows "governed a k ns sel (edit k act op c)" and "counts_kept ns c (edit k act op c)"
proof -
  obtain p where p: "in_charge c k p" "idle p" "TargetNamespace (Spec p) = ns" "ns \<in> cNamespaces c" "selectorOf a p = Inr sel"
    "preConditionsOn p = None" "\<not> throttlingOn p"
    and d: "\<forall>d \<in> ran (cDeployments c) \<union> ran (cStatefulSets c). tidy d"
    using assms(1) unfolding governed_def by blast
  let ?p = "edited act op p"
  have c: "cPolicies (edit k act op c) = (cPolicies c)(k \<mapsto> ?p)"
    using p(1) by (auto simp: edit_def in_charge_def on_keys_def)
  have "in_charge (edit k act op c) k ?p"
    by (rule in_charge_same [OF p(1) _ _ c]) (simp_all add: edited_def)
  moreover have "idle ?p" "TargetNamespace (Spec ?p) = ns" "selectorOf a ?p = Inr sel" "preConditionsOn ?p = None" "\<not> throttlingOn ?p"
    "Action (Spec ?p) = LifecycleActionFreeze \<or> Action (Spec ?p) = LifecycleActionResume"
    using p assms(2) by (simp_all add: edited_def idle_def settled_def hasNodeFailureEvent_def beingChecked_def selectorOf_def
        preConditionsOn_def throttlingOn_def)
  ultimately show "governed a k ns sel (edit k act op c)"
    unfolding governed_def using p(4) d by (auto simp: edit_def)
qed (simp add: counts_kept_def edit_def)

text \<open>
  C1: no sequence of commands loses a replica count. Starting from a namespace whose policy has
  nothing under way and whose workloads are either running or were frozen by the operator, take any
  number of edits of action and operation id and of runs of \<open>Reconcile\<close> in any order. The number of
  replicas that every Deployment and StatefulSet is meant to run (its current number, or the saved
  one while it is frozen) is still the original one, workloads of other namespaces are untouched,
  and the namespace is still governed by the policy.
\<close>

theorem commands_keep_counts:
  assumes "commands fuel a view k s0 s" and "quiet_cluster a view" and "governed a k ns sel (sysview view s0)"
  shows "governed a k ns sel (sysview view s) \<and> counts_kept ns (sysview view s0) (sysview view s)"
  using assms(1)
proof (induction rule: commands.induct)
  case start
  then show ?case using assms(3) by (simp add: counts_kept_def)
next
  case (handle s)
  then show ?case using governed_handle [OF assms(2), of k ns sel s fuel] by (auto simp: counts_kept_def)
next
  case (request s act s' op)
  then show ?case using governed_edit [of a k ns sel "sysview view s" act op] by (auto simp: counts_kept_def)
qed


text \<open>
  C10: adaptive throttling changes the pace of a resume, not its outcome. On a quiet cluster with
  ready nodes, the resume with throttling and the one of the same policy without it both go
  through and leave the same Deployments and StatefulSets.
\<close>

theorem throttled_resume_equals_plain:
  assumes "quiet_cluster a view" and "cPolicies (sysview view s) (policy_key p) = Some p"
    and "Action (Spec p) \<noteq> LifecycleActionFreeze"
    and "deployments.listed (sysview view s) ds" and "statefulSets.listed (sysview view s) ss"
    and "\<And>d e. d \<in> set ds \<union> set ss \<Longrightarrow> count_annotation d \<noteq> Some (Inl e)"
    and "ds \<noteq> [] \<or> ss \<noteq> []" and "throttle_ready fuel a view p (length ds + length ss) s"
    and "p' = p\<lparr>Spec := (Spec p)\<lparr>AdaptiveThrottling := None\<rparr>\<rparr>"
  shows "result (manualResumeWorkloads fuel a p ds ss) s = Continue p \<and>
    result (manualResumeWorkloads fuel a p' ds ss) s = Continue p' \<and>
    cDeployments (sysview view (final (manualResumeWorkloads fuel a p ds ss) s)) =
      cDeployments (sysview view (final (manualResumeWorkloads fuel a p' ds ss) s)) \<and>
    cStatefulSets (sysview view (final (manualResumeWorkloads fuel a p ds ss) s)) =
      cStatefulSets (sysview view (final (manualResumeWorkloads fuel a p' ds ss) s))"
proof -
  have p': "cPolicies (sysview view s) (policy_key p') = Some p" "\<not> throttlingOn p'"
    "Action (Spec p') \<noteq> LifecycleActionFreeze" "throttle_ready fuel a view p' (length ds + length ss) s"
    using assms(2,3,9) by (simp_all add: policy_key_def throttlingOn_def throttle_ready_def)
  show ?thesis
    using manualResumeWorkloads_quiet [OF assms(1,2) _ assms(3-8)]
      manualResumeWorkloads_quiet [OF assms(1) p'(1) _ p'(3) assms(4-7) p'(4)] p'(2) by auto
qed

theorem throttled_resume_equals_plain_witness:
  "throttlingOn throttled_policy \<and>
   cDeployments (sysview mem_view (final (manualResumeWorkloads 2 mem_api throttled_policy [frozen_web] []) throttled_sys)) =
     cDeployments (sysview mem_view (final (manualResumeWorkloads 2 mem_api
       (throttled_policy\<lparr>Spec := (Spec throttled_policy)\<lparr>AdaptiveThrottling := None\<rparr>\<rparr>) [frozen_web] []) throttled_sys))"
proof -
  have "Atoi ''3'' = Inr 3" by (simp add: ParseInt_def ParseUint_def digit_val_def)
  then have "count_annotation frozen_web = Some (Inr 3)"
    by (simp add: count_annotation_def frozen_web_def sample_workload_def)
  moreover have "throttle_ready 2 mem_api mem_view throttled_policy 1 throttled_sys"
    using mem_node_list mem_uncancelled throttled_undisturbed
    by (simp add: throttle_ready_def throttled_policy_def cache_ok_def) (simp add: throttled_sys_def)
  ultimately show ?thesis
    using throttled_resume_equals_plain [OF mem_quiet, of throttled_sys throttled_policy "[frozen_web]" "[]" 2,
        OF _ _ _ _ _ _ _ refl]
    by (simp add: throttled_policy_def throttlingOn_def sample_throttling_def throttled_sys_def deployments.listed_def
        statefulSets.listed_def mem_view_def lookup_key_def by_key_def)
qed

subsection \<open>A cluster with one command\<close>

definition command_sys :: "mem sys" where
  "command_sys = throttled_sys\<lparr>world := sample_mem\<rparr>"

lemma command_view:
  "cPolicies (sysview mem_view command_sys) = [(''ops'', ''p'') \<mapsto> sample_policy ''p'']"
  "cDeployments (sysview mem_view command_sys) = [(''shop'', ''web'') \<mapsto> sample_workload ''web'' 3]"
  "cStatefulSets (sysview mem_view command_sys) = [(''shop'', ''db'') \<mapsto> sample_workload ''db'' 2]"
  "cNamespaces (sysview mem_view command_sys) = {''shop''}"
  by (auto simp: command_sys_def mem_view_def lookup_key_def by_key_def sample_defs key_defs fun_eq_iff)

lemma command_workloads:
  "d \<in> ran (cDeployments (sysview mem_view command_sys)) \<union> ran (cStatefulSets (sysview mem_view command_sys)) \<Longrightarrow>
     unfrozen_workload d \<and> well_scaled d \<and> tidy d"
  unfolding command_view by (auto simp: unfrozen_workload_def well_scaled_def tidy_def scale_of_def count_annotation_def sample_defs)

lemma command_idle: "idle (sample_policy ''p'')"
  by (simp add: idle_def settled_def hasNodeFailureEvent_def beingChecked_def unhandledEvent_def sample_defs)

lemma command_commanded: "commanded 1 mem_api mem_view (''ops'', ''p'') (sample_policy ''p'') None command_sys"
  using command_idle
  by (simp add: commanded_def in_charge_def command_view idle_def shouldSkipOperation_def selectorOf_def sample_defs)


lemma mem_edit: "\<exists>w'. mem_view w' = edit k act op (mem_view w)"
proof (cases "lookup_key policy_key (mPolicies w) k")
  case None
  then have "edit k act op (mem_view w) = mem_view w"
    by (simp add: edit_def mem_view_def) (auto intro!: on_keys_id)
  then show ?thesis by metis
next
  case (Some p)
  have "policy_key (edited act op p) = k"
    using lookup_key_Some [OF Some] by (simp add: edited_def policy_key_def)
  from lookup_replace_at [OF Some this]
  have "mem_view (w\<lparr>mPolicies := replace_key policy_key (edited act op p) (mPolicies w)\<rparr>) = edit k act op (mem_view w)"
    using Some by (auto simp: edit_def mem_view_def on_keys_def fun_eq_iff)
  then show ?thesis by blast
qed

theorem freeze_then_resume_restores_witness:
  "\<exists>s'. cDeployments (sysview mem_view (final (Reconcile 1 mem_api (''ops'', ''p'')) s')) =
      [(''shop'', ''web'') \<mapsto> sample_workload ''web'' 3] \<and>
    sysview mem_view s' = edit (''ops'', ''p'') LifecycleActionResume ''op-2''
      (sysview mem_view (final (Reconcile 1 mem_api (''ops'', ''p'')) command_sys))"
proof -
  let ?k = "(''ops'', ''p'')" and ?p = "sample_policy ''p''"
  let ?s1 = "final (Reconcile 1 mem_api ?k) command_sys"
  obtain w' where w': "mem_view w' = edit ?k LifecycleActionResume ''op-2'' (sysview mem_view ?s1)"
    using mem_edit by blast
  have "Action (Spec ?p) = LifecycleActionFreeze" "''op-2'' \<noteq> OperationId (Spec ?p)" "preConditionsOn ?p = None"
    "throttle_ready 1 mem_api mem_view ?p n s" for n s
    by (simp_all add: sample_defs preConditionsOn_def throttle_ready_def)
  with freeze_then_resume_restores [OF mem_quiet command_commanded, where s' = "?s1\<lparr>world := w'\<rparr>" and op = "''op-2''"]
  show ?thesis
    using w' command_workloads by (intro exI [of _ "?s1\<lparr>world := w'\<rparr>"]) (simp add: command_view)
qed

lemma command_governed: "governed mem_api (''ops'', ''p'') ''shop'' None (sysview mem_view command_sys)"
proof -
  let ?p = "sample_policy ''p''"
  have "in_charge (sysview mem_view command_sys) (''ops'', ''p'') ?p" "selectorOf mem_api ?p = Inr None"
    using command_commanded by (simp_all add: commanded_def)
  moreover have "TargetNamespace (Spec ?p) = ''shop''" "preConditionsOn ?p = None" "\<not> throttlingOn ?p"
    "Action (Spec ?p) = LifecycleActionFreeze"
    by (simp_all add: sample_defs preConditionsOn_def throttlingOn_def)
  ultimately show ?thesis
    unfolding governed_def using command_workloads command_idle command_view(4) by blast
qed

theorem commands_keep_counts_witness:
  "wanted (cDeployments (sysview mem_view (final (Reconcile 1 mem_api (''ops'', ''p'')) (final (Reconcile 1 mem_api (''ops'', ''p'')) command_sys))))
     (''shop'', ''web'') = Some 3"
proof -
  let ?k = "(''ops'', ''p'')"
  have "commands 1 mem_api mem_view ?k command_sys (final (Reconcile 1 mem_api ?k) (final (Reconcile 1 mem_api ?k) command_sys))"
    by (intro commands.handle commands.start)
  from commands_keep_counts [OF this mem_quiet command_governed] show ?thesis
    by (simp add: counts_kept_def command_view wanted_def intended_def scale_of_def count_annotation_def sample_defs)
qed

end
