(* ===== verification/Events.thy ===== *)
theory Events
  imports Startup
begin

text \<open>
  Which events reach the reconciler: the predicates on policy and node events of \<open>SetupWithManager\<close>
  and \<open>mapNodeReadyToPolicy\<close>, which turns a change of a node's readiness into marks on the policies
  concerned and requests for them (\<open>src/internal/controller/namespacelifecyclepolicy_controller.go\<close>).
\<close>

subsection \<open>Predicates\<close>

text \<open>
  The events that a watch delivers. An update of a policy carries both generations, a number that
  the API server raises with every change of the spec; the other event kinds carry the object only.
\<close>

datatype policyEvent =
    PolicyCreated policy
  | PolicyUpdated int int policy policy  \<comment> \<open>generations of the old and the new object, old, new\<close>
  | PolicyDeleted policy
  | PolicyGeneric policy

datatype nodeEvent = NodeCreated node | NodeUpdated node node | NodeDeleted node | NodeGeneric node

definition policyUpdateTriggers :: "int \<Rightarrow> int \<Rightarrow> policy \<Rightarrow> policy \<Rightarrow> bool" where
  "policyUpdateTriggers oldGeneration newGeneration oldPolicy newPolicy =
     (let old = Status oldPolicy; new = Status newPolicy
      in if oldGeneration \<noteq> newGeneration then True
         else if \<not> PendingFreeze old \<and> PendingFreeze new then True
         else if PendingFreeze new \<and> FreezeDelayStartedAt new \<noteq> None \<and>
                 (FreezeDelayStartedAt old = None \<or> FreezeDelayStartedAt new \<noteq> FreezeDelayStartedAt old) then True
         else if \<not> PendingStartupResume old \<and> PendingStartupResume new then True
         else if PendingStartupResume new \<and> ResumeDelayStartedAt new \<noteq> None \<and>
                 (ResumeDelayStartedAt old = None \<or> ResumeDelayStartedAt new \<noteq> ResumeDelayStartedAt old) then True
         else if NodeReadyEventDetectedAt new \<noteq> None \<and>
                 (NodeReadyEventDetectedAt old = None \<or>
                  afterOpt (NodeReadyEventDetectedAt new) (NodeReadyEventDetectedAt old)) then True
         else if NodeFailureEventDetectedAt new \<noteq> None \<and>
                 (NodeFailureEventDetectedAt old = None \<or>
                  afterOpt (NodeFailureEventDetectedAt new) (NodeFailureEventDetectedAt old)) then True
         else False)"

definition policyCreateTriggers :: "policy \<Rightarrow> bool" where
  "policyCreateTriggers policy =
     (if PendingStartupResume (Status policy) \<or> PendingFreeze (Status policy) then True
      else if hasNodeFailureEvent policy then True
      else if OperationId (Spec policy) \<noteq> '''' \<and>
              LastHandledOperationId (Status policy) \<noteq> OperationId (Spec policy) then True
      else False)"

fun policyTriggers :: "policyEvent \<Rightarrow> bool" where
  "policyTriggers (PolicyCreated p) = policyCreateTriggers p"
| "policyTriggers (PolicyUpdated g g' old new) = policyUpdateTriggers g g' old new"
| "policyTriggers (PolicyDeleted p) = True"
| "policyTriggers (PolicyGeneric p) = False"

fun nodeTriggers :: "nodeEvent \<Rightarrow> bool" where
  "nodeTriggers (NodeUpdated old new) = (isNodeReady old \<noteq> isNodeReady new)"
| "nodeTriggers (NodeCreated n) = False"
| "nodeTriggers (NodeDeleted n) = False"
| "nodeTriggers (NodeGeneric n) = False"

subsection \<open>From nodes to policies\<close>

fun readyConditionIn :: "nodeCondition list \<Rightarrow> nodeCondition option" where
  "readyConditionIn [] = None"
| "readyConditionIn (c # cs) = (if nodecond_Type c = ''Ready'' then Some c else readyConditionIn cs)"

definition recentTransition :: "'w api \<Rightarrow> node \<Rightarrow> ('w, bool) state" where
  "recentTransition a node =
     (case readyConditionIn (node_Conditions node) of
        None \<Rightarrow> return False
      | Some readyCondition \<Rightarrow> do {
          now \<leftarrow> Now a;
          return (now - LastTransitionTime readyCondition < 10 * Second)
        })"

definition alreadyTracking :: "string \<Rightarrow> policy \<Rightarrow> bool" where
  "alreadyTracking nodeName policy \<longleftrightarrow> FailedNodeName (Status policy) = nodeName \<and>
     unhandledEvent (NodeFailureEventDetectedAt (Status policy)) (NodeFailureEventHandledAt (Status policy))"

definition failureDetected :: "string \<Rightarrow> time \<Rightarrow> policy \<Rightarrow> policy" where
  "failureDetected nodeName now policy = policy\<lparr>Status := (Status policy)
     \<lparr>FailedNodeName := nodeName, NodeFailureEventDetectedAt := Some now\<rparr>\<rparr>"

text \<open>The two loops; the result is the list of requests.\<close>

fun failureRequests :: "'w api \<Rightarrow> string \<Rightarrow> time \<Rightarrow> policy list \<Rightarrow> ('w, nsname list) state" where
  "failureRequests a nodeName now [] = return []"
| "failureRequests a nodeName now (p # ps) =
     (if \<not> HandleNodeFailure (Spec p) then failureRequests a nodeName now ps
      else if alreadyTracking nodeName p then do {
        rest \<leftarrow> failureRequests a nodeName now ps;
        return (policy_key p # rest)
      }
      else do {
        e \<leftarrow> UpdatePolicyStatus a (failureDetected nodeName now p);
        rest \<leftarrow> failureRequests a nodeName now ps;
        return (if e \<noteq> None then rest else policy_key p # rest)
      })"

fun balanceRequests :: "'w api \<Rightarrow> policy list \<Rightarrow> ('w, nsname list) state" where
  "balanceRequests a [] = return []"
| "balanceRequests a (p # ps) =
     (if BalancePods (Spec p) \<and> LastResumeAt (Status p) \<noteq> None then do {
        now \<leftarrow> Now a;
        e \<leftarrow> UpdatePolicyStatus a (p\<lparr>Status := (Status p)\<lparr>NodeReadyEventDetectedAt := Some now\<rparr>\<rparr>);
        rest \<leftarrow> balanceRequests a ps;
        return (if e \<noteq> None then rest else policy_key p # rest)
      }
      else balanceRequests a ps)"

definition mapNodeReadyToPolicy :: "'w api \<Rightarrow> node \<Rightarrow> ('w, nsname list) state" where
  "mapNodeReadyToPolicy a node = do {
     isRecentTransition \<leftarrow> recentTransition a node;
     if \<not> isRecentTransition then return []
     else if \<not> isNodeReady node then do {
       policyList \<leftarrow> ListPolicies a;
       (case policyList of
          Inl e \<Rightarrow> return []
        | Inr items \<Rightarrow> do {
            now \<leftarrow> Now a;
            failureRequests a (node_Name node) now items
          })
     }
     else do {
       policyList \<leftarrow> ListPolicies a;
       (case policyList of
          Inl e \<Rightarrow> return []
        | Inr items \<Rightarrow> balanceRequests a items)
     }
   }"

subsection \<open>Node failures on a quiet cluster\<close>

text \<open>What the loop makes of a stored policy.\<close>

definition afterFailure :: "string \<Rightarrow> time \<Rightarrow> policy \<Rightarrow> policy" where
  "afterFailure nodeName now p =
     (if HandleNodeFailure (Spec p) \<and> \<not> alreadyTracking nodeName p
      then stored_policy (failureDetected nodeName now p) else p)"

lemma UpdatePolicyStatus_quiet:
  assumes "quiet_cluster a view" and "cPolicies (view w) (policy_key p) = Some p"
  shows "result (UpdatePolicyStatus a (p\<lparr>Status := s\<rparr>)) w = None"
    and "view (final (UpdatePolicyStatus a (p\<lparr>Status := s\<rparr>)) w) =
      (view w)\<lparr>cPolicies := (cPolicies (view w))(policy_key p \<mapsto> stored_policy (p\<lparr>Status := s\<rparr>))\<rparr>"
  using writes_ok [OF quiet_writeD(2) [OF assms(1), of "p\<lparr>Status := s\<rparr>" p], of w] assms(2) by simp_all

lemma failureRequests_quiet:
  assumes q: "quiet_cluster a view"
  shows "policies.listed (view w) ps \<Longrightarrow>
    result (failureRequests a n t ps) w = map policy_key (filter (\<lambda>p. HandleNodeFailure (Spec p)) ps) \<and>
    view (final (failureRequests a n t ps) w) =
      (view w)\<lparr>cPolicies := on_keys (afterFailure n t) (policy_key ` set ps) (cPolicies (view w))\<rparr>"
proof (induction ps arbitrary: w)
  case (Cons p ps)
  note l = policies.listed_Cons(1,2) [OF Cons.prems]
    policies.listed_Cons(3) [OF Cons.prems, of "afterFailure n t p"]
  let ?up = "HandleNodeFailure (Spec p) \<and> \<not> alreadyTracking n p"
  let ?w = "if ?up then final (UpdatePolicyStatus a (failureDetected n t p)) w else w"
  note u = UpdatePolicyStatus_quiet [OF q l(1)]
  have v: "view ?w = (view w)\<lparr>cPolicies := (cPolicies (view w))(policy_key p \<mapsto> afterFailure n t p)\<rparr>"
    using l(1) by (auto simp: afterFailure_def failureDetected_def u(2) map_upd_triv)
  have e: "result (UpdatePolicyStatus a (failureDetected n t p)) w = None"
    unfolding failureDetected_def by (rule u(1))
  have run: "run_state (failureRequests a n t (p # ps)) w =
      ((if HandleNodeFailure (Spec p) then [policy_key p] else []) @ result (failureRequests a n t ps) ?w,
       final (failureRequests a n t ps) ?w)"
    by (simp add: e)
  note ih = Cons.IH [of ?w, unfolded v, OF l(3)]
  have "on_keys (afterFailure n t) (policy_key ` set ps) ((cPolicies (view w))(policy_key p \<mapsto> afterFailure n t p)) =
      on_keys (afterFailure n t) (policy_key ` set (p # ps)) (cPolicies (view w))"
    using on_keys_insert [OF l(2), of "cPolicies (view w)" p "afterFailure n t"] l(1) by simp
  with ih show ?case unfolding run by (simp only: fst_conv snd_conv) (simp del: fun_upd_apply)
qed simp

lemma afterFailure_event:
  assumes "HandleNodeFailure (Spec p)"
  shows "hasNodeFailureEvent (afterFailure n now p) \<longleftrightarrow> alreadyTracking n p \<or>
      (\<forall>t. NodeFailureEventHandledAt (Status p) = Some t \<longrightarrow> t - t mod Second < now - now mod Second)"
    and "Spec (afterFailure n now p) = Spec p" and "FailedNodeName (Status (afterFailure n now p)) = n"
proof -
  show "hasNodeFailureEvent (afterFailure n now p) \<longleftrightarrow> alreadyTracking n p \<or>
      (\<forall>t. NodeFailureEventHandledAt (Status p) = Some t \<longrightarrow> t - t mod Second < now - now mod Second)"
  proof (cases "alreadyTracking n p")
    case True
    then show ?thesis using assms by (simp add: afterFailure_def hasNodeFailureEvent_def alreadyTracking_def)
  next
    case False
    then show ?thesis
      using assms by (cases "NodeFailureEventHandledAt (Status p)")
        (simp_all add: afterFailure_def failureDetected_def hasNodeFailureEvent_def unhandledEvent_def
          afterOpt_def stored_status_times truncate_time_def)
  qed
  show "Spec (afterFailure n now p) = Spec p" by (simp add: afterFailure_def failureDetected_def)
  show "FailedNodeName (Status (afterFailure n now p)) = n"
    using assms by (simp add: afterFailure_def failureDetected_def alreadyTracking_def)
qed

lemma recent_quiet:
  assumes "quiet_cluster a view"
  shows "view (final (recentTransition a n) w) = view w"
  unfolding recentTransition_def by (intro looks_final looks_intros looks_calls [OF assms])

subsection \<open>Properties\<close>

text \<open>
  C26: a node that has just become not ready is reported to every policy that handles node failures
  and to no other: those policies are requested, they record the node and, when they were not
  already busy with it, the moment (in whole seconds) as a new event. The event counts as unhandled
  unless the policy handled one in the same second or later. Policies that do not handle node
  failures are left as they are.
\<close>

theorem node_failure_reported:
  assumes "quiet_cluster a view" and "\<not> isNodeReady n" and "result (recentTransition a n) w"
  shows "\<exists>now. set (result (mapNodeReadyToPolicy a n) w) =
      {k. \<exists>p. cPolicies (view w) k = Some p \<and> HandleNodeFailure (Spec p)} \<and>
    (\<forall>k p. cPolicies (view w) k = Some p \<longrightarrow>
       (if HandleNodeFailure (Spec p)
        then \<exists>p'. cPolicies (view (final (mapNodeReadyToPolicy a n) w)) k = Some p' \<and> Spec p' = Spec p \<and>
          FailedNodeName (Status p') = node_Name n \<and>
          (hasNodeFailureEvent p' \<longleftrightarrow> alreadyTracking (node_Name n) p \<or>
             (\<forall>t. NodeFailureEventHandledAt (Status p) = Some t \<longrightarrow> t - t mod Second < now - now mod Second))
        else cPolicies (view (final (mapNodeReadyToPolicy a n) w)) k = Some p))"
proof -
  let ?r = "final (recentTransition a n) w"
  let ?l = "final (ListPolicies a) ?r" and ?t = "result (Now a) (final (ListPolicies a) ?r)"
  obtain items where items: "result (ListPolicies a) ?r = Inr items"
    using reads_result [OF quiet_readD(6) [OF assms(1)], of ?r] by (auto simp: lists_def)
  have v: "view ?r = view w" "view (final (Now a) ?l) = view w"
    by (simp_all add: quiet_view [OF assms(1)] recent_quiet [OF assms(1)])
  note l = listed_policies [OF assms(1) items, unfolded v]
  note fr = failureRequests_quiet [OF assms(1), of "final (Now a) ?l" items "node_Name n" ?t, unfolded v, OF l(1)]
  have run: "run_state (mapNodeReadyToPolicy a n) w =
      run_state (failureRequests a (node_Name n) ?t items) (final (Now a) ?l)"
    using assms(2,3) by (simp add: mapNodeReadyToPolicy_def items)
  have keys: "policy_key ` set items = dom (cPolicies (view w))"
    using l(2) quiet_keyed(1) [OF assms(1), of w] by (force simp: ran_def dom_def)
  have reqs: "set (result (mapNodeReadyToPolicy a n) w) =
      {k. \<exists>p. cPolicies (view w) k = Some p \<and> HandleNodeFailure (Spec p)}"
  proof -
    have "set (result (mapNodeReadyToPolicy a n) w) =
        policy_key ` {p \<in> ran (cPolicies (view w)). HandleNodeFailure (Spec p)}"
      using fr l(2) by (simp add: run)
    then show ?thesis using quiet_keyed(1) [OF assms(1), of w] by (force simp: ran_def image_iff)
  qed
  have pol: "cPolicies (view (final (mapNodeReadyToPolicy a n) w)) k = Some (afterFailure (node_Name n) ?t p)"
    if "cPolicies (view w) k = Some p" for k p
    using fr that by (simp add: run keys on_keys_def domI)
  show ?thesis
  proof (intro exI [of _ ?t] conjI reqs allI impI)
    fix k p
    assume p: "cPolicies (view w) k = Some p"
    note pol = pol [OF p]
    show "if HandleNodeFailure (Spec p)
        then \<exists>p'. cPolicies (view (final (mapNodeReadyToPolicy a n) w)) k = Some p' \<and> Spec p' = Spec p \<and>
          FailedNodeName (Status p') = node_Name n \<and>
          (hasNodeFailureEvent p' \<longleftrightarrow> alreadyTracking (node_Name n) p \<or>
             (\<forall>t. NodeFailureEventHandledAt (Status p) = Some t \<longrightarrow> t - t mod Second < ?t - ?t mod Second))
        else cPolicies (view (final (mapNodeReadyToPolicy a n) w)) k = Some p"
    proof (cases "HandleNodeFailure (Spec p)")
      case True
      then show ?thesis using pol afterFailure_event [OF True] by (simp only: if_True) blast
    next
      case False
      then show ?thesis using pol by (simp add: afterFailure_def)
    qed
  qed
qed

definition failing_mem :: mem where
  "failing_mem = sample_mem\<lparr>mPolicies := [(sample_policy ''p'')\<lparr>Spec := sample_spec\<lparr>HandleNodeFailure := True\<rparr>\<rparr>]\<rparr>"

definition lost_node :: node where
  "lost_node = (sample_node ''n1'' ConditionFalse)\<lparr>node_Conditions :=
     [\<lparr>nodecond_Type = ''Ready'', nodecond_Status = ConditionFalse, LastTransitionTime = 995 * Second\<rparr>]\<rparr>"

theorem node_failure_reported_witness:
  "\<exists>p'. cPolicies (mem_view (final (mapNodeReadyToPolicy mem_api lost_node) failing_mem)) (''ops'', ''p'') = Some p' \<and>
     hasNodeFailureEvent p' \<and> FailedNodeName (Status p') = ''n1''"
proof -
  let ?p = "(sample_policy ''p'')\<lparr>Spec := sample_spec\<lparr>HandleNodeFailure := True\<rparr>\<rparr>"
  have p: "cPolicies (mem_view failing_mem) (''ops'', ''p'') = Some ?p"
    by (simp add: failing_mem_def mem_view_def lookup_key_def by_key_def sample_defs key_defs)
  have r: "\<not> isNodeReady lost_node" "result (recentTransition mem_api lost_node) failing_mem"
    by (simp_all add: lost_node_def isNodeReady_def recentTransition_def mem_ops failing_mem_def sample_mem_def Second_def)
  have s: "HandleNodeFailure (Spec ?p)" "NodeFailureEventHandledAt (Status (sample_policy ''p'')) = None"
    and n: "node_Name lost_node = ''n1''"
    by (simp_all add: sample_policy_def empty_status_def lost_node_def node_Name_def sample_node_def sample_meta_def)
  show ?thesis
    using node_failure_reported [OF mem_quiet r]
    by (elim exE conjE) (drule spec [of _ "(''ops'', ''p'')"], drule spec [of _ ?p], auto simp: p s n)
qed

text \<open>
  C27: marking a policy for the startup resume wakes the reconciler: the update passes the watch
  predicate although the generation is unchanged, except when the policy was already pending and
  its delay was started in the same second, so that the stored status does not change in what the
  predicate looks at.
\<close>

theorem marking_wakes_reconciler:
  assumes "new = stored_policy (old\<lparr>Status := startupResumeStatus policy now old\<rparr>)"
    and "stored_policy old = old"
  shows "policyTriggers (PolicyUpdated g g old new) \<longleftrightarrow>
    \<not> (PendingStartupResume (Status old) \<and>
       ResumeDelayStartedAt (Status old) = Some (now - now mod Second))"
proof -
  have same: "stored_status (Status old) = Status old"
    using assms(2) by (metis stored_policy_simps(3))
  have keep: "truncate_time (FreezeDelayStartedAt (Status old)) = FreezeDelayStartedAt (Status old)"
    "truncate_time (NodeReadyEventDetectedAt (Status old)) = NodeReadyEventDetectedAt (Status old)"
    "truncate_time (NodeFailureEventDetectedAt (Status old)) = NodeFailureEventDetectedAt (Status old)"
    using same by (metis stored_status_times(8), metis stored_status_times(3), metis stored_status_times(5))
  have irrefl: "\<not> afterOpt t t" for t by (simp add: afterOpt_def split: option.split)
  have new: "PendingStartupResume (Status new)" "PendingFreeze (Status new) = PendingFreeze (Status old)"
    "ResumeDelayStartedAt (Status new) = Some (now - now mod Second)"
    "FreezeDelayStartedAt (Status new) = FreezeDelayStartedAt (Status old)"
    "NodeReadyEventDetectedAt (Status new) = NodeReadyEventDetectedAt (Status old)"
    "NodeFailureEventDetectedAt (Status new) = NodeFailureEventDetectedAt (Status old)"
    using keep by (simp_all add: assms(1) startupResumeStatus_def stored_status_times Let_def truncate_time_def)
  show ?thesis
    by (auto simp: policyUpdateTriggers_def new irrefl Let_def)
qed

theorem marking_wakes_reconciler_witness:
  "policyTriggers (PolicyUpdated 1 1 starting_policy
     (stored_policy (starting_policy\<lparr>Status := startupResumeStatus starting_policy 5 starting_policy\<rparr>)))"
  using marking_wakes_reconciler [where old = starting_policy and policy = starting_policy and now = 5 and g = 1, OF refl]
  by (simp add: starting_policy_def sample_policy_def empty_status_def stored_policy_def stored_status_def truncate_time_def)

end
