(* ===== verification/Recovery.thy ===== *)
theory Recovery
  imports Commands Events
begin

text \<open>
  The resume that \<open>Reconcile\<close> performs on its own, after a start of the operator or a node failure:
  when it waits, what it does when its turn has come, that the priority gate never leaves all
  policies waiting, and how a command of the user takes precedence.
\<close>

subsection \<open>Waiting\<close>

text \<open>A policy that is about to be resumed by the operator, and by nothing else.\<close>

definition awaiting :: "policy \<Rightarrow> bool" where
  "awaiting p \<longleftrightarrow> PendingStartupResume (Status p) \<and> \<not> PendingFreeze (Status p) \<and>
     \<not> hasNodeFailureEvent p \<and> \<not> manualPending p"

text \<open>The time that the handler reads for the resume delay.\<close>

definition resume_time :: "'w api \<Rightarrow> nsname \<Rightarrow> 'w \<Rightarrow> time" where
  "resume_time a k w = result (Now a) (final (ReaderListPolicies a) (entered a k w))"

definition held_back :: "cluster \<Rightarrow> policy \<Rightarrow> bool" where
  "held_back c p \<longleftrightarrow> (\<exists>q \<in> ran (cPolicies c). policy_uid q \<noteq> policy_uid p \<and>
     PendingStartupResume (Status q) \<and> resumePriorityOf q < resumePriorityOf p)"

lemma gate_held_back:
  assumes "quiet_cluster a view"
  shows "result (isBlockedByHigherPriorityResume a p) w = Inr (held_back (view w) p)"
    and "final (isBlockedByHigherPriorityResume a p) w = final (ReaderListPolicies a) w"
proof -
  obtain ps where "result (ReaderListPolicies a) w = Inr ps"
    using reads_result [OF quiet_readD(7) [OF assms], of w] by (auto simp: lists_def)
  then show "result (isBlockedByHigherPriorityResume a p) w = Inr (held_back (view w) p)"
    "final (isBlockedByHigherPriorityResume a p) w = final (ReaderListPolicies a) w"
    using gate_reads(1) [OF assms, of w p] by (auto simp: isBlockedByHigherPriorityResume_def held_back_def resume_gate.blocked_iff)
qed

lemma run_case_bool [simp]:
  "run_state (case b of True \<Rightarrow> m | False \<Rightarrow> n) s = (if b then run_state m s else run_state n s)"
  by simp


subsection \<open>The resume itself\<close>

lemma startupResumeWorkloads_quiet:
  assumes q: "quiet_cluster a view" and p: "cPolicies (sysview view s) (policy_key p) = Some p0" "Spec p0 = Spec p"
    and ds: "deployments.listed (sysview view s) ds" and ss: "statefulSets.listed (sysview view s) ss"
    and cnt: "\<And>d e. d \<in> set ds \<union> set ss \<Longrightarrow> count_annotation d \<noteq> Some (Inl e)"
    and t: "throttle_ready fuel a view p (length ds + length ss) s"
  shows "\<exists>m. result (startupResumeWorkloads fuel a p ds ss) s = Continue p \<and>
    policy_frame (policy_key p) (cPolicies (sysview view s)) m \<and>
    sysview view (final (startupResumeWorkloads fuel a p ds ss) s) = (sysview view s)\<lparr>
      cDeployments := on_keys deployment_ops.resumed (workload_key ` set ds) (cDeployments (sysview view s)),
      cStatefulSets := on_keys statefulSet_ops.resumed (workload_key ` set ss) (cStatefulSets (sysview view s)),
      cPolicies := m\<rparr>"
proof -
  note refl = policy_frame_refl [of "cPolicies (sysview view s)", OF p(1)]
  consider (plain) "\<not> throttlingOn p" | (none) "throttlingOn p" "ds = []" "ss = []"
    | (some) "throttlingOn p" "ds \<noteq> [] \<or> ss \<noteq> []" by blast
  then show ?thesis
  proof cases
    case plain
    let ?w1 = "final (for_each ds (resumeDeployment a)) (world s)"
    note l1 = deployment_ops.resume_loop(1) [OF q ds]
    have "statefulSets.listed (view ?w1) ss" using ss by (simp add: l1 statefulSets.listed_def)
    note l2 = statefulSet_ops.resume_loop(1) [OF q this]
    show ?thesis
      using plain refl by (intro exI [of _ "cPolicies (sysview view s)"]) (simp add: startupResumeWorkloads_def l1 l2)
  next
    case none
    then show ?thesis
      using refl by (intro exI [of _ "cPolicies (sysview view s)"])
        (simp add: startupResumeWorkloads_def resumeWithAdaptiveThrottling_def)
  next
    case some
    then obtain config where c: "AdaptiveThrottling (Spec p) = Some config" "throttle_Enabled config"
      by (auto simp: throttlingOn_def split: option.splits)
    have "not_overridden p True (sysview view s)"
      using p quiet_keyed(1) [OF q p(1)] by (simp add: not_overridden_def overrideDecision_def Let_def)
    from throttled_resume_quiet [OF q c(1) _ _ _ _ this ds ss cnt some(2), of fuel] t c show ?thesis
      using some(1) by (auto simp: throttle_ready_def startupResumeWorkloads_def)
  qed
qed

lemma calm_checked: "calm_change (Status p) (Status p') \<Longrightarrow> beingChecked p' = beingChecked p"
  by (auto simp: calm_change_def beingChecked_def split: option.splits)

text \<open>The policy after the operator's own resume: the command of the user is neither used nor lost.\<close>

definition resumed_policy :: "policy \<Rightarrow> policy \<Rightarrow> bool" where
  "resumed_policy p p' \<longleftrightarrow> Spec p' = Spec p \<and> policy_Meta p' = policy_Meta p \<and>
     LastHandledOperationId (Status p') = LastHandledOperationId (Status p) \<and>
     \<not> PendingStartupResume (Status p') \<and> Phase (Status p') = PhaseResumed \<and>
     LastStartupAction (Status p') = ''RESUME_APPLIED'' \<and> beingChecked p' = beingChecked p"

definition watching_node :: "policy \<Rightarrow> bool" where
  "watching_node p \<longleftrightarrow> HandleNodeFailure (Spec p) \<and> FailedNodeName (Status p) \<noteq> ''''"

lemma finishStartupResume_quiet:
  assumes q: "quiet_cluster a view" and m: "policy_frame (policy_key p) m0 (cPolicies (view w))"
    and p: "m0 (policy_key p) = Some p0"
  shows "result (finishStartupResume a p ds ss) w =
      Return (if watching_node p then requeueAfter (30 * Second) else noResult) None"
    and "\<exists>p' ps. resumed_policy p0 p' \<and> view (final (finishStartupResume a p ds ss) w) =
      (view w)\<lparr>cPolicies := m0(policy_key p \<mapsto> p'), cPods := ps\<rparr>"
proof -
  let ?w = "final (Now a) w" and ?now = "result (Now a) w"
  obtain p2 where c: "cPolicies (view ?w) (policy_key p) = Some p2" and p2: "Spec p2 = Spec p0"
    "policy_Meta p2 = policy_Meta p0" "LastHandledOperationId (Status p2) = LastHandledOperationId (Status p0)"
    and calm: "calm_change (Status p0) (Status p2)"
    using m p by (auto simp: policy_frame_def quiet_view [OF q])
  note up = updateLatestStatus_quiet [OF q c quiet_keyed(1) [OF q c], of "startupResumedStatus p ds ss ?now"]
  let ?w' = "final (updateLatestStatus a (policy_key p) (startupResumedStatus p ds ss ?now)) ?w"
  let ?p' = "stored_policy (p2\<lparr>Status := startupResumedStatus p ds ss ?now p2\<rparr>)"
  have r: "resumed_policy p0 ?p'"
  proof -
    have "beingChecked ?p' = beingChecked p2"
      by (simp add: beingChecked_def startupResumedStatus_def Let_def split: option.split)
    then show ?thesis
      using p2 calm_checked [OF calm] by (simp add: resumed_policy_def startupResumedStatus_def Let_def)
  qed
  have v: "view ?w' = (view w)\<lparr>cPolicies := m0(policy_key p \<mapsto> ?p')\<rparr>"
    unfolding up(2) using m by (auto simp: quiet_view [OF q] policy_frame_def fun_eq_iff)
  show "result (finishStartupResume a p ds ss) w =
      Return (if watching_node p then requeueAfter (30 * Second) else noResult) None"
    by (simp add: finishStartupResume_def up(1) watching_node_def returnErr_def)
  obtain ps where "view (final (forceDeleteTerminatingPods a p (FailedNodeName (Status p))) ?w') = (view ?w')\<lparr>cPods := ps\<rparr>"
    using forceDelete_quiet [OF q] by blast
  then have "\<exists>ps. view (final (finishStartupResume a p ds ss) w) = (view w)\<lparr>cPolicies := m0(policy_key p \<mapsto> ?p'), cPods := ps\<rparr>"
    using v by (cases "watching_node p")
      (auto simp: finishStartupResume_def up(1) watching_node_def intro!: exI [of _ "if watching_node p then ps else cPods (view w)"])
  with r show "\<exists>p' ps. resumed_policy p0 p' \<and> view (final (finishStartupResume a p ds ss) w) =
      (view w)\<lparr>cPolicies := m0(policy_key p \<mapsto> p'), cPods := ps\<rparr>" by blast
qed


text \<open>Pre-conditions that hold, or none at all.\<close>

definition pre_clear :: "'w api \<Rightarrow> (string \<Rightarrow> err + httpResponse) \<Rightarrow> policy \<Rightarrow> cluster \<Rightarrow> bool" where
  "pre_clear a answer p c \<longleftrightarrow>
     (\<forall>pc. preConditionsOn p = Some pc \<longrightarrow> checkable a answer pc \<and> pre_met answer pc c)"

lemma startupPreConditions_clear:
  assumes q: "quiet_cluster a view" and c: "pre_clear a answer p (view w)"
  shows "\<exists>p1. result (startupPreConditions a p) w = Continue p1 \<and> Spec p1 = Spec p \<and> policy_key p1 = policy_key p \<and>
    FailedNodeName (Status p1) = FailedNodeName (Status p)"
    and "view (final (startupPreConditions a p) w) = view w"
proof -
  have "(\<exists>p1. result (startupPreConditions a p) w = Continue p1 \<and> Spec p1 = Spec p \<and> policy_key p1 = policy_key p \<and>
    FailedNodeName (Status p1) = FailedNodeName (Status p)) \<and> view (final (startupPreConditions a p) w) = view w"
  proof (cases "preConditionsOn p")
    case None
    then show ?thesis by (simp add: startupPreConditions_def)
  next
    case (Some pc)
    then have "result (checkPreConditions a p) w = Inr (True, ''All pre-conditions passed'')"
      using c checkPreConditions_quiet [OF q Some, of answer w] by (simp add: pre_clear_def)
    then show ?thesis
      using Some looks_final [OF looks_checkPreConditions [OF q]]
      by (simp add: startupPreConditions_def quiet_view [OF q])
  qed
  then show "\<exists>p1. result (startupPreConditions a p) w = Continue p1 \<and> Spec p1 = Spec p \<and> policy_key p1 = policy_key p \<and>
      FailedNodeName (Status p1) = FailedNodeName (Status p)"
    and "view (final (startupPreConditions a p) w) = view w" by blast+
qed

lemma listWorkloads_quiet:
  assumes q: "quiet_cluster a view" and sel: "selectorOf a p = Inr sel"
  shows "\<exists>ds ss. result (listWorkloads a p) w = Inr (ds, ss) \<and>
    deployments.listed (view w) ds \<and> workload_key ` set ds = selected p sel (cDeployments (view w)) \<and>
    statefulSets.listed (view w) ss \<and> workload_key ` set ss = selected p sel (cStatefulSets (view w))"
    and "view (final (listWorkloads a p) w) = view w"
proof -
  let ?m = "listDeployments a (TargetNamespace (Spec p)) (Selector (Spec p))"
  have v: "view (final ?m w) = view w" by (rule listed_deployments(2) [OF q sel])
  obtain ds where ds: "result ?m w = Inr ds" "deployments.listed (view w) ds" "workload_key ` set ds = selected p sel (cDeployments (view w))"
    using listed_deployments(1) [OF q sel] by blast
  obtain ss where ss: "result (listStatefulSets a (TargetNamespace (Spec p)) (Selector (Spec p))) (final ?m w) = Inr ss"
    "statefulSets.listed (view w) ss" "workload_key ` set ss = selected p sel (cStatefulSets (view w))"
    using listed_statefulSets(1) [OF q sel, of "final ?m w"] v by auto
  show "\<exists>ds ss. result (listWorkloads a p) w = Inr (ds, ss) \<and>
    deployments.listed (view w) ds \<and> workload_key ` set ds = selected p sel (cDeployments (view w)) \<and>
    statefulSets.listed (view w) ss \<and> workload_key ` set ss = selected p sel (cStatefulSets (view w))"
    using ds ss by (simp add: listWorkloads_def)
  show "view (final (listWorkloads a p) w) = view w"
    using ds(1) ss(1) v listed_statefulSets(2) [OF q sel] by (simp add: listWorkloads_def)
qed

lemma executeStartupResume_quiet:
  assumes q: "quiet_cluster a view" and p: "cPolicies (sysview view s) (policy_key p) = Some p"
    and sel: "selectorOf a p = Inr sel" and pre: "pre_clear a answer p (sysview view s)"
    and rs: "restorable fuel a p sel view s"
  shows "\<exists>p' ps. result (executeStartupResume fuel a p) s =
      Return (if watching_node p then requeueAfter (30 * Second) else noResult) None \<and> resumed_policy p p' \<and>
    sysview view (final (executeStartupResume fuel a p) s) = (acted deployment_ops.resumed statefulSet_ops.resumed
      (selected p sel (cDeployments (sysview view s))) (selected p sel (cStatefulSets (sysview view s)))
      (policy_key p) p' (sysview view s))\<lparr>cPods := ps\<rparr>"
proof -
  let ?c = "sysview view s" and ?w1 = "final (listWorkloads a p) (world s)"
  obtain ds ss where l: "result (listWorkloads a p) (world s) = Inr (ds, ss)"
    "deployments.listed ?c ds" "workload_key ` set ds = selected p sel (cDeployments ?c)"
    "statefulSets.listed ?c ss" "workload_key ` set ss = selected p sel (cStatefulSets ?c)"
    using listWorkloads_quiet(1) [OF q sel, of "world s"] by blast
  have v1: "view ?w1 = ?c" by (rule listWorkloads_quiet(2) [OF q sel])
  obtain p1 where p1: "result (startupPreConditions a p) ?w1 = Continue p1" "Spec p1 = Spec p" "policy_key p1 = policy_key p"
    "FailedNodeName (Status p1) = FailedNodeName (Status p)"
    using startupPreConditions_clear(1) [OF q, of answer p ?w1] pre v1 by auto
  let ?s2 = "s\<lparr>world := final (startupPreConditions a p) ?w1\<rparr>"
  have v2: "sysview view ?s2 = ?c" using startupPreConditions_clear(2) [OF q, of answer p ?w1] pre v1 by simp
  have "count_annotation d \<noteq> Some (Inl e)" if "d \<in> set ds \<union> set ss" for d e
    using that rs listed_ran(1) [OF l(2)] listed_ran(2) [OF l(4)] unfolding restorable_def by blast
  moreover have "throttle_ready fuel a view p1 (length ds + length ss) ?s2"
    using rs listed_lengths(1) [OF l(2)] listed_lengths(2) [OF l(4)] l(3,5) p1(2)
    using v2 by (simp add: restorable_def throttle_ready_spec [OF p1(2)])
  ultimately obtain m where m: "result (startupResumeWorkloads fuel a p1 ds ss) ?s2 = Continue p1"
    "policy_frame (policy_key p1) (cPolicies ?c) m"
    "sysview view (final (startupResumeWorkloads fuel a p1 ds ss) ?s2) = ?c\<lparr>
      cDeployments := on_keys deployment_ops.resumed (workload_key ` set ds) (cDeployments ?c),
      cStatefulSets := on_keys statefulSet_ops.resumed (workload_key ` set ss) (cStatefulSets ?c), cPolicies := m\<rparr>"
    using startupResumeWorkloads_quiet [OF q, of ?s2 p1 p ds ss fuel, unfolded v2] p p1(2,3) l(2,4) by auto
  let ?s3 = "final (startupResumeWorkloads fuel a p1 ds ss) ?s2"
  have "policy_frame (policy_key p1) (cPolicies ?c) (cPolicies (sysview view ?s3))" using m(2,3) by simp
  note fin = finishStartupResume_quiet [OF q this, of p ds ss]
  have run: "run_state (executeStartupResume fuel a p) s = run_state (inWorld (finishStartupResume a p1 ds ss)) ?s3"
    using l(1) p1(1) m(1) by (simp add: executeStartupResume_def)
  have w: "watching_node p1 = watching_node p" using p1(2,4) by (simp add: watching_node_def)
  show ?thesis
    using fin p p1(3) m(3) l(3,5) unfolding run w acted_def by fastforce
qed


lemma restorable_world:
  "view w = sysview view s \<Longrightarrow> restorable fuel a p sel view (s\<lparr>world := w\<rparr>) = restorable fuel a p sel view s"
  by (simp add: restorable_def throttle_ready_spec)

text \<open>A policy whose turn to be resumed has come.\<close>

definition due :: "'w api \<Rightarrow> ('w \<Rightarrow> cluster) \<Rightarrow> nsname \<Rightarrow> policy \<Rightarrow> 'w sys \<Rightarrow> bool" where
  "due a view k p s \<longleftrightarrow> in_charge (sysview view s) k p \<and> awaiting p \<and> startupComplete s \<and>
     \<not> held_back (sysview view s) p \<and>
     (\<exists>t. ResumeDelayStartedAt (Status p) = Some t \<and> ResumeDelay (Spec p) \<le> resume_time a k (world s) - t)"

lemma reconcile_due:
  assumes q: "quiet_cluster a view" and d: "due a view k p s"
  shows "\<exists>w. view w = sysview view s \<and> (\<forall>r e. result (executeStartupResume fuel a p) (s\<lparr>world := w\<rparr>) = Return r e \<longrightarrow>
    run_state (Reconcile fuel a k) s = run_state (executeStartupResume fuel a p) (s\<lparr>world := w\<rparr>))"
proof -
  have ic: "in_charge (sysview view s) k p" using d by (simp add: due_def)
  note ent = reconcile_in_charge [OF q ic]
  note gate = gate_held_back [OF q, of p "entered a k (world s)", unfolded ent(1)]
  let ?w = "final (Now a) (final (ReaderListPolicies a) (entered a k (world s)))"
  have "run_state (Reconcile fuel a k) s = run_state (executeStartupResume fuel a p) (s\<lparr>world := ?w\<rparr>)"
    if r: "result (executeStartupResume fuel a p) (s\<lparr>world := ?w\<rparr>) = Return r e" for r e
    using d gate r
    by (auto simp: ent(2) reconcileStages_def handlePendingFreeze_def handlePendingStartupResume_def due_def awaiting_def
        resume_time_def Let_def prod_eq_iff)
  then show ?thesis by (intro exI [of _ ?w]) (simp add: quiet_view [OF q] ent(1))
qed

lemma executed_due:
  assumes "quiet_cluster a view" and "due a view k p s" and "selectorOf a p = Inr sel"
    and "pre_clear a answer p (sysview view s)" and "restorable fuel a p sel view s"
  shows "\<exists>p' ps. result (Reconcile fuel a k) s =
      Return (if watching_node p then requeueAfter (30 * Second) else noResult) None \<and> resumed_policy p p' \<and>
    sysview view (final (Reconcile fuel a k) s) = (acted deployment_ops.resumed statefulSet_ops.resumed
      (selected p sel (cDeployments (sysview view s))) (selected p sel (cStatefulSets (sysview view s)))
      k p' (sysview view s))\<lparr>cPods := ps\<rparr>"
proof -
  obtain w where w: "view w = sysview view s" "\<And>r e. result (executeStartupResume fuel a p) (s\<lparr>world := w\<rparr>) = Return r e \<Longrightarrow>
      run_state (Reconcile fuel a k) s = run_state (executeStartupResume fuel a p) (s\<lparr>world := w\<rparr>)"
    using reconcile_due [OF assms(1,2)] by blast
  have "in_charge (sysview view s) k p" using assms(2) by (simp add: due_def)
  note k = in_charge_key [OF assms(1) this]
  show ?thesis
    using executeStartupResume_quiet [OF assms(1), of "s\<lparr>world := w\<rparr>" p sel answer fuel] assms(3-5) w k
    by (auto simp: restorable_world)
qed

text \<open>
  C6: the operator's resume completes. When the turn of a policy has come, its pre-conditions (if
  any) hold and the saved counts are readable, one run of \<open>Reconcile\<close> resumes exactly the selected
  workloads, with or without throttling, ends the wait, and reports Resumed. The user's last
  handled operation id stays as it is. While a failed node is watched the run is repeated after 30
  seconds; apart from ghost pods on that node nothing else changes.
\<close>

theorem startup_resume_completes:
  assumes "quiet_cluster a view" and "due a view k p s" and "selectorOf a p = Inr sel"
    and "pre_clear a answer p (sysview view s)" and "restorable fuel a p sel view s"
  shows "\<exists>p' ps. result (Reconcile fuel a k) s =
      Return (if watching_node p then requeueAfter (30 * Second) else noResult) None \<and> resumed_policy p p' \<and>
    sysview view (final (Reconcile fuel a k) s) = (acted deployment_ops.resumed statefulSet_ops.resumed
      (selected p sel (cDeployments (sysview view s))) (selected p sel (cStatefulSets (sysview view s)))
      k p' (sysview view s))\<lparr>cPods := ps\<rparr>"
  using assms by (rule executed_due)

text \<open>
  C16: unmet pre-conditions hold the resume back without losing it. The run changes no workload, the
  policy stays pending in phase Resuming with its handled operation id, and is checked again after
  the configured interval.
\<close>

theorem startup_resume_gated:
  assumes "quiet_cluster a view" and "due a view k p s" and "selectorOf a p = Inr sel"
    and "preConditionsOn p = Some pc" and "checkable a answer pc" and "\<not> pre_met answer pc (sysview view s)"
  shows "\<exists>p'. result (Reconcile fuel a k) s = Return (requeueAfter (CheckInterval pc * Second)) None \<and>
    sysview view (final (Reconcile fuel a k) s) = (sysview view s)\<lparr>cPolicies := (cPolicies (sysview view s))(k \<mapsto> p')\<rparr> \<and>
    Spec p' = Spec p \<and> PendingStartupResume (Status p') \<and> Phase (Status p') = PhaseResuming \<and>
    LastHandledOperationId (Status p') = LastHandledOperationId (Status p)"
proof -
  obtain w where w: "view w = sysview view s" "\<And>r e. result (executeStartupResume fuel a p) (s\<lparr>world := w\<rparr>) = Return r e \<Longrightarrow>
      run_state (Reconcile fuel a k) s = run_state (executeStartupResume fuel a p) (s\<lparr>world := w\<rparr>)"
    using reconcile_due [OF assms(1,2)] by blast
  have "in_charge (sysview view s) k p" using assms(2) by (simp add: due_def)
  note k = in_charge_key [OF assms(1) this]
  let ?w1 = "final (listWorkloads a p) w"
  obtain ds ss where l: "result (listWorkloads a p) w = Inr (ds, ss)"
    using listWorkloads_quiet(1) [OF assms(1,3), of w] by blast
  have v1: "view ?w1 = sysview view s" using listWorkloads_quiet(2) [OF assms(1,3)] w(1) by simp
  have ck: "result (checkPreConditions a p) ?w1 = Inr (False, pre_message answer pc (sysview view s))"
    using checkPreConditions_quiet [OF assms(1,4,5), of ?w1] assms(6) v1 by simp
  let ?w3 = "final (Now a) (final (checkPreConditions a p) ?w1)"
  have v3: "view ?w3 = sysview view s"
    using looks_final [OF looks_checkPreConditions [OF assms(1)]] v1 by (simp add: quiet_view [OF assms(1)])
  have c3: "cPolicies (view ?w3) k = Some p" using k v3 by simp
  note up = updateLatestStatus_quiet [OF assms(1) c3 k(1)]
  have r: "run_state (executeStartupResume fuel a p) (s\<lparr>world := w\<rparr>) = (Return (requeueAfter (CheckInterval pc * Second)) None,
      s\<lparr>world := final (updateLatestStatus a k (\<lambda>l. (waitingStatus (Status p) (result (Now a) (final (checkPreConditions a p) ?w1))
          (pre_message answer pc (sysview view s)) (if blocksChain pc then ''Waiting for pre-conditions: '' @ pre_message answer pc (sysview view s)
            else ''Waiting for pre-conditions (non-blocking mode - other policies continue)''))
        \<lparr>LastHandledOperationId := LastHandledOperationId (Status l)\<rparr>)) ?w3\<rparr>)"
    using l ck k(1) by (simp add: executeStartupResume_def startupPreConditions_def assms(4) keepWaiting_def)
  show ?thesis
    using w(2) [of "requeueAfter (CheckInterval pc * Second)" None] unfolding r
    by (auto simp: up(2) v3 waitingStatus_def)
qed


subsection \<open>The gate never blocks everyone\<close>

definition pending_keys :: "cluster \<Rightarrow> nsname set" where
  "pending_keys c = {k. \<exists>p. cPolicies c k = Some p \<and> PendingStartupResume (Status p)}"

lemma first_unheld:
  assumes q: "quiet_cluster a view" and ne: "pending_keys (view w) \<noteq> {}"
  shows "\<exists>k p. cPolicies (view w) k = Some p \<and> PendingStartupResume (Status p) \<and> \<not> held_back (view w) p"
proof -
  obtain ps where ps: "set ps = ran (cPolicies (view w))"
    using gate_reads(1) [OF q] by blast
  have "\<exists>p \<in> set ps. PendingStartupResume (Status p)"
    using ne ranI [of "cPolicies (view w)"] unfolding ps pending_keys_def by blast
  from resume_gate.some_unblocked [OF this] obtain p where
    "p \<in> ran (cPolicies (view w))" "PendingStartupResume (Status p)" "\<not> held_back (view w) p"
    unfolding ps by (auto simp: resume_gate.blocked_iff held_back_def ps)
  then show ?thesis unfolding ran_def by blast
qed

text \<open>
  Everything a waiting policy needs but its turn: the delay has passed, nothing else is under way, its
  pre-conditions hold and its workloads can be restored.
\<close>

definition recoverable :: "nat \<Rightarrow> 'w api \<Rightarrow> (string \<Rightarrow> err + httpResponse) \<Rightarrow> ('w \<Rightarrow> cluster) \<Rightarrow> nsname \<Rightarrow> policy \<Rightarrow> 'w sys \<Rightarrow> bool" where
  "recoverable fuel a answer view k p s \<longleftrightarrow> in_charge (sysview view s) k p \<and> awaiting p \<and>
     (\<exists>t. ResumeDelayStartedAt (Status p) = Some t \<and> ResumeDelay (Spec p) \<le> resume_time a k (world s) - t) \<and>
     (\<exists>sel. selectorOf a p = Inr sel \<and> restorable fuel a p sel view s) \<and> pre_clear a answer p (sysview view s)"



subsection \<open>A command of the user comes first\<close>

lemma effect_spec: "Spec p' = Spec p \<Longrightarrow> deployment_effect p' = deployment_effect p"
  "Spec p' = Spec p \<Longrightarrow> statefulSet_effect p' = statefulSet_effect p"
  by (simp_all add: deployment_effect_def statefulSet_effect_def deployment_ops.frozen_def statefulSet_ops.frozen_def
      changed_def freezeDeployment_change_def freezeStatefulSet_change_def deploymentGrace_def statefulSetGrace_def
      fun_eq_iff split: LifecycleAction.split)

lemma served_spec:
  assumes "Spec p' = Spec p" and "policy_key p' = policy_key p"
  shows "served p' sel p'' (c\<lparr>cPolicies := m(policy_key p \<mapsto> x)\<rparr>) = served p sel p'' (c\<lparr>cPolicies := m\<rparr>)"
  by (simp add: served_def acted_def effect_spec [OF assms(1)] selected_def assms)

text \<open>A patch of the policy's status that the handler goes on with.\<close>

lemma patchAndRefetch_quiet:
  assumes q: "quiet_cluster a view" and p: "cPolicies (view w) k = Some p" and "p' = stored_policy (p\<lparr>Status := change p\<rparr>)"
  shows "result (patchAndRefetch a k change) w = Continue p'"
    and "view (final (patchAndRefetch a k change) w) = (view w)\<lparr>cPolicies := (cPolicies (view w))(k \<mapsto> p')\<rparr>"
proof -
  note up = patchStatus_quiet [OF q p quiet_keyed(1) [OF q p], of change]
  have "result (GetPolicy a k) (final (patchStatus a k change) w) = Inr p'"
    using reads_result [OF quiet_readD(1) [OF q], of "final (patchStatus a k change) w" k] up(2) assms(3) by simp
  then show "result (patchAndRefetch a k change) w = Continue p'"
    and "view (final (patchAndRefetch a k change) w) = (view w)\<lparr>cPolicies := (cPolicies (view w))(k \<mapsto> p')\<rparr>"
    using up assms(3) by (simp_all add: patchAndRefetch_def refetch_def quiet_view [OF q])
qed

text \<open>The policy with its delayed operations cancelled.\<close>

definition cancelled :: "policy \<Rightarrow> policy \<Rightarrow> bool" where
  "cancelled p p' \<longleftrightarrow> Spec p' = Spec p \<and> policy_Meta p' = policy_Meta p \<and>
     LastHandledOperationId (Status p') = LastHandledOperationId (Status p) \<and>
     beingChecked p' = beingChecked p \<and> (hasNodeFailureEvent p' \<longrightarrow> hasNodeFailureEvent p)"

lemma stored_cancelled:
  "s = (Status p)\<lparr>PendingFreeze := x, LastStartupAction := y\<rparr> \<or> s = (Status p)\<lparr>PendingStartupResume := x, LastStartupAction := y\<rparr> \<Longrightarrow>
     cancelled p (stored_policy (p\<lparr>Status := s\<rparr>))"
  by (auto simp: cancelled_def beingChecked_def hasNodeFailureEvent_def stored_status_times dest: truncated_event split: option.splits)

lemma manual_not_skipped: "manualPending p \<Longrightarrow> \<not> shouldSkipOperation p"
  by (auto simp: manualPending_def shouldSkipOperation_def)


lemma cancelled_trans: "cancelled p p1 \<Longrightarrow> cancelled p1 p2 \<Longrightarrow> cancelled p p2"
  by (auto simp: cancelled_def)

lemma cancelled_pending: "cancelled p p1 \<Longrightarrow> manualPending p1 = manualPending p"
  by (simp add: cancelled_def manualPending_def)

lemma cancel_freeze:
  assumes q: "quiet_cluster a view" and p: "cPolicies (sysview view s) k = Some p" and m: "manualPending p"
  shows "\<exists>p1 w. cancelled p p1 \<and> \<not> PendingFreeze (Status p1) \<and>
    view w = (sysview view s)\<lparr>cPolicies := (cPolicies (sysview view s))(k \<mapsto> p1)\<rparr> \<and>
    run_state (reconcileStages fuel a k p) s = run_state (reconcileStages fuel a k p1) (s\<lparr>world := w\<rparr>)"
proof (cases "PendingFreeze (Status p)")
  case False
  have "view (world s) = (sysview view s)\<lparr>cPolicies := (cPolicies (sysview view s))(k \<mapsto> p)\<rparr>"
    using p by (simp add: fun_upd_idem)
  moreover have "cancelled p p" by (simp add: cancelled_def)
  ultimately show ?thesis using False by (intro exI [of _ p] exI [of _ "world s"]) simp
next
  case True
  let ?ch = "\<lambda>l. (Status l)\<lparr>PendingFreeze := False, LastStartupAction := ''FREEZE_CANCELLED_BY_MANUAL_OVERRIDE''\<rparr>"
  let ?p1 = "stored_policy (p\<lparr>Status := ?ch p\<rparr>)" and ?w = "final (patchAndRefetch a k ?ch) (world s)"
  note pr = patchAndRefetch_quiet [OF q p refl, of ?ch]
  have c: "cancelled p ?p1" by (rule stored_cancelled) blast
  have "run_state (reconcileStages fuel a k p) s = run_state (reconcileStages fuel a k ?p1) (s\<lparr>world := ?w\<rparr>)"
    using True manual_not_skipped [OF m] pr(1) by (simp add: reconcileStages_def handlePendingFreeze_def)
  then show ?thesis using c pr(2) by (intro exI [of _ ?p1] exI [of _ ?w]) simp
qed

lemma cancel_resume:
  assumes q: "quiet_cluster a view" and p: "cPolicies (sysview view s) k = Some p" and m: "manualPending p"
    and st: "startupComplete s" and f: "\<not> PendingFreeze (Status p)" and ev: "\<not> hasNodeFailureEvent p"
  shows "\<exists>p1 w. cancelled p p1 \<and> \<not> PendingFreeze (Status p1) \<and> \<not> PendingStartupResume (Status p1) \<and>
    view w = (sysview view s)\<lparr>cPolicies := (cPolicies (sysview view s))(k \<mapsto> p1)\<rparr> \<and>
    run_state (reconcileStages fuel a k p) s = run_state (reconcileStages fuel a k p1) (s\<lparr>world := w\<rparr>)"
proof (cases "PendingStartupResume (Status p)")
  case False
  have "view (world s) = (sysview view s)\<lparr>cPolicies := (cPolicies (sysview view s))(k \<mapsto> p)\<rparr>"
    using p by (simp add: fun_upd_idem)
  moreover have "cancelled p p" by (simp add: cancelled_def)
  ultimately show ?thesis using False f by (intro exI [of _ p] exI [of _ "world s"]) simp
next
  case True
  let ?ch = "\<lambda>l. (Status l)\<lparr>PendingStartupResume := False, LastStartupAction := ''CANCELLED_BY_MANUAL_OVERRIDE''\<rparr>"
  let ?p1 = "stored_policy (p\<lparr>Status := ?ch p\<rparr>)" and ?w = "final (patchAndRefetch a k ?ch) (world s)"
  note pr = patchAndRefetch_quiet [OF q p refl, of ?ch]
  have c: "cancelled p ?p1" by (rule stored_cancelled) blast
  have "run_state (reconcileStages fuel a k p) s = run_state (reconcileStages fuel a k ?p1) (s\<lparr>world := ?w\<rparr>)"
    using True f st ev m pr(1)
    by (simp add: reconcileStages_def handlePendingFreeze_def handlePendingStartupResume_def cancelStartupResume_def)
  then show ?thesis using c f pr(2) by (intro exI [of _ ?p1] exI [of _ ?w]) simp
qed

lemma cancel_all:
  assumes q: "quiet_cluster a view" and p: "cPolicies (sysview view s) k = Some p" and m: "manualPending p"
    and st: "startupComplete s" and ev: "\<not> hasNodeFailureEvent p"
  shows "\<exists>p1 w. cancelled p p1 \<and> \<not> PendingFreeze (Status p1) \<and> \<not> PendingStartupResume (Status p1) \<and>
    view w = (sysview view s)\<lparr>cPolicies := (cPolicies (sysview view s))(k \<mapsto> p1)\<rparr> \<and>
    run_state (reconcileStages fuel a k p) s = run_state (reconcileStages fuel a k p1) (s\<lparr>world := w\<rparr>)"
proof -
  obtain p1 w where 1: "cancelled p p1" "\<not> PendingFreeze (Status p1)"
    "view w = (sysview view s)\<lparr>cPolicies := (cPolicies (sysview view s))(k \<mapsto> p1)\<rparr>"
    "run_state (reconcileStages fuel a k p) s = run_state (reconcileStages fuel a k p1) (s\<lparr>world := w\<rparr>)"
    using cancel_freeze [OF q p m] by blast
  have c1: "manualPending p1" "\<not> hasNodeFailureEvent p1"
    using 1(1) m ev cancelled_pending [OF 1(1)] by (auto simp: cancelled_def)
  obtain p2 w2 where 2: "cancelled p1 p2" "\<not> PendingFreeze (Status p2)" "\<not> PendingStartupResume (Status p2)"
    "view w2 = (sysview view s)\<lparr>cPolicies := (cPolicies (sysview view s))(k \<mapsto> p2)\<rparr>"
    "run_state (reconcileStages fuel a k p1) (s\<lparr>world := w\<rparr>) = run_state (reconcileStages fuel a k p2) (s\<lparr>world := w2\<rparr>)"
    using cancel_resume [OF q, of "s\<lparr>world := w\<rparr>" k p1 fuel] 1(2,3) c1 st by auto
  then show ?thesis using 1(4) cancelled_trans [OF 1(1)] by auto
qed



subsection \<open>Commands that fail\<close>

lemma recorded_is_skipped:
  assumes q: "quiet_cluster a view" and ic: "in_charge c k p" and i: "idle p" and op: "OperationId (Spec p) \<noteq> ''''"
    and r: "recorded ph p p'" and v: "cPolicies (sysview view s) = (cPolicies c)(k \<mapsto> p')"
  shows "result (Reconcile fuel a k) s = Return noResult None"
    and "sysview view (final (Reconcile fuel a k) s) = sysview view s"
proof -
  have "in_charge (sysview view s) k p'"
    by (rule in_charge_same [OF ic _ _ v]) (use r in \<open>simp_all add: recorded_def\<close>)
  moreover have p': "idle p'" using calm_keeps(2) [of p p'] r i by (simp add: recorded_def)
  moreover have "shouldSkipOperation p'"
    using p' r op by (simp add: shouldSkipOperation_def recorded_def idle_def settled_def beingChecked_def)
  ultimately show "result (Reconcile fuel a k) s = Return noResult None"
    and "sysview view (final (Reconcile fuel a k) s) = sysview view s"
    using reconcile_skips [OF q] by blast+
qed

lemma reconcile_no_namespace:
  assumes q: "quiet_cluster a view" and ic: "in_charge (sysview view s) k p" and i: "settled p" and sk: "\<not> shouldSkipOperation p"
    and ns: "TargetNamespace (Spec p) \<notin> cNamespaces (sysview view s)"
  shows "\<exists>p'. recorded PhaseFailed p p' \<and> result (Reconcile fuel a k) s = Return noResult None \<and>
    sysview view (final (Reconcile fuel a k) s) = (sysview view s)\<lparr>cPolicies := (cPolicies (sysview view s))(k \<mapsto> p')\<rparr>"
proof -
  note ent = reconcile_in_charge [OF q ic] and k = in_charge_key [OF q ic]
  let ?get = "GetNamespace a (TargetNamespace (Spec p))" and ?w = "entered a k (world s)"
  obtain msg where g: "result ?get ?w = Some (StatusError ReasonNotFound msg)"
    using reads_result [OF quiet_readD(8) [OF q, where ns = "TargetNamespace (Spec p)"], of ?w] ns ent(1) by auto
  have c: "cPolicies (view (final ?get ?w)) (policy_key p) = Some p"
    using k ent(1) by (simp add: quiet_view [OF q])
  note up = updateStatus_recorded [OF q c refl, where ph = PhaseFailed
      and msg = "''Target namespace '' @ [CHR 0x27] @ TargetNamespace (Spec p) @ [CHR 0x27] @ '' not found''"]
  have "run_state (Reconcile fuel a k) s = (Return noResult None, s\<lparr>world := final (updateStatus a p PhaseFailed
      (''Target namespace '' @ [CHR 0x27] @ TargetNamespace (Spec p) @ [CHR 0x27] @ '' not found'') False) (final ?get ?w)\<rparr>)"
    using i sk g up(1)
    by (simp add: ent(2) reconcileStages_def settled_def handlePendingFreeze_def handlePendingStartupResume_def
        handleNodeFailureStage_def cleanupFailedNode_def skipHandled_def checkNamespace_def returnErr_def)
  then show ?thesis using up(2) k ent(1) by (auto simp: quiet_view [OF q])
qed

text \<open>
  C34: a command for a namespace that does not exist is lost. The run marks the operation id as
  handled together with the phase Failed, so when the namespace is created later, with nothing else
  changed, the next run skips the command. The comments at the call say that the id is not set so
  that the command is retried.
\<close>

theorem missing_namespace_not_retried:
  assumes "quiet_cluster a view" and "in_charge (sysview view s) k p" and "idle p" and "manualPending p"
    and "TargetNamespace (Spec p) \<notin> cNamespaces (sysview view s)"
    and "sysview view s' = (sysview view (final (Reconcile fuel a k) s))\<lparr>cNamespaces := N\<rparr>"
  shows "(\<exists>p'. cPolicies (sysview view (final (Reconcile fuel a k) s)) k = Some p' \<and> Phase (Status p') = PhaseFailed \<and>
      LastHandledOperationId (Status p') = OperationId (Spec p)) \<and>
    result (Reconcile fuel a k) s' = Return noResult None \<and>
    sysview view (final (Reconcile fuel a k) s') = sysview view s'"
proof -
  obtain p' where p': "recorded PhaseFailed p p'"
    "sysview view (final (Reconcile fuel a k) s) = (sysview view s)\<lparr>cPolicies := (cPolicies (sysview view s))(k \<mapsto> p')\<rparr>"
    using reconcile_no_namespace [OF assms(1,2) _ manual_not_skipped [OF assms(4)] assms(5)] assms(3)
    by (auto simp: idle_def)
  moreover have "cPolicies (sysview view s') = (cPolicies (sysview view s))(k \<mapsto> p')" using p'(2) assms(6) by simp
  note recorded_is_skipped [OF assms(1-3) _ p'(1) this, of fuel]
  ultimately show ?thesis using assms(4) by (auto simp: recorded_def manualPending_def)
qed

lemma reconcile_bad_selector:
  assumes q: "quiet_cluster a view" and ic: "in_charge (sysview view s) k p" and i: "settled p" and sk: "\<not> shouldSkipOperation p"
    and ns: "TargetNamespace (Spec p) \<in> cNamespaces (sysview view s)" and sel: "selectorOf a p = Inl e"
  shows "\<exists>p'. recorded PhaseFailed p p' \<and> result (Reconcile fuel a k) s = Return noResult (Some e) \<and>
    sysview view (final (Reconcile fuel a k) s) = (sysview view s)\<lparr>cPolicies := (cPolicies (sysview view s))(k \<mapsto> p')\<rparr>"
proof -
  note ent = reconcile_in_charge [OF q ic] and k = in_charge_key [OF q ic]
  define ph where "ph = (if Action (Spec p) = LifecycleActionFreeze then PhaseFreezing else PhaseResuming)"
  obtain w where w: "view w = sysview view s" "run_state (Reconcile fuel a k) s = run_state (manualOperation fuel a p) (s\<lparr>world := w\<rparr>)"
    using stages_settled [OF q i sk, of "s\<lparr>world := entered a k (world s)\<rparr>" fuel k] ns ent by auto
  have c: "cPolicies (view w) (policy_key p) = Some p" using k w(1) by simp
  note up = updateStatus_recorded [OF q c refl, where ph = ph and msg = "''Processing request''"]
  let ?w1 = "final (updateStatus a p ph ''Processing request'' False) w"
  obtain p1 where p1: "recorded ph p p1" "view ?w1 = (view w)\<lparr>cPolicies := (cPolicies (view w))(k \<mapsto> p1)\<rparr>"
    using up(2) k(1) by auto
  have c1: "cPolicies (view ?w1) (policy_key p) = Some p1" "Spec p1 = Spec p" using p1 k(1) by (simp_all add: recorded_def)
  note up1 = updateStatus_recorded [where w = ?w1 and q = p1, OF q c1, where ph = PhaseFailed and msg = "''Failed to list deployments'' @ '': '' @ err_Error e"]
  have "listDeployments a (TargetNamespace (Spec p)) (Selector (Spec p)) = return (Inl e)"
    using sel by (auto simp: listDeployments_def selectorOf_def split: option.splits sum.splits)
  then have "run_state (manualOperation fuel a p) (s\<lparr>world := w\<rparr>) = (Return noResult (Some e), s\<lparr>world :=
      final (updateStatus a p PhaseFailed (''Failed to list deployments'' @ '': '' @ err_Error e) False) ?w1\<rparr>)"
    using up(1) by (simp add: manualOperation_def failWith_def returnErr_def flip: ph_def)
  then show ?thesis
    using up1(2) p1 w k(1) recorded_trans [OF p1(1)] by auto
qed

text \<open>
  C35: a command that fails is reported and not repeated. When the label selector of a policy is
  malformed, the run returns the error, so that the work queue runs the handler again, and records
  the phase Failed with the operation id as handled; the repeated run then changes nothing and
  reports success.
\<close>

theorem failed_command_not_repeated:
  assumes "quiet_cluster a view" and "in_charge (sysview view s) k p" and "idle p" and "manualPending p"
    and "TargetNamespace (Spec p) \<in> cNamespaces (sysview view s)" and "selectorOf a p = Inl e"
  shows "result (Reconcile fuel a k) s = Return noResult (Some e) \<and>
    cDeployments (sysview view (final (Reconcile fuel a k) s)) = cDeployments (sysview view s) \<and>
    cStatefulSets (sysview view (final (Reconcile fuel a k) s)) = cStatefulSets (sysview view s) \<and>
    (\<exists>p'. cPolicies (sysview view (final (Reconcile fuel a k) s)) k = Some p' \<and> Phase (Status p') = PhaseFailed) \<and>
    result (Reconcile fuel a k) (final (Reconcile fuel a k) s) = Return noResult None \<and>
    sysview view (final (Reconcile fuel a k) (final (Reconcile fuel a k) s)) = sysview view (final (Reconcile fuel a k) s)"
proof -
  obtain p' where p': "recorded PhaseFailed p p'" "result (Reconcile fuel a k) s = Return noResult (Some e)"
    "sysview view (final (Reconcile fuel a k) s) = (sysview view s)\<lparr>cPolicies := (cPolicies (sysview view s))(k \<mapsto> p')\<rparr>"
    using reconcile_bad_selector [OF assms(1,2) _ manual_not_skipped [OF assms(4)] assms(5,6)] assms(3)
    by (auto simp: idle_def)
  moreover have "cPolicies (sysview view (final (Reconcile fuel a k) s)) = (cPolicies (sysview view s))(k \<mapsto> p')"
    using p'(3) by simp
  note recorded_is_skipped [OF assms(1-3) _ p'(1) this, of fuel]
  ultimately show ?thesis using assms(4) by (auto simp: recorded_def manualPending_def)
qed


text \<open>
  C36: the outcome of a startup check is lost. The handler sets \<open>Checking\<close> back to false on its own
  copy of the policy once the pre-conditions hold, but does not write it: after the resume the stored
  policy is in phase Resumed and still says that pre-conditions are being checked, so its operation
  id does not count as handled and the handler does not skip the policy in later runs.
\<close>

theorem stale_check_after_resume:
  assumes "quiet_cluster a view" and "due a view k p s" and "selectorOf a p = Inr sel"
    and "pre_clear a answer p (sysview view s)" and "restorable fuel a p sel view s" and "beingChecked p"
  shows "\<exists>p'. cPolicies (sysview view (final (Reconcile fuel a k) s)) k = Some p' \<and> Phase (Status p') = PhaseResumed \<and>
    beingChecked p' \<and> \<not> shouldSkipOperation p'"
proof -
  obtain p' ps where p': "resumed_policy p p'" "sysview view (final (Reconcile fuel a k) s) =
      (acted deployment_ops.resumed statefulSet_ops.resumed (selected p sel (cDeployments (sysview view s)))
        (selected p sel (cStatefulSets (sysview view s))) k p' (sysview view s))\<lparr>cPods := ps\<rparr>"
    using executed_due [OF assms(1-5)] by blast
  moreover have "beingChecked p'" using p'(1) assms(6) by (simp add: resumed_policy_def)
  moreover have "\<not> shouldSkipOperation p'"
    using calculation(3) by (auto simp: shouldSkipOperation_def beingChecked_def)
  ultimately show ?thesis by (simp add: acted_def resumed_policy_def)
qed

subsection \<open>A freeze after a delay\<close>

text \<open>The time that the handler reads for the freeze delay.\<close>

definition freeze_time :: "'w api \<Rightarrow> nsname \<Rightarrow> 'w \<Rightarrow> time" where
  "freeze_time a k w = result (Now a) (entered a k w)"

lemma freezeNow_quiet:
  assumes q: "quiet_cluster a view" and ds: "deployments.listed (view w) ds" and ss: "statefulSets.listed (view w) ss"
  shows "view (final (freezeNow a p ds ss) w) = (view w)\<lparr>
    cDeployments := on_keys (deployment_ops.frozen (Some p)) (workload_key ` set ds) (cDeployments (view w)),
    cStatefulSets := on_keys (statefulSet_ops.frozen (Some p)) (workload_key ` set ss) (cStatefulSets (view w))\<rparr>"
proof -
  let ?w1 = "final (for_each ds (\<lambda>d. freezeDeployment a d (Some p))) w"
  note l1 = deployment_ops.freeze_loop(3) [OF q ds, of "Some p"]
  have "statefulSets.listed (view ?w1) ss" using ss by (simp add: l1 statefulSets.listed_def)
  note l2 = statefulSet_ops.freeze_loop(3) [OF q this, of "Some p"]
  show ?thesis by (simp add: freezeNow_def l1 l2)
qed

lemma executeDelayedFreeze_quiet:
  assumes q: "quiet_cluster a view" and p: "cPolicies (view w) (policy_key p) = Some p" and sel: "selectorOf a p = Inr sel"
  shows "\<exists>p'. result (executeDelayedFreeze a p) w = Return noResult None \<and>
    view (final (executeDelayedFreeze a p) w) = acted (deployment_ops.frozen (Some p)) (statefulSet_ops.frozen (Some p))
      (selected p sel (cDeployments (view w))) (selected p sel (cStatefulSets (view w))) (policy_key p) p' (view w) \<and>
    Spec p' = Spec p \<and> Phase (Status p') = PhaseFrozen \<and> \<not> PendingFreeze (Status p') \<and>
    LastHandledOperationId (Status p') = LastHandledOperationId (Status p)"
proof -
  let ?w1 = "final (listWorkloads a p) w"
  obtain ds ss where l: "result (listWorkloads a p) w = Inr (ds, ss)"
    "deployments.listed (view w) ds" "workload_key ` set ds = selected p sel (cDeployments (view w))"
    "statefulSets.listed (view w) ss" "workload_key ` set ss = selected p sel (cStatefulSets (view w))"
    using listWorkloads_quiet(1) [OF q sel, of w] by blast
  have v1: "view ?w1 = view w" by (rule listWorkloads_quiet(2) [OF q sel])
  let ?w2 = "final (freezeNow a p ds ss) ?w1"
  note v2 = freezeNow_quiet [OF q, of ?w1 ds ss p, unfolded v1, OF l(2,4), unfolded l(3,5)]
  let ?w3 = "final (Now a) ?w2" and ?now = "result (Now a) ?w2"
  have c: "cPolicies (view ?w3) (policy_key p) = Some p" using p v2 by (simp add: quiet_view [OF q])
  note up = updateLatestStatus_quiet [OF q c refl, of "delayedFreezeStatus ds ss ?now"]
  have "run_state (executeDelayedFreeze a p) w = (Return noResult None,
      final (updateLatestStatus a (policy_key p) (delayedFreezeStatus ds ss ?now)) ?w3)"
    using l(1) up(1) by (simp add: executeDelayedFreeze_def returnErr_def)
  then show ?thesis
    using up(2) by (intro exI [of _ "stored_policy (p\<lparr>Status := delayedFreezeStatus ds ss ?now p\<rparr>)"])
      (simp add: quiet_view [OF q] v2 acted_def, simp add: delayedFreezeStatus_def)
qed


subsection \<open>A node failure\<close>

lemma stampStatus_writes:
  assumes q: "quiet_cluster a view" and p: "cPolicies (view w) k = Some p" and look: "looks view stamp"
    and put: "\<And>st v. cPolicies (view v) k = Some p \<Longrightarrow> result (put (p\<lparr>Status := st\<rparr>) p) v = None \<and>
      view (final (put (p\<lparr>Status := st\<rparr>) p) v) =
        (view v)\<lparr>cPolicies := (cPolicies (view v))(k \<mapsto> stored_policy (p\<lparr>Status := st\<rparr>))\<rparr>"
  shows "result (stampStatus a k stamp change put) w = None"
    and "\<exists>t. view (final (stampStatus a k stamp change put) w) =
      (view w)\<lparr>cPolicies := (cPolicies (view w))(k \<mapsto> stored_policy (p\<lparr>Status := change t p\<rparr>))\<rparr>"
proof -
  let ?f = "do { r \<leftarrow> GetPolicy a k;
      (case r of Inl e \<Rightarrow> return (Some e)
       | Inr latest \<Rightarrow> do { now \<leftarrow> stamp; put (latest\<lparr>Status := change now latest\<rparr>) latest }) }"
  let ?w1 = "final (GetPolicy a k) w" and ?t = "result stamp (final (GetPolicy a k) w)"
  have g: "result (GetPolicy a k) w = Inr p"
    using reads_result [OF quiet_readD(1) [OF q], of w k] p by simp
  have v: "view (final stamp ?w1) = view w" by (simp add: looks_final [OF look] quiet_view [OF q])
  have ok: "result ?f w = None \<and> view (final ?f w) =
      (view w)\<lparr>cPolicies := (cPolicies (view w))(k \<mapsto> stored_policy (p\<lparr>Status := change ?t p\<rparr>))\<rparr>"
    using put [of "final stamp ?w1" "change ?t p"] g v p by simp
  moreover from this have "run_state (RetryOnConflict a ?f) w = run_state ?f w"
    by (intro retry_run [OF quiet_retry [OF q]]) auto
  ultimately show "result (stampStatus a k stamp change put) w = None"
    and "\<exists>t. view (final (stampStatus a k stamp change put) w) =
      (view w)\<lparr>cPolicies := (cPolicies (view w))(k \<mapsto> stored_policy (p\<lparr>Status := change t p\<rparr>))\<rparr>"
    unfolding stampStatus_def by auto
qed

lemma stampStatus_quiet:
  assumes q: "quiet_cluster a view" and p: "cPolicies (view w) k = Some p" and look: "looks view stamp"
  shows "result (stampStatus a k stamp change (PatchPolicyStatus a)) w = None"
    and "\<exists>t. view (final (stampStatus a k stamp change (PatchPolicyStatus a)) w) =
      (view w)\<lparr>cPolicies := (cPolicies (view w))(k \<mapsto> stored_policy (p\<lparr>Status := change t p\<rparr>))\<rparr>"
proof -
  have "policy_key p = k" by (rule quiet_keyed(1) [OF q p])
  then have "result (PatchPolicyStatus a (p\<lparr>Status := st\<rparr>) p) v = None \<and> view (final (PatchPolicyStatus a (p\<lparr>Status := st\<rparr>) p) v) =
      (view v)\<lparr>cPolicies := (cPolicies (view v))(k \<mapsto> stored_policy (p\<lparr>Status := st\<rparr>))\<rparr>"
    if "cPolicies (view v) k = Some p" for st v
    using writes_ok [OF quiet_writeD(1) [OF q, of "p\<lparr>Status := st\<rparr>" p], of v] that by simp
  note wr = stampStatus_writes [where put = "PatchPolicyStatus a", OF q p look this]
  show "result (stampStatus a k stamp change (PatchPolicyStatus a)) w = None" by (rule wr(1))
  show "\<exists>t. view (final (stampStatus a k stamp change (PatchPolicyStatus a)) w) =
      (view w)\<lparr>cPolicies := (cPolicies (view w))(k \<mapsto> stored_policy (p\<lparr>Status := change t p\<rparr>))\<rparr>" by (rule wr(2))
qed

text \<open>The time that the handler reads when it has dealt with the failure.\<close>

definition failure_time :: "'w api \<Rightarrow> nsname \<Rightarrow> policy \<Rightarrow> 'w \<Rightarrow> time" where
  "failure_time a k p w = result (Now a) (final (handleNodeFailureEvent a p) (entered a k w))"

lemma later_handled: "t \<le> u \<Longrightarrow> \<not> unhandledEvent (truncate_time (Some t)) (truncate_time (Some u))"
  using truncated_event [of "Some t" "Some u"] by (auto simp: unhandledEvent_def afterOpt_def truncate_time_def)

lemma nodeFailureStatus_awaiting:
  assumes "hasNodeFailureEvent p" and "\<not> PendingFreeze (Status p)" and "NodeFailureEventDetectedAt (Status p) = Some t" and "t \<le> now"
  shows "awaiting (stored_policy (p\<lparr>Status := nodeFailureStatus now aff c p\<rparr>))"
    and "ResumeDelayStartedAt (Status (stored_policy (p\<lparr>Status := nodeFailureStatus now aff c p\<rparr>))) = truncate_time (Some now)"
  using assms later_handled [of t now]
  by (auto simp: awaiting_def nodeFailureStatus_def hasNodeFailureEvent_def manualPending_def stored_status_times Let_def)

lemma node_failure_run:
  assumes "quiet_cluster a view" and "in_charge (sysview view s) k p" and "hasNodeFailureEvent p"
    and "\<not> PendingFreeze (Status p)" and "\<not> PendingStartupResume (Status p)"
    and "NodeFailureEventDetectedAt (Status p) = Some t" and "t \<le> failure_time a k p (world s)"
    and "result (handleNodeFailureEvent a p) (entered a k (world s)) = Inr aff"
  shows "\<exists>p'. result (Reconcile fuel a k) s = Return requeueNow None \<and>
    sysview view (final (Reconcile fuel a k) s) =
      (view (final (handleNodeFailureEvent a p) (entered a k (world s))))\<lparr>cPolicies := (cPolicies (sysview view s))(k \<mapsto> p')\<rparr> \<and>
    Spec p' = Spec p \<and> awaiting p' \<and> AffectedWorkloads (Status p') = aff \<and>
    ResumeDelayStartedAt (Status p') = truncate_time (Some (failure_time a k p (world s)))"
proof -
  note ent = reconcile_in_charge [OF assms(1,2)] and k = in_charge_key [OF assms(1,2)]
  let ?w1 = "final (handleNodeFailureEvent a p) (entered a k (world s))" and ?now = "failure_time a k p (world s)"
  let ?w2 = "final (Now a) ?w1" and ?stamp = "if length aff > 0 then Now a else return ?now"
  have m2: "cPolicies (view ?w2) = cPolicies (sysview view s)"
    using handleNodeFailureEvent_policies [OF assms(1)] by (simp add: quiet_view [OF assms(1)] ent(1))
  then have c: "cPolicies (view ?w2) k = Some p" using k(2) by simp
  have "looks view ?stamp" by (simp add: looks_calls [OF assms(1)] looks_return)
  note st = stampStatus_quiet [OF assms(1) c this, of "nodeFailureStatus ?now aff"]
  have "run_state (handleNodeFailureStage a k p) (entered a k (world s)) = (Return requeueNow None,
      final (stampStatus a k ?stamp (nodeFailureStatus ?now aff) (PatchPolicyStatus a)) ?w2)"
    using assms(3,8) st(1) by (simp add: handleNodeFailureStage_def failure_time_def split del: if_split cong: if_cong)
  then have "run_state (Reconcile fuel a k) s = (Return requeueNow None, s\<lparr>world :=
      final (stampStatus a k ?stamp (nodeFailureStatus ?now aff) (PatchPolicyStatus a)) ?w2\<rparr>)"
    using assms(4,5) by (simp add: ent(2) reconcileStages_def handlePendingFreeze_def handlePendingStartupResume_def split del: if_split)
  moreover obtain ct where "view (final (stampStatus a k ?stamp (nodeFailureStatus ?now aff) (PatchPolicyStatus a)) ?w2) =
      (view ?w1)\<lparr>cPolicies := (cPolicies (sysview view s))(k \<mapsto> stored_policy (p\<lparr>Status := nodeFailureStatus ?now aff ct p\<rparr>))\<rparr>"
    using st(2) m2 by (auto simp: quiet_view [OF assms(1)])
  moreover have "AffectedWorkloads (nodeFailureStatus ?now aff ct p) = aff" for ct
    by (simp add: nodeFailureStatus_def Let_def)
  ultimately show ?thesis
    using nodeFailureStatus_awaiting [OF assms(3,4,6,7)]
    by (intro exI [of _ "stored_policy (p\<lparr>Status := nodeFailureStatus ?now aff ct p\<rparr>)"]) simp
qed

text \<open>
  C9: a node failure ends in a recovery. When the handler finds a failure that was reported and not
  yet handled, and the search for affected workloads succeeds, the stored policy waits for the
  operator's resume afterwards: the failure counts as handled, a command given before it as
  served, the delay has started, and the run asks to be repeated at once.
\<close>

theorem node_failure_hands_over:
  assumes "quiet_cluster a view" and "in_charge (sysview view s) k p" and "hasNodeFailureEvent p"
    and "\<not> PendingFreeze (Status p)" and "\<not> PendingStartupResume (Status p)"
    and "NodeFailureEventDetectedAt (Status p) = Some t" and "t \<le> failure_time a k p (world s)"
    and "result (handleNodeFailureEvent a p) (entered a k (world s)) = Inr aff"
  shows "\<exists>p'. result (Reconcile fuel a k) s = Return requeueNow None \<and>
    cPolicies (sysview view (final (Reconcile fuel a k) s)) = (cPolicies (sysview view s))(k \<mapsto> p') \<and>
    Spec p' = Spec p \<and> awaiting p' \<and> AffectedWorkloads (Status p') = aff \<and>
    ResumeDelayStartedAt (Status p') = truncate_time (Some (failure_time a k p (world s)))"
  using node_failure_run [OF assms, of fuel] by auto

subsection \<open>Counts through a node failure\<close>

context workload_kind
begin

text \<open>A freeze with any copy of a workload acts on the stored one.\<close>

lemma freeze_any:
  assumes q: "quiet_cluster a view"
  shows "view (final (freezeObj a d p) w) = put (on_keys (frozen p) {workload_key d} (obj (view w))) (view w)"
proof (cases "obj (view w) (workload_key d)")
  case None
  then have "on_keys (frozen p) {workload_key d} (obj (view w)) = obj (view w)" by (auto intro!: on_keys_id)
  then show ?thesis
    using getModifyWrite_missing(2) [where obj = "\<lambda>c. obj c (workload_key d)", OF quiet_retry [OF q] get_reads [OF q] None]
    by (simp add: freezeObj_eq put_obj)
next
  case (Some x)
  have k: "workload_key x = workload_key d" by (rule quiet_key [OF q Some])
  then have "freezeObj a d p = freezeObj a x p" by (simp add: freezeObj_eq)
  moreover have "on_keys (frozen p) {workload_key d} (obj (view w)) = (obj (view w))(workload_key d \<mapsto> frozen p x)"
    using Some by (auto simp: on_keys_def)
  ultimately show ?thesis
    using freeze_acts(1) [OF q, of p x] Some k by (simp add: acts_def)
qed

lemma freeze_each_any:
  assumes q: "quiet_cluster a view"
  shows "view (final (for_each ds (\<lambda>d. freezeObj a d p)) w) =
    put (on_keys (frozen p) (workload_key ` set ds) (obj (view w))) (view w)"
proof (induction ds arbitrary: w)
  case Nil
  show ?case by (simp add: put_obj)
next
  case (Cons d ds)
  have "on_keys (frozen p) K (on_keys (frozen p) {k} m) = on_keys (frozen p) (insert k K) m" for K k and m :: "nsname \<rightharpoonup> workload"
    by (auto simp: on_keys_def fun_eq_iff option.map_comp comp_def frozen_idem)
  then show ?case using Cons.IH [of "final (freezeObj a d p) w"] by (simp add: freeze_any [OF q] obj_put put_put)
qed

text \<open>Freezing keeps the count a workload is meant to have; resuming makes it run that many.\<close>

lemma frozen_tidy:
  assumes "tidy d"
  shows "tidy (frozen p d)" and "intended (scale_of (frozen p d)) = intended (scale_of d)"
  using assms frozen_scale [of d p] serve_intended [of "scale_of d" LifecycleActionFreeze]
  by (simp_all add: tidy_def serve_def)

lemma resumed_tidy:
  assumes "tidy d"
  shows "scale_of (resumed d) = \<lparr>running = intended (scale_of d), saved = None\<rparr>"
  using assms resumed_scale(1) [of d] by (cases "saved (scale_of d)") (auto simp: tidy_def scale_up_def intended_def)

end

context workload_kind
begin

lemma restored_counts:
  assumes "\<And>d. d \<in> ran m \<Longrightarrow> tidy d" and "j \<in> S"
  shows "scales (on_keys resumed S (on_keys (frozen p) K m)) j =
    map_option (\<lambda>n. \<lparr>running = n, saved = None\<rparr>) (wanted m j)"
proof (cases "m j")
  case (Some d)
  have d: "tidy d" using assms(1) ranI [of m j d] Some by blast
  show ?thesis
    using Some assms(2) resumed_tidy [OF d] resumed_tidy [OF frozen_tidy(1) [OF d]] frozen_tidy(2) [OF d]
    by (simp add: scales_def on_keys_def wanted_def)
qed (simp add: scales_def on_keys_def wanted_def)

lemma frozen_map_tidy:
  "(\<And>d. d \<in> ran m \<Longrightarrow> tidy d) \<Longrightarrow> d \<in> ran (on_keys (frozen p) K m) \<Longrightarrow> tidy d"
  using frozen_tidy(1) by (auto dest!: ran_on_keys)

end

lemma tidy_readable: "tidy d \<Longrightarrow> count_annotation d \<noteq> Some (Inl e)"
  by (auto simp: tidy_def well_scaled_def)

lemma handleNodeFailureEvent_freezes:
  assumes q: "quiet_cluster a view"
  shows "\<exists>K L ps. view (final (handleNodeFailureEvent a p) w) = (view w)\<lparr>cPods := ps,
    cDeployments := on_keys (deployment_ops.frozen None) K (cDeployments (view w)),
    cStatefulSets := on_keys (statefulSet_ops.frozen None) L (cStatefulSets (view w))\<rparr>"
proof -
  let ?f = "FailedNodeName (Status p)"
  let ?w1 = "final (forceDeleteTerminatingPods a p ?f) w"
  let ?w2 = "final (findFullyLocalWorkloads a p ?f) ?w1"
  obtain ps where v1: "view ?w1 = (view w)\<lparr>cPods := ps\<rparr>" using forceDelete_quiet [OF q] by blast
  have v2: "view ?w2 = (view w)\<lparr>cPods := ps\<rparr>" using looks_final [OF looks_findFullyLocal [OF q]] v1 by simp
  have none: "(view w)\<lparr>cPods := ps\<rparr> = (view w)\<lparr>cPods := ps, cDeployments := on_keys (deployment_ops.frozen None) {} (cDeployments (view w)),
    cStatefulSets := on_keys (statefulSet_ops.frozen None) {} (cStatefulSets (view w))\<rparr>" by simp
  show ?thesis
  proof (cases "Phase (Status p) \<noteq> PhaseFrozen \<and> (\<exists>ds ss. result (findFullyLocalWorkloads a p ?f) ?w1 = Inr (ds, ss))")
    case True
    then obtain ds ss where r: "Phase (Status p) \<noteq> PhaseFrozen" "result (findFullyLocalWorkloads a p ?f) ?w1 = Inr (ds, ss)" by blast
    have "view (final (handleNodeFailureEvent a p) w) = (view w)\<lparr>cPods := ps,
      cDeployments := on_keys (deployment_ops.frozen None) (workload_key ` set ds) (cDeployments (view w)),
      cStatefulSets := on_keys (statefulSet_ops.frozen None) (workload_key ` set ss) (cStatefulSets (view w))\<rparr>"
      using r by (simp add: handleNodeFailureEvent_def scaleDownLoop_final deployment_ops.freeze_each_any [OF q]
          statefulSet_ops.freeze_each_any [OF q] v2)
    then show ?thesis by blast
  next
    case False
    then have "view (final (handleNodeFailureEvent a p) w) = (view w)\<lparr>cPods := ps\<rparr>"
      using v1 v2 by (cases "result (findFullyLocalWorkloads a p ?f) ?w1") (auto simp: handleNodeFailureEvent_def)
    then show ?thesis using none by metis
  qed
qed

subsection \<open>Concrete clusters\<close>

definition waiting_since :: "time \<Rightarrow> policy \<Rightarrow> policy" where
  "waiting_since t p = p\<lparr>Status := empty_status\<lparr>PendingStartupResume := True, ResumeDelayStartedAt := Some t,
     LastHandledOperationId := ''op-1''\<rparr>\<rparr>"

definition waiting_sys :: "policy \<Rightarrow> mem sys" where
  "waiting_sys p = throttled_sys\<lparr>world := sample_mem\<lparr>mPolicies := [p], mDeployments := [frozen_web]\<rparr>\<rparr>"

lemma waiting_view:
  "policy_key p = (''ops'', ''p'') \<Longrightarrow> cPolicies (sysview mem_view (waiting_sys p)) = [(''ops'', ''p'') \<mapsto> p]"
  "cDeployments (sysview mem_view (waiting_sys p)) = [(''shop'', ''web'') \<mapsto> frozen_web]"
  "cStatefulSets (sysview mem_view (waiting_sys p)) = [(''shop'', ''db'') \<mapsto> sample_workload ''db'' 2]"
  "cNamespaces (sysview mem_view (waiting_sys p)) = {''shop''}" "startupComplete (waiting_sys p)"
  by (auto simp: waiting_sys_def throttled_sys_def mem_view_def lookup_key_def by_key_def frozen_web_def sample_defs key_defs fun_eq_iff)

lemma waiting_keys: "policy_key (waiting_since t (sample_policy ''p'')) = (''ops'', ''p'')"
  by (simp add: waiting_since_def sample_defs key_defs)

lemma waiting_in_charge:
  "policy_key p = (''ops'', ''p'') \<Longrightarrow> in_charge (sysview mem_view (waiting_sys p)) (''ops'', ''p'') p"
  by (simp add: in_charge_def waiting_view)

lemma waiting_time: "resume_time mem_api k (world (waiting_sys p)) = 1000 * Second"
  by (simp add: resume_time_def entered_def waiting_sys_def mem_ops sample_mem_def)

lemma waiting_awaiting: "OperationId (Spec p) = ''op-1'' \<Longrightarrow> awaiting (waiting_since t p)"
  by (simp add: awaiting_def waiting_since_def hasNodeFailureEvent_def manualPending_def unhandledEvent_def empty_status_def)


lemma waiting_due:
  assumes "policy_key p = (''ops'', ''p'')" and "OperationId (Spec p) = ''op-1''" and "ResumeDelay (Spec p) = 0"
  shows "due mem_api mem_view (''ops'', ''p'') (waiting_since 0 p) (waiting_sys (waiting_since 0 p))"
proof -
  have k: "policy_key (waiting_since 0 p) = (''ops'', ''p'')" using assms(1) by (simp add: waiting_since_def)
  have "\<not> held_back (sysview mem_view (waiting_sys (waiting_since 0 p))) (waiting_since 0 p)"
    by (simp add: held_back_def waiting_view(1) [OF k])
  moreover have "ResumeDelayStartedAt (Status (waiting_since 0 p)) = Some 0" "Spec (waiting_since 0 p) = Spec p"
    by (simp_all add: waiting_since_def)
  ultimately show ?thesis
    using waiting_in_charge [OF k] waiting_awaiting [OF assms(2)] waiting_view(5) assms(3)
    unfolding due_def waiting_time by (auto simp: Second_def)
qed

lemma waiting_restorable:
  "AdaptiveThrottling (Spec p) = None \<Longrightarrow> restorable 1 mem_api p None mem_view (waiting_sys q)"
proof -
  have "count_annotation frozen_web = Some (Atoi ''3'')" by (simp add: count_annotation_def frozen_web_def sample_workload_def)
  moreover have "Atoi ''3'' = Inr 3" by (simp add: ParseInt_def ParseUint_def digit_val_def)
  ultimately show "AdaptiveThrottling (Spec p) = None \<Longrightarrow> restorable 1 mem_api p None mem_view (waiting_sys q)"
    by (simp add: restorable_def throttle_ready_def waiting_view(2,3)) (simp add: count_annotation_def sample_defs)
qed

theorem startup_resume_completes_witness:
  "\<exists>p'. resumed_policy (waiting_since 0 (sample_policy ''p'')) p' \<and>
    cPolicies (sysview mem_view (final (Reconcile 1 mem_api (''ops'', ''p'')) (waiting_sys (waiting_since 0 (sample_policy ''p'')))))
      (''ops'', ''p'') = Some p'"
proof -
  let ?p = "waiting_since 0 (sample_policy ''p'')"
  have d: "due mem_api mem_view (''ops'', ''p'') ?p (waiting_sys ?p)" by (rule waiting_due) (simp_all add: sample_defs key_defs)
  have s: "Spec ?p = sample_spec" by (simp add: waiting_since_def sample_policy_def)
  have "selectorOf mem_api ?p = Inr None" "pre_clear mem_api ok_answer ?p (sysview mem_view (waiting_sys ?p))"
    "restorable 1 mem_api ?p None mem_view (waiting_sys ?p)"
    using s waiting_restorable by (simp_all add: selectorOf_def pre_clear_def preConditionsOn_def sample_spec_def)
  from startup_resume_completes [OF mem_quiet d this] show ?thesis by (auto simp: acted_def)
qed


theorem startup_resume_gated_witness:
  "result (Reconcile 1 mem_api (''ops'', ''p'')) (waiting_sys (waiting_since 0 (gated_policy ''shop.app''))) =
     Return (requeueAfter (5 * Second)) None"
proof -
  let ?p = "waiting_since 0 (gated_policy ''shop.app'')"
  have s: "Spec ?p = Spec (gated_policy ''shop.app'')" by (simp add: waiting_since_def)
  have d: "due mem_api mem_view (''ops'', ''p'') ?p (waiting_sys ?p)"
    by (rule waiting_due) (simp_all add: gated_policy_def sample_defs key_defs)
  have "\<not> app_ready (sysview mem_view (waiting_sys ?p)) ''shop.app''"
  proof -
    have "result (checkAppReadiness mem_api ''shop.app'') (world (waiting_sys ?p)) = Inr False"
      by (simp add: checkAppReadiness_def statefulSetReady_def waiting_sys_def frozen_web_def mem_eval sample_defs key_defs)
    moreover have "dotted ''shop.app''" by (simp add: dotted_def)
    ultimately show ?thesis using checkAppReadiness_quiet(2) [OF mem_quiet, of "''shop.app''" "world (waiting_sys ?p)"] by simp
  qed
  then have "\<not> pre_met ok_answer (sample_pre ''shop.app'') (sysview mem_view (waiting_sys ?p))"
    by (simp add: pre_met_def sample_pre_def)
  moreover have "selectorOf mem_api ?p = Inr None" "preConditionsOn ?p = Some (sample_pre ''shop.app'')"
    unfolding selectorOf_def preConditionsOn_def s by (simp_all add: gated_policy_def sample_spec_def sample_pre_def)
  moreover have "checkable mem_api ok_answer (sample_pre ''shop.app'')"
    by (rule gated_checkable) (simp add: dotted_def)
  ultimately show ?thesis
    using startup_resume_gated [OF mem_quiet d, of None "sample_pre ''shop.app''" ok_answer 1] by (auto simp: sample_pre_def)
qed

lemma pending_keys_single:
  "cPolicies c = [k \<mapsto> p] \<Longrightarrow> pending_keys c = (if PendingStartupResume (Status p) then {k} else {})"
  by (auto simp: pending_keys_def)



definition lost_sys :: "mem sys" where
  "lost_sys = command_sys\<lparr>world := sample_mem\<lparr>mNamespaces := []\<rparr>\<rparr>"

lemma command_in_charge: "in_charge (sysview mem_view command_sys) (''ops'', ''p'') (sample_policy ''p'')"
  using command_commanded by (simp add: commanded_def)

lemma command_manual: "manualPending (sample_policy ''p'')"
  by (simp add: manualPending_def sample_defs)

theorem missing_namespace_not_retried_witness:
  "\<exists>s'. ''shop'' \<in> cNamespaces (sysview mem_view s') \<and>
    cDeployments (sysview mem_view (final (Reconcile 1 mem_api (''ops'', ''p'')) s')) (''shop'', ''web'') = Some (sample_workload ''web'' 3)"
proof -
  let ?k = "(''ops'', ''p'')" and ?p = "sample_policy ''p''"
  let ?s1 = "final (Reconcile 1 mem_api ?k) lost_sys"
  let ?s2 = "?s1\<lparr>world := (world ?s1)\<lparr>mNamespaces := [''shop'']\<rparr>\<rparr>"
  have lv: "sysview mem_view lost_sys = (sysview mem_view command_sys)\<lparr>cNamespaces := {}\<rparr>"
    by (simp add: lost_sys_def command_sys_def mem_view_def sample_mem_def)
  have ic: "in_charge (sysview mem_view lost_sys) ?k ?p" and ns: "TargetNamespace (Spec ?p) \<notin> cNamespaces (sysview mem_view lost_sys)"
    using command_in_charge unfolding lv by (simp_all add: in_charge_def)
  have v2: "sysview mem_view ?s2 = (sysview mem_view ?s1)\<lparr>cNamespaces := {''shop''}\<rparr>"
    by (simp add: mem_view_def)
  note th = missing_namespace_not_retried [OF mem_quiet ic command_idle command_manual ns v2]
  have sk: "\<not> shouldSkipOperation ?p" by (rule manual_not_skipped [OF command_manual])
  have "settled ?p" using command_idle by (simp add: idle_def)
  then have "cDeployments (sysview mem_view ?s1) = cDeployments (sysview mem_view lost_sys)"
    using reconcile_no_namespace [OF mem_quiet ic _ sk ns, of 1] by auto
  moreover have e: "sysview mem_view (final (Reconcile 1 mem_api ?k) ?s2) = sysview mem_view ?s2" using th by blast
  ultimately have "cDeployments (sysview mem_view (final (Reconcile 1 mem_api ?k) ?s2)) (''shop'', ''web'') = Some (sample_workload ''web'' 3)"
    unfolding e v2 by (simp add: lv command_view)
  moreover have "''shop'' \<in> cNamespaces (sysview mem_view ?s2)" unfolding v2 by simp
  ultimately show ?thesis by blast
qed

definition bad_selector :: labelSelector where
  "bad_selector = \<lparr>MatchLabels = [], MatchExpressions = [(''app'', ''Near'', [''web''])]\<rparr>"

theorem failed_command_not_repeated_witness:
  "result (Reconcile 1 mem_api (''ops'', ''p'')) (waiting_sys ((sample_policy ''p'')\<lparr>Spec := sample_spec\<lparr>Selector := Some bad_selector\<rparr>\<rparr>)) =
     Return noResult (Some (Errorf ''unsupported''))"
proof -
  let ?p = "(sample_policy ''p'')\<lparr>Spec := sample_spec\<lparr>Selector := Some bad_selector\<rparr>\<rparr>" and ?k = "(''ops'', ''p'')"
  have k: "policy_key ?p = ?k" by (simp add: sample_defs key_defs)
  have "idle ?p" "manualPending ?p" "TargetNamespace (Spec ?p) \<in> cNamespaces (sysview mem_view (waiting_sys ?p))"
    "selectorOf mem_api ?p = Inl (Errorf ''unsupported'')"
    by (simp_all add: idle_def settled_def hasNodeFailureEvent_def beingChecked_def unhandledEvent_def manualPending_def
        waiting_view(4) selectorOf_def bad_selector_def mem_ops sample_defs)
  then show ?thesis
    using failed_command_not_repeated [OF mem_quiet waiting_in_charge [OF k], of "Errorf ''unsupported''" 1] by blast
qed


definition checked_policy :: policy where
  "checked_policy = (waiting_since 0 (sample_policy ''p''))\<lparr>Status := (Status (waiting_since 0 (sample_policy ''p'')))
     \<lparr>PreConditionsStatus := Some (preStatus True 0 False ''x'')\<rparr>\<rparr>"

theorem stale_check_after_resume_witness:
  "\<exists>p'. cPolicies (sysview mem_view (final (Reconcile 1 mem_api (''ops'', ''p'')) (waiting_sys checked_policy))) (''ops'', ''p'') = Some p' \<and>
     Phase (Status p') = PhaseResumed \<and> beingChecked p'"
proof -
  have k: "policy_key checked_policy = (''ops'', ''p'')" and s: "Spec checked_policy = sample_spec"
    by (simp_all add: checked_policy_def waiting_since_def sample_defs key_defs)
  have "awaiting checked_policy" "beingChecked checked_policy" "ResumeDelayStartedAt (Status checked_policy) = Some 0"
    by (simp_all add: checked_policy_def waiting_since_def awaiting_def hasNodeFailureEvent_def manualPending_def unhandledEvent_def
        beingChecked_def preStatus_def sample_defs)
  moreover have "\<not> held_back (sysview mem_view (waiting_sys checked_policy)) checked_policy"
    by (simp add: held_back_def waiting_view(1) [OF k])
  ultimately have d: "due mem_api mem_view (''ops'', ''p'') checked_policy (waiting_sys checked_policy)"
    using waiting_in_charge [OF k] waiting_view(5) unfolding due_def waiting_time s
    by (auto simp: Second_def sample_spec_def)
  have "selectorOf mem_api checked_policy = Inr None" "pre_clear mem_api ok_answer checked_policy (sysview mem_view (waiting_sys checked_policy))"
    "restorable 1 mem_api checked_policy None mem_view (waiting_sys checked_policy)"
    using waiting_restorable by (simp_all add: selectorOf_def pre_clear_def preConditionsOn_def s sample_spec_def)
  from stale_check_after_resume [OF mem_quiet d this \<open>beingChecked checked_policy\<close>] show ?thesis by blast
qed

definition freezing_policy :: policy where
  "freezing_policy = (sample_policy ''p'')\<lparr>Status := empty_status\<lparr>PendingFreeze := True, FreezeDelayStartedAt := Some 0,
     LastHandledOperationId := ''op-1''\<rparr>\<rparr>"


definition failing_policy :: policy where
  "failing_policy = (sample_policy ''p'')\<lparr>Spec := sample_spec\<lparr>HandleNodeFailure := True\<rparr>,
     Status := empty_status\<lparr>Phase := PhaseFrozen, FailedNodeName := ''n1'', NodeFailureEventDetectedAt := Some 0\<rparr>\<rparr>"

lemma failing_facts:
  "policy_key failing_policy = (''ops'', ''p'')" "hasNodeFailureEvent failing_policy"
  "\<not> PendingFreeze (Status failing_policy)" "\<not> PendingStartupResume (Status failing_policy)"
  "NodeFailureEventDetectedAt (Status failing_policy) = Some 0"
  "failure_time mem_api (''ops'', ''p'') failing_policy (world (waiting_sys failing_policy)) = 1000 * Second"
  "entered mem_api (''ops'', ''p'') (world (waiting_sys failing_policy)) = world (waiting_sys failing_policy)"
  "run_state (handleNodeFailureEvent mem_api failing_policy) (world (waiting_sys failing_policy)) = (Inr [], world (waiting_sys failing_policy))"
proof -
  let ?w = "world (waiting_sys failing_policy)" and ?k = "(''ops'', ''p'')"
  show "policy_key failing_policy = ?k" "hasNodeFailureEvent failing_policy" "\<not> PendingFreeze (Status failing_policy)"
    "\<not> PendingStartupResume (Status failing_policy)" "NodeFailureEventDetectedAt (Status failing_policy) = Some 0"
    by (simp_all add: failing_policy_def hasNodeFailureEvent_def unhandledEvent_def sample_defs key_defs)
  have fr: "Phase (Status failing_policy) = PhaseFrozen" by (simp add: failing_policy_def)
  have fd: "final (forceDeleteTerminatingPods mem_api failing_policy n) ?w = ?w" for n
    by (simp add: forceDeleteTerminatingPods_def waiting_sys_def mem_ops sample_mem_def)
  show e: "entered mem_api ?k ?w = ?w" by (simp add: entered_def mem_ops)
  show r: "run_state (handleNodeFailureEvent mem_api failing_policy) ?w = (Inr [], ?w)"
    using fd by (simp add: handleNodeFailureEvent_def fr)
  show "failure_time mem_api ?k failing_policy ?w = 1000 * Second"
    unfolding failure_time_def e r by (simp add: mem_ops waiting_sys_def sample_mem_def)
qed

theorem node_failure_hands_over_witness:
  "\<exists>p'. cPolicies (sysview mem_view (final (Reconcile 1 mem_api (''ops'', ''p'')) (waiting_sys failing_policy))) (''ops'', ''p'') = Some p' \<and>
     awaiting p'"
  using node_failure_hands_over [OF mem_quiet waiting_in_charge [OF failing_facts(1)] failing_facts(2-5), of "[]" 1]
  unfolding failing_facts(6-8) by (auto simp: Second_def)

end
