(* ===== verification/Upkeep.thy ===== *)
theory Upkeep
  imports Recovery
begin

text \<open>
  What the handler does for policies whose command is served: the watch over a failed node, the
  restarts that spread pods over a node that came back, and a resume whose pre-conditions are being
  checked.
\<close>

subsection \<open>Watching a failed node\<close>

definition node_lost :: "cluster \<Rightarrow> string \<Rightarrow> bool" where
  "node_lost c name \<longleftrightarrow> (\<exists>n \<in> set (cNodes c). node_Name n = name \<and> reportedNotReady n)"

text \<open>
  C22: while a failed node stays not ready, a run of \<open>Reconcile\<close> for a policy without a new command
  only removes pods and is repeated after 30 seconds; when the node is back or gone, the run ends the
  watch, and nothing but the policy changes.
\<close>

theorem failed_node_watched:
  assumes "quiet_cluster a view" and "in_charge (sysview view s) k p" and "settled p" and "watching_node p"
    and "shouldSkipOperation p"
    and "\<not> unhandledEvent (NodeReadyEventDetectedAt (Status p)) (NodeReadyEventHandledAt (Status p))"
  shows "if node_lost (sysview view s) (FailedNodeName (Status p))
    then result (Reconcile fuel a k) s = Return (requeueAfter (30 * Second)) None \<and>
      (\<exists>ps. sysview view (final (Reconcile fuel a k) s) = (sysview view s)\<lparr>cPods := ps\<rparr>)
    else result (Reconcile fuel a k) s = Return noResult None \<and>
      (\<exists>p'. sysview view (final (Reconcile fuel a k) s) = (sysview view s)\<lparr>cPolicies := (cPolicies (sysview view s))(k \<mapsto> p')\<rparr> \<and>
        Spec p' = Spec p \<and> \<not> watching_node p' \<and> Phase (Status p') = Phase (Status p) \<and>
        LastHandledOperationId (Status p') = LastHandledOperationId (Status p))"
proof -
  let ?c = "sysview view s" and ?name = "FailedNodeName (Status p)"
  note ent = reconcile_in_charge [OF assms(1,2)] and k = in_charge_key [OF assms(1,2)]
  let ?w1 = "final (ListNodes a None) (entered a k (world s))"
  have v1: "view ?w1 = ?c" by (simp add: quiet_view [OF assms(1)] ent(1))
  have nodes: "result (ListNodes a None) (entered a k (world s)) = Inr (cNodes ?c)"
    using reads_result [OF quiet_readD(15) [OF assms(1), where nsel = None], of "entered a k (world s)"] ent(1) by simp
  have stages: "run_state (Reconcile fuel a k) s = run_state (thenStage (inWorld (cleanupFailedNode a k p)) (\<lambda>policy.
      thenStage (inWorld (skipHandled a policy)) (\<lambda>policy. thenStage (inWorld (checkNamespace a policy)) (\<lambda>policy.
      thenStage (handleChecking fuel a policy) (\<lambda>policy. manualOperation fuel a policy)))))
      (s\<lparr>world := entered a k (world s)\<rparr>)"
    using assms(3) by (simp add: ent(2) reconcileStages_def settled_def handlePendingFreeze_def
        handlePendingStartupResume_def handleNodeFailureStage_def)
  have lost: "list_ex (\<lambda>n. node_Name n = ?name \<and> reportedNotReady n) (cNodes ?c) = node_lost ?c ?name"
    by (simp add: node_lost_def list_ex_iff)
  show ?thesis
  proof (cases "node_lost ?c ?name")
    case True
    then have "run_state (Reconcile fuel a k) s = (Return (requeueAfter (30 * Second)) None,
        s\<lparr>world := final (forceDeleteTerminatingPods a p ?name) ?w1\<rparr>)"
      using assms(4,5) nodes lost unfolding stages by (simp add: cleanupFailedNode_def watching_node_def)
    moreover obtain ps where "view (final (forceDeleteTerminatingPods a p ?name) ?w1) = (view ?w1)\<lparr>cPods := ps\<rparr>"
      using forceDelete_quiet [OF assms(1)] by blast
    ultimately show ?thesis using True v1 by auto
  next
    case False
    let ?p' = "stored_policy (p\<lparr>Status := (Status p)\<lparr>FailedNodeName := ''''\<rparr>\<rparr>)"
    let ?patch = "patchStatus a k (\<lambda>latest. (Status latest)\<lparr>FailedNodeName := ''''\<rparr>)"
    let ?w2 = "final ?patch ?w1"
    have c1: "cPolicies (view ?w1) k = Some p" using k v1 by simp
    note pat = patchStatus_quiet [OF assms(1) c1 k(1), of "\<lambda>latest. (Status latest)\<lparr>FailedNodeName := ''''\<rparr>"]
    have v2: "view ?w2 = ?c\<lparr>cPolicies := (cPolicies ?c)(k \<mapsto> ?p')\<rparr>" using pat(2) v1 by simp
    have get: "result (GetPolicy a k) ?w2 = Inr ?p'"
      using reads_result [OF quiet_readD(1) [OF assms(1)], of ?w2 k] v2 by simp
    have skip: "shouldSkipOperation ?p'"
      using assms(5) by (auto simp: shouldSkipOperation_def split: if_splits option.splits)
    have ev: "\<not> unhandledEvent (NodeReadyEventDetectedAt (Status ?p')) (NodeReadyEventHandledAt (Status ?p'))"
      using assms(6) truncated_event by (auto simp: stored_status_times)
    have "run_state (Reconcile fuel a k) s = (Return noResult None, s\<lparr>world := final (GetPolicy a k) ?w2\<rparr>)"
      using False assms(4,5) nodes lost get skip ev unfolding stages
      by (simp add: cleanupFailedNode_def watching_node_def refetch_def skipHandled_def returnErr_def)
    then show ?thesis
      using False v2 by (auto simp: quiet_view [OF assms(1)] watching_node_def intro!: exI [of _ ?p'])
  qed
qed

subsection \<open>A resume whose pre-conditions are being checked\<close>

lemma stampUpdate_quiet:
  assumes q: "quiet_cluster a view" and p: "cPolicies (view w) k = Some p" and look: "looks view stamp"
  shows "result (stampStatus a k stamp change (\<lambda>new base. UpdatePolicyStatus a new)) w = None"
    and "\<exists>t. view (final (stampStatus a k stamp change (\<lambda>new base. UpdatePolicyStatus a new)) w) =
      (view w)\<lparr>cPolicies := (cPolicies (view w))(k \<mapsto> stored_policy (p\<lparr>Status := change t p\<rparr>))\<rparr>"
proof -
  have k: "policy_key p = k" by (rule quiet_keyed(1) [OF q p])
  note stamped = stampStatus_writes [OF q p look, of "\<lambda>new base. UpdatePolicyStatus a new" change]
  have "result (UpdatePolicyStatus a (p\<lparr>Status := st\<rparr>)) v = None \<and> view (final (UpdatePolicyStatus a (p\<lparr>Status := st\<rparr>)) v) =
      (view v)\<lparr>cPolicies := (cPolicies (view v))(k \<mapsto> stored_policy (p\<lparr>Status := st\<rparr>))\<rparr>"
    if "cPolicies (view v) k = Some p" for st v
    using UpdatePolicyStatus_quiet [OF q, of v p st] that k by simp
  with stamped show "result (stampStatus a k stamp change (\<lambda>new base. UpdatePolicyStatus a new)) w = None"
    and "\<exists>t. view (final (stampStatus a k stamp change (\<lambda>new base. UpdatePolicyStatus a new)) w) =
      (view w)\<lparr>cPolicies := (cPolicies (view w))(k \<mapsto> stored_policy (p\<lparr>Status := change t p\<rparr>))\<rparr>" by auto
qed

text \<open>A policy that is in charge of nothing but a check: no delayed operation, no failure, no new command.\<close>

definition only_checking :: "policy \<Rightarrow> bool" where
  "only_checking p \<longleftrightarrow> beingChecked p \<and> \<not> PendingFreeze (Status p) \<and> \<not> PendingStartupResume (Status p) \<and>
     \<not> hasNodeFailureEvent p"

lemma stages_checking:
  assumes "quiet_cluster a view" and "in_charge (sysview view s) k p" and "only_checking p"
    and "TargetNamespace (Spec p) \<in> cNamespaces (sysview view s)"
  shows "\<exists>w. view w = sysview view s \<and> (\<forall>r e. result (handleChecking fuel a p) (s\<lparr>world := w\<rparr>) = Return r e \<longrightarrow>
    run_state (Reconcile fuel a k) s = run_state (handleChecking fuel a p) (s\<lparr>world := w\<rparr>))"
proof -
  note ent = reconcile_in_charge [OF assms(1,2)]
  let ?w = "entered a k (world s)" and ?get = "GetNamespace a (TargetNamespace (Spec p))"
  have "result ?get ?w = None"
    using reads_result [OF quiet_readD(8) [OF assms(1), where ns = "TargetNamespace (Spec p)"], of ?w] assms(4) ent(1) by simp
  moreover have "\<not> shouldSkipOperation p"
    using assms(3) by (auto simp: only_checking_def shouldSkipOperation_def beingChecked_def split: option.splits)
  ultimately have "run_state (Reconcile fuel a k) s = run_state (handleChecking fuel a p) (s\<lparr>world := final ?get ?w\<rparr>)"
    if "result (handleChecking fuel a p) (s\<lparr>world := final ?get ?w\<rparr>) = Return r e" for r e
    using assms(3) that
    by (simp add: ent(2) reconcileStages_def only_checking_def handlePendingFreeze_def handlePendingStartupResume_def
        handleNodeFailureStage_def cleanupFailedNode_def skipHandled_def checkNamespace_def prod_eq_iff)
  then show ?thesis by (intro exI [of _ "final ?get ?w"]) (simp add: quiet_view [OF assms(1)] ent(1))
qed

text \<open>The policy after the check: passed and resumed, or still being checked.\<close>

definition check_passed :: "policy \<Rightarrow> policy \<Rightarrow> bool" where
  "check_passed p p' \<longleftrightarrow> Spec p' = Spec p \<and> Phase (Status p') = PhaseResumed \<and> \<not> PendingStartupResume (Status p') \<and>
     (\<exists>s. PreConditionsStatus (Status p') = Some s \<and> \<not> Checking s \<and> Passed s) \<and>
     LastHandledOperationId (Status p') = LastHandledOperationId (Status p)"

definition check_goes_on :: "string \<Rightarrow> policy \<Rightarrow> policy \<Rightarrow> bool" where
  "check_goes_on msg p p' \<longleftrightarrow> Spec p' = Spec p \<and> Phase (Status p') = Phase (Status p) \<and>
     (\<exists>s. PreConditionsStatus (Status p') = Some s \<and> Checking s \<and> pre_Message s = msg) \<and>
     LastHandledOperationId (Status p') = LastHandledOperationId (Status p)"

lemma checkedAgain_quiet:
  assumes q: "quiet_cluster a view" and p: "cPolicies (view w) (policy_key p) = Some p" and on: "beingChecked p"
  shows "result (checkedAgain a p msg) w = Return (requeueAfter (recheckInterval p)) None"
    and "\<exists>p'. check_goes_on msg p p' \<and> view (final (checkedAgain a p msg) w) =
      (view w)\<lparr>cPolicies := (cPolicies (view w))(policy_key p \<mapsto> p')\<rparr>"
proof -
  let ?f = "\<lambda>now latestPolicy. (Status latestPolicy)\<lparr>PreConditionsStatus :=
      Some ((orEmpty (PreConditionsStatus (Status latestPolicy)))\<lparr>LastCheckedAt := Some now, pre_Message := msg\<rparr>)\<rparr>"
  note st = stampUpdate_quiet [OF q p looks_calls(5) [OF q], of ?f]
  have "check_goes_on msg p (stored_policy (p\<lparr>Status := ?f t p\<rparr>))" for t
    using on by (auto simp: check_goes_on_def beingChecked_def orEmpty_def stored_status_def split: option.splits)
  then show "\<exists>p'. check_goes_on msg p p' \<and> view (final (checkedAgain a p msg) w) =
      (view w)\<lparr>cPolicies := (cPolicies (view w))(policy_key p \<mapsto> p')\<rparr>"
    using st(2) by (auto simp: checkedAgain_def)
  show "result (checkedAgain a p msg) w = Return (requeueAfter (recheckInterval p)) None"
    by (simp add: checkedAgain_def)
qed

lemma handleChecking_passed:
  assumes q: "quiet_cluster a view" and p: "cPolicies (sysview view s) (policy_key p) = Some p" and on: "beingChecked p"
    and sel: "selectorOf a p = Inr sel" and rs: "restorable fuel a p sel view s"
    and pc: "preConditionsOn p = Some pc" "checkable a answer pc" "pre_met answer pc (sysview view s)"
  shows "\<exists>p'. result (handleChecking fuel a p) s = Return noResult None \<and> check_passed p p' \<and>
    sysview view (final (handleChecking fuel a p) s) = acted deployment_ops.resumed statefulSet_ops.resumed
      (selected p sel (cDeployments (sysview view s))) (selected p sel (cStatefulSets (sysview view s)))
      (policy_key p) p' (sysview view s)"
proof -
  let ?c = "sysview view s" and ?w1 = "final (checkPreConditions a p) (world s)"
  let ?w2 = "final (Now a) ?w1" and ?now = "result (Now a) ?w1"
  have v2: "view ?w2 = ?c" using looks_final [OF looks_checkPreConditions [OF q]] by (simp add: quiet_view [OF q])
  have chk: "result (checkPreConditions a p) (world s) = Inr (True, ''All pre-conditions passed'')"
    using checkPreConditions_quiet [OF q pc(1,2), of "world s"] pc(3) by simp
  define p1 where "p1 = p\<lparr>Status := (Status p)\<lparr>PendingStartupResume := False,
    PreConditionsStatus := Some (preStatus False ?now True ''All pre-conditions passed'')\<rparr>\<rparr>"
  have p1: "Spec p1 = Spec p" "policy_key p1 = policy_key p" by (simp_all add: p1_def policy_key_def)
  have sel1: "selectorOf a p1 = Inr sel" using sel p1(1) by (simp add: selectorOf_def)
  let ?w3 = "final (listWorkloads a p1) ?w2"
  obtain ds ss where l: "result (listWorkloads a p1) ?w2 = Inr (ds, ss)"
    "deployments.listed ?c ds" "workload_key ` set ds = selected p sel (cDeployments ?c)"
    "statefulSets.listed ?c ss" "workload_key ` set ss = selected p sel (cStatefulSets ?c)"
    using listWorkloads_quiet(1) [OF q sel1, of ?w2] v2 p1(1) by (auto simp: selected_def)
  have v3: "view ?w3 = ?c" using listWorkloads_quiet(2) [OF q sel1] v2 by simp
  let ?s3 = "s\<lparr>world := ?w3\<rparr>"
  have "count_annotation d \<noteq> Some (Inl e)" if "d \<in> set ds \<union> set ss" for d e
    using that rs listed_ran(1) [OF l(2)] listed_ran(2) [OF l(4)] unfolding restorable_def by blast
  moreover have "throttle_ready fuel a view p1 (length ds + length ss) ?s3"
    using rs listed_lengths(1) [OF l(2)] listed_lengths(2) [OF l(4)] l(3,5)
    using v3 by (simp add: restorable_def throttle_ready_spec [OF p1(1)])
  ultimately obtain m where m: "result (startupResumeWorkloads fuel a p1 ds ss) ?s3 = Continue p1"
    "policy_frame (policy_key p1) (cPolicies ?c) m"
    "sysview view (final (startupResumeWorkloads fuel a p1 ds ss) ?s3) = ?c\<lparr>
      cDeployments := on_keys deployment_ops.resumed (workload_key ` set ds) (cDeployments ?c),
      cStatefulSets := on_keys statefulSet_ops.resumed (workload_key ` set ss) (cStatefulSets ?c), cPolicies := m\<rparr>"
    using startupResumeWorkloads_quiet [OF q, of ?s3 p1 p ds ss fuel] p p1 l(2,4) v3 by auto
  let ?s4 = "final (startupResumeWorkloads fuel a p1 ds ss) ?s3"
  obtain p2 where p2: "m (policy_key p) = Some p2" "Spec p2 = Spec p"
    "LastHandledOperationId (Status p2) = LastHandledOperationId (Status p)" "calm_change (Status p) (Status p2)"
    using m(2) p p1(2) by (auto simp: policy_frame_def)
  have c4: "cPolicies (view (world ?s4)) (policy_key p1) = Some p2" using m(3) p1(2) p2(1) by simp
  note st = stampUpdate_quiet [OF q c4 looks_calls(5) [OF q], of "resumedAfterChecks ds ss"]
  let ?st = "stampStatus a (policy_key p1) (Now a) (resumedAfterChecks ds ss) (\<lambda>new base. UpdatePolicyStatus a new)"
  have ok: "check_passed p (stored_policy (p2\<lparr>Status := resumedAfterChecks ds ss t p2\<rparr>))" for t
    using p2 on by (auto simp: check_passed_def resumedAfterChecks_def Let_def beingChecked_def calm_change_def
        preStatus_def stored_status_def split: option.splits)
  have run: "run_state (handleChecking fuel a p) s = (Return noResult None, ?s4\<lparr>world := final ?st (world ?s4)\<rparr>)"
    using on chk l(1) m(1) st(1) by (simp add: handleChecking_def returnErr_def flip: p1_def)
  obtain t where t: "view (final ?st (world ?s4)) = (view (world ?s4))\<lparr>cPolicies :=
      (cPolicies (view (world ?s4)))(policy_key p1 \<mapsto> stored_policy (p2\<lparr>Status := resumedAfterChecks ds ss t p2\<rparr>))\<rparr>"
    using st(2) by blast
  have "m(policy_key p \<mapsto> x) = (cPolicies ?c)(policy_key p \<mapsto> x)" for x
    using m(2) p1(2) by (auto simp: policy_frame_def)
  then show ?thesis
    using ok [of t] run t m(3) l(3,5) p1(2)
    by (intro exI [of _ "stored_policy (p2\<lparr>Status := resumedAfterChecks ds ss t p2\<rparr>)"]) (simp add: acted_def)
qed

text \<open>
  C20: a policy whose pre-conditions are being checked, with nothing else to do, is checked once per
  run of \<open>Reconcile\<close>. When they hold, exactly the selected workloads are resumed, the policy reports
  Resumed and the check as passed; otherwise only the message of the check changes, naming what is
  missing, and the run is repeated after the interval. A command of the user is neither used up nor lost.
\<close>

theorem checking_resumes:
  assumes "quiet_cluster a view" and "in_charge (sysview view s) k p" and "only_checking p"
    and "TargetNamespace (Spec p) \<in> cNamespaces (sysview view s)" and "selectorOf a p = Inr sel"
    and "restorable fuel a p sel view s" and "preConditionsOn p = Some pc" and "checkable a answer pc"
  shows "\<exists>p'. if pre_met answer pc (sysview view s)
    then result (Reconcile fuel a k) s = Return noResult None \<and> check_passed p p' \<and>
      sysview view (final (Reconcile fuel a k) s) = acted deployment_ops.resumed statefulSet_ops.resumed
        (selected p sel (cDeployments (sysview view s))) (selected p sel (cStatefulSets (sysview view s))) k p' (sysview view s)
    else result (Reconcile fuel a k) s = Return (requeueAfter (recheckInterval p)) None \<and>
      check_goes_on (pre_message answer pc (sysview view s)) p p' \<and>
      sysview view (final (Reconcile fuel a k) s) = (sysview view s)\<lparr>cPolicies := (cPolicies (sysview view s))(k \<mapsto> p')\<rparr>"
proof -
  let ?c = "sysview view s"
  note k = in_charge_key [OF assms(1,2)]
  have on: "beingChecked p" using assms(3) by (simp add: only_checking_def)
  obtain w where w: "view w = ?c" "\<And>r e. result (handleChecking fuel a p) (s\<lparr>world := w\<rparr>) = Return r e \<Longrightarrow>
      run_state (Reconcile fuel a k) s = run_state (handleChecking fuel a p) (s\<lparr>world := w\<rparr>)"
    using stages_checking [OF assms(1-4)] by blast
  show ?thesis
  proof (cases "pre_met answer pc ?c")
    case True
    then show ?thesis
      using handleChecking_passed [OF assms(1), of "s\<lparr>world := w\<rparr>" p sel fuel pc answer] w k on assms(5-8)
      by (auto simp: restorable_world)
  next
    case False
    let ?w1 = "final (checkPreConditions a p) w" and ?msg = "pre_message answer pc ?c"
    have chk: "result (checkPreConditions a p) w = Inr (False, ?msg)"
      using checkPreConditions_quiet [OF assms(1,7,8), of w] False w(1) by simp
    have v1: "view ?w1 = ?c" using looks_final [OF looks_checkPreConditions [OF assms(1)]] w(1) by simp
    then have c1: "cPolicies (view ?w1) (policy_key p) = Some p" using k by simp
    note again = checkedAgain_quiet [OF assms(1) c1 on, of ?msg]
    have "run_state (handleChecking fuel a p) (s\<lparr>world := w\<rparr>) =
        (Return (requeueAfter (recheckInterval p)) None, s\<lparr>world := final (checkedAgain a p ?msg) ?w1\<rparr>)"
      using on chk again(1) by (simp add: handleChecking_def)
    moreover from this have "run_state (Reconcile fuel a k) s = run_state (handleChecking fuel a p) (s\<lparr>world := w\<rparr>)"
      by (intro w(2)) simp
    ultimately show ?thesis using False again(2) v1 k(1) by auto
  qed
qed

subsection \<open>Spreading pods over a node that came back\<close>

text \<open>A workload after a rolling restart: a new time stamp on the pod template and nothing else.\<close>

definition restarted :: "workload \<Rightarrow> workload \<Rightarrow> bool" where
  "restarted d d' \<longleftrightarrow> (\<exists>v. d' = stored_workload
     (d\<lparr>TemplateAnnotations := (TemplateAnnotations d)(restartTimestamp \<mapsto> v)\<rparr>))"

definition restarted_on :: "nsname set \<Rightarrow> (nsname \<rightharpoonup> workload) \<Rightarrow> (nsname \<rightharpoonup> workload) \<Rightarrow> bool" where
  "restarted_on K m m' \<longleftrightarrow> (\<forall>k. if k \<in> K then rel_option restarted (m k) (m' k) else m' k = m k)"

lemma restarted_on_none [simp]: "restarted_on {} m m' \<longleftrightarrow> m' = m"
  by (auto simp: restarted_on_def)

lemma restarted_onD:
  assumes "restarted_on K m m'" and "k \<in> K" and "m k = Some d"
  shows "\<exists>d'. m' k = Some d' \<and> restarted d d'"
proof -
  have "rel_option restarted (m k) (m' k)" using assms(1,2) unfolding restarted_on_def by metis
  then show ?thesis using assms(3) by (auto simp: option_rel_Some1)
qed

lemma restarted_on_insert:
  assumes "k \<notin> K" and "m k = Some d" and "restarted d d'" and "restarted_on K (m(k \<mapsto> d')) m'"
  shows "restarted_on (insert k K) m m'"
  unfolding restarted_on_def
proof (rule allI)
  fix j
  have "if j \<in> K then rel_option restarted ((m(k \<mapsto> d')) j) (m' j) else m' j = (m(k \<mapsto> d')) j"
    using assms(4) unfolding restarted_on_def by blast
  then show "if j \<in> insert k K then rel_option restarted (m j) (m' j) else m' j = m j"
    using assms(1-3) by (cases "j = k") auto
qed

context workload_kind
begin

lemma restart_loop:
  assumes q: "quiet_cluster a view"
    and restart: "\<And>d. restart d = do { now \<leftarrow> Now a;
      patchObj a (d\<lparr>TemplateAnnotations := (TemplateAnnotations d)(restartTimestamp \<mapsto> FormatRFC3339 a now)\<rparr>) d }"
  shows "listed (view w) ds \<Longrightarrow> \<exists>m. restarted_on (workload_key ` set ds) (obj (view w)) m \<and>
    view (final (for_each ds restart) w) = put m (view w)"
proof (induction ds arbitrary: w)
  case Nil
  show ?case by (intro exI [of _ "obj (view w)"]) (simp add: put_obj)
next
  case (Cons d ds)
  note l = listed_Cons [OF Cons.prems]
  let ?t = "FormatRFC3339 a (result (Now a) w)"
  let ?d = "d\<lparr>TemplateAnnotations := (TemplateAnnotations d)(restartTimestamp \<mapsto> ?t)\<rparr>"
  have key: "workload_key ?d = workload_key d" by (simp add: workload_key_def)
  have step: "view (final (restart d) w) = put ((obj (view w))(workload_key d \<mapsto> stored_workload ?d)) (view w)"
    using writes_ok [OF patch_writes [OF q, of ?d d], of "final (Now a) w"] l(1)
    by (simp add: restart key quiet_view [OF q])
  have "listed (view (final (restart d) w)) ds" unfolding step by (rule l(3))
  from Cons.IH [OF this] obtain m where m:
    "restarted_on (workload_key ` set ds) ((obj (view w))(workload_key d \<mapsto> stored_workload ?d)) m"
    "view (final (for_each ds restart) (final (restart d) w)) = put m (view w)"
    unfolding step obj_put put_put by blast
  have "restarted d (stored_workload ?d)" unfolding restarted_def by blast
  with m l(1,2) show ?case by (intro exI [of _ m]) (auto intro: restarted_on_insert)
qed

end

lemma performBalancing_quiet:
  assumes q: "quiet_cluster a view" and sel: "selectorOf a p = Inr sel"
  shows "\<exists>D S. restarted_on (selected p sel (cDeployments (view w))) (cDeployments (view w)) D \<and>
    restarted_on (selected p sel (cStatefulSets (view w))) (cStatefulSets (view w)) S \<and>
    view (final (performBalancing a p) w) = (view w)\<lparr>cDeployments := D, cStatefulSets := S\<rparr>"
proof -
  let ?m = "listDeployments a (TargetNamespace (Spec p)) (Selector (Spec p))"
  let ?n = "listStatefulSets a (TargetNamespace (Spec p)) (Selector (Spec p))"
  obtain ds where ds: "result ?m w = Inr ds" "deployments.listed (view w) ds"
    "workload_key ` set ds = selected p sel (cDeployments (view w))"
    using listed_deployments(1) [OF q sel] by blast
  let ?w1 = "final ?m w"
  let ?w2 = "final (for_each ds (triggerRollingRestart a)) ?w1"
  have v1: "view ?w1 = view w" by (rule listed_deployments(2) [OF q sel])
  obtain D where D: "restarted_on (workload_key ` set ds) (cDeployments (view w)) D" "view ?w2 = (view w)\<lparr>cDeployments := D\<rparr>"
    using deployment_ops.restart_loop [OF q triggerRollingRestart_def [of a], of ?w1 ds] ds(2) v1 by auto
  obtain ss where ss: "result ?n ?w2 = Inr ss" "statefulSets.listed (view w) ss"
    "workload_key ` set ss = selected p sel (cStatefulSets (view w))"
    using listed_statefulSets(1) [OF q sel, of ?w2] D(2) by (auto simp: statefulSets.listed_def)
  let ?w3 = "final ?n ?w2"
  have v3: "view ?w3 = (view w)\<lparr>cDeployments := D\<rparr>" using listed_statefulSets(2) [OF q sel, of ?w2] D(2) by simp
  then have "statefulSets.listed (view ?w3) ss" using ss(2) by (simp add: statefulSets.listed_def)
  from statefulSet_ops.restart_loop [OF q triggerRollingRestartSts_def [of a] this] v3
  obtain S where S: "restarted_on (workload_key ` set ss) (cStatefulSets (view w)) S"
    "view (final (for_each ss (triggerRollingRestartSts a)) ?w3) = (view w)\<lparr>cDeployments := D, cStatefulSets := S\<rparr>"
    by auto
  show ?thesis
    using D(1) S ds(1,3) ss(1,3) by (intro exI [of _ D] exI [of _ S]) (simp add: performBalancing_def)
qed

text \<open>The window after a resume in which pods are balanced, with its default of ten minutes.\<close>

definition balance_window :: "policy \<Rightarrow> duration" where
  "balance_window p = (if BalanceWindowSeconds (Spec p) = 0 then 600 * Second else BalanceWindowSeconds (Spec p) * Second)"

definition balance_due :: "time \<Rightarrow> policy \<Rightarrow> bool" where
  "balance_due now p \<longleftrightarrow> BalancePods (Spec p) \<and> (\<exists>ready resumed. NodeReadyEventDetectedAt (Status p) = Some ready \<and>
     LastResumeAt (Status p) = Some resumed \<and> resumed < ready \<and> now - resumed < balance_window p)"

text \<open>The time that the handler reads for the window.\<close>

definition balance_time :: "'w api \<Rightarrow> nsname \<Rightarrow> 'w \<Rightarrow> time" where
  "balance_time a k w = result (Now a) (entered a k w)"

lemma balanceAfterNodeEvent_quiet:
  assumes q: "quiet_cluster a view" and sel: "selectorOf a p = Inr sel"
  shows "\<exists>D S. (if balance_due (result (Now a) w) p
      then restarted_on (selected p sel (cDeployments (view w))) (cDeployments (view w)) D \<and>
        restarted_on (selected p sel (cStatefulSets (view w))) (cStatefulSets (view w)) S
      else D = cDeployments (view w) \<and> S = cStatefulSets (view w)) \<and>
    view (final (balanceAfterNodeEvent a p) w) = (view w)\<lparr>cDeployments := D, cStatefulSets := S\<rparr>"
proof (cases "BalancePods (Spec p) \<and> LastResumeAt (Status p) \<noteq> None \<and>
    afterOpt (NodeReadyEventDetectedAt (Status p)) (LastResumeAt (Status p))")
  case False
  then have "\<not> balance_due (result (Now a) w) p" by (auto simp: balance_due_def afterOpt_def)
  moreover have "run_state (balanceAfterNodeEvent a p) w = ((), w)"
    using False by (auto simp: balanceAfterNodeEvent_def prod_eq_iff)
  ultimately show ?thesis by simp
next
  case True
  then obtain r d where t: "BalancePods (Spec p)" "LastResumeAt (Status p) = Some r"
    "NodeReadyEventDetectedAt (Status p) = Some d" "r < d" by (auto simp: afterOpt_def split: option.splits)
  let ?w = "final (Now a) w" and ?now = "result (Now a) w"
  have v: "view ?w = view w" by (rule quiet_view(11) [OF q])
  have due: "balance_due ?now p \<longleftrightarrow> ?now - r < balance_window p" using t by (simp add: balance_due_def)
  have should: "run_state (shouldPerformBalancing a p) w = (?now - r < balance_window p, ?w)"
    using t(2) by (simp add: shouldPerformBalancing_def balance_window_def Let_def Minute_def Second_def)
  have run: "view (final (balanceAfterNodeEvent a p) w) =
      (if balance_due ?now p then view (final (performBalancing a p) ?w) else view w)"
    using t should by (simp add: balanceAfterNodeEvent_def afterOpt_def due v)
  show ?thesis
    using performBalancing_quiet [OF q sel, of ?w] unfolding run v by (cases "balance_due ?now p") auto
qed

text \<open>
  C21: a node that became ready is used, once the resume is complete. While the policy is not in phase
  Resumed a run of \<open>Reconcile\<close> leaves the event for later. In phase Resumed it gives the pods of the
  selected workloads a rolling restart, a new time stamp on their templates and nothing else, exactly
  when balancing is enabled, the node became ready after the resume and the window is still open;
  in any case the event then counts as handled and no other policy changes.
\<close>

theorem node_event_balances:
  assumes "quiet_cluster a view" and "in_charge (sysview view s) k p" and "settled p" and "FailedNodeName (Status p) = ''''"
    and "shouldSkipOperation p" and "selectorOf a p = Inr sel"
    and "unhandledEvent (NodeReadyEventDetectedAt (Status p)) (NodeReadyEventHandledAt (Status p))"
  shows "result (Reconcile fuel a k) s = Return noResult None \<and>
    (if Phase (Status p) \<noteq> PhaseResumed then sysview view (final (Reconcile fuel a k) s) = sysview view s
     else \<exists>D S t. (if balance_due (balance_time a k (world s)) p
         then restarted_on (selected p sel (cDeployments (sysview view s))) (cDeployments (sysview view s)) D \<and>
           restarted_on (selected p sel (cStatefulSets (sysview view s))) (cStatefulSets (sysview view s)) S
         else D = cDeployments (sysview view s) \<and> S = cStatefulSets (sysview view s)) \<and>
       sysview view (final (Reconcile fuel a k) s) = (sysview view s)\<lparr>cDeployments := D, cStatefulSets := S,
         cPolicies := (cPolicies (sysview view s))(k \<mapsto>
           stored_policy (p\<lparr>Status := (Status p)\<lparr>NodeReadyEventHandledAt := Some t\<rparr>\<rparr>))\<rparr>)"
proof -
  let ?c = "sysview view s" and ?w = "entered a k (world s)"
  note ent = reconcile_in_charge [OF assms(1,2)] and k = in_charge_key [OF assms(1,2)]
  let ?w1 = "final (balanceAfterNodeEvent a p) ?w"
  let ?w2 = "final (Now a) ?w1" and ?t = "result (Now a) ?w1"
  obtain D S where b: "if balance_due (balance_time a k (world s)) p
         then restarted_on (selected p sel (cDeployments ?c)) (cDeployments ?c) D \<and>
           restarted_on (selected p sel (cStatefulSets ?c)) (cStatefulSets ?c) S
         else D = cDeployments ?c \<and> S = cStatefulSets ?c"
    "view ?w1 = ?c\<lparr>cDeployments := D, cStatefulSets := S\<rparr>"
    using balanceAfterNodeEvent_quiet [OF assms(1,6), of ?w] unfolding balance_time_def ent(1) by blast
  have v2: "view ?w2 = ?c\<lparr>cDeployments := D, cStatefulSets := S\<rparr>" by (simp add: quiet_view [OF assms(1)] b(2))
  have "cPolicies (view ?w2) (policy_key p) = Some p" using v2 k by simp
  note up = UpdatePolicyStatus_quiet [OF assms(1) this, of "(Status p)\<lparr>NodeReadyEventHandledAt := Some ?t\<rparr>"]
  have "run_state (Reconcile fuel a k) s = (Return noResult None, s\<lparr>world := (if Phase (Status p) \<noteq> PhaseResumed then ?w
      else final (UpdatePolicyStatus a (p\<lparr>Status := (Status p)\<lparr>NodeReadyEventHandledAt := Some ?t\<rparr>\<rparr>)) ?w2)\<rparr>)"
    using assms(3-5,7) up(1)
    by (simp add: ent(2) reconcileStages_def settled_def handlePendingFreeze_def handlePendingStartupResume_def
        handleNodeFailureStage_def cleanupFailedNode_def skipHandled_def returnErr_def)
  moreover have "view (final (UpdatePolicyStatus a (p\<lparr>Status := (Status p)\<lparr>NodeReadyEventHandledAt := Some ?t\<rparr>\<rparr>)) ?w2) =
      ?c\<lparr>cDeployments := D, cStatefulSets := S, cPolicies := (cPolicies ?c)(k \<mapsto>
        stored_policy (p\<lparr>Status := (Status p)\<lparr>NodeReadyEventHandledAt := Some ?t\<rparr>\<rparr>))\<rparr>"
    using up(2) v2 k(1) by simp
  ultimately have r: "result (Reconcile fuel a k) s = Return noResult None"
    "Phase (Status p) \<noteq> PhaseResumed \<Longrightarrow> sysview view (final (Reconcile fuel a k) s) = ?c"
    "Phase (Status p) = PhaseResumed \<Longrightarrow> sysview view (final (Reconcile fuel a k) s) =
      ?c\<lparr>cDeployments := D, cStatefulSets := S, cPolicies := (cPolicies ?c)(k \<mapsto>
        stored_policy (p\<lparr>Status := (Status p)\<lparr>NodeReadyEventHandledAt := Some ?t\<rparr>\<rparr>))\<rparr>"
    using ent(1) by simp_all
  show ?thesis
  proof (cases "Phase (Status p) = PhaseResumed")
    case True
    then have "\<not> Phase (Status p) \<noteq> PhaseResumed" by simp
    then show ?thesis unfolding if_not_P [OF \<open>\<not> Phase (Status p) \<noteq> PhaseResumed\<close>] using r(1) r(3) [OF True] b(1) by blast
  next
    case False
    then show ?thesis using r(1,2) by simp
  qed
qed

subsection \<open>Concrete clusters\<close>

definition watch_policy :: policy where
  "watch_policy = (sample_policy ''p'')\<lparr>Spec := sample_spec\<lparr>HandleNodeFailure := True\<rparr>,
     Status := empty_status\<lparr>LastHandledOperationId := ''op-1'', FailedNodeName := ''n1''\<rparr>\<rparr>"

definition watch_sys :: "mem sys" where
  "watch_sys = (waiting_sys watch_policy)\<lparr>world := (world (waiting_sys watch_policy))\<lparr>mNodes := [lost_node]\<rparr>\<rparr>"

theorem failed_node_watched_witness:
  "result (Reconcile 1 mem_api (''ops'', ''p'')) watch_sys = Return (requeueAfter (30 * Second)) None"
proof -
  have k: "policy_key watch_policy = (''ops'', ''p'')" by (simp add: watch_policy_def sample_defs key_defs)
  have "cPolicies (sysview mem_view watch_sys) = [(''ops'', ''p'') \<mapsto> watch_policy]"
    using waiting_view(1) [OF k] by (simp add: watch_sys_def mem_view_def)
  then have "in_charge (sysview mem_view watch_sys) (''ops'', ''p'') watch_policy" by (simp add: in_charge_def)
  moreover have "settled watch_policy" "watching_node watch_policy" "shouldSkipOperation watch_policy"
    "\<not> unhandledEvent (NodeReadyEventDetectedAt (Status watch_policy)) (NodeReadyEventHandledAt (Status watch_policy))"
    by (simp_all add: watch_policy_def settled_def hasNodeFailureEvent_def beingChecked_def watching_node_def
        shouldSkipOperation_def unhandledEvent_def sample_defs)
  moreover have "node_lost (sysview mem_view watch_sys) (FailedNodeName (Status watch_policy))"
    by (simp add: node_lost_def watch_sys_def mem_view_def watch_policy_def lost_node_def sample_node_def node_Name_def sample_meta_def reportedNotReady_def)
  ultimately show ?thesis
    using failed_node_watched [OF mem_quiet, of watch_sys "(''ops'', ''p'')" watch_policy 1] by simp
qed

definition checked_policy :: policy where
  "checked_policy = (gated_policy ''shop.db'')\<lparr>Status := empty_status\<lparr>PreConditionsStatus :=
     Some (preStatus True 0 False '''')\<rparr>\<rparr>"

theorem checking_resumes_witness:
  "\<exists>p'. result (Reconcile 1 mem_api (''ops'', ''p'')) (waiting_sys checked_policy) = Return noResult None \<and>
    check_passed checked_policy p' \<and>
    cPolicies (sysview mem_view (final (Reconcile 1 mem_api (''ops'', ''p'')) (waiting_sys checked_policy))) (''ops'', ''p'') = Some p'"
proof -
  let ?s = "waiting_sys checked_policy" and ?k = "(''ops'', ''p'')"
  have s: "Spec checked_policy = Spec (gated_policy ''shop.db'')" by (simp add: checked_policy_def)
  have k: "policy_key checked_policy = ?k" by (simp add: checked_policy_def gated_policy_def sample_defs key_defs)
  have "result (checkAppReadiness mem_api ''shop.db'') (world ?s) = Inr True"
    by (simp add: checkAppReadiness_def deploymentReady_def statefulSetReady_def waiting_sys_def throttled_sys_def frozen_web_def
        mem_eval sample_defs key_defs)
  then have met: "pre_met ok_answer (sample_pre ''shop.db'') (sysview mem_view ?s)"
    using checkAppReadiness_quiet(2) [OF mem_quiet, of "''shop.db''" "world ?s"]
    by (simp add: pre_met_def sample_pre_def dotted_def endpoint_healthy_def ok_answer_def expectedCodesOf_def)
  have on: "only_checking checked_policy"
    by (simp add: only_checking_def checked_policy_def beingChecked_def hasNodeFailureEvent_def preStatus_def empty_status_def
        gated_policy_def sample_spec_def)
  have "TargetNamespace (Spec checked_policy) \<in> cNamespaces (sysview mem_view ?s)" "selectorOf mem_api checked_policy = Inr None"
    "AdaptiveThrottling (Spec checked_policy) = None" "preConditionsOn checked_policy = Some (sample_pre ''shop.db'')"
    unfolding selectorOf_def preConditionsOn_def s waiting_view(4) by (simp_all add: gated_policy_def sample_spec_def sample_pre_def)
  then have "\<exists>p'. result (Reconcile 1 mem_api ?k) ?s = Return noResult None \<and> check_passed checked_policy p' \<and>
      sysview mem_view (final (Reconcile 1 mem_api ?k) ?s) = acted deployment_ops.resumed statefulSet_ops.resumed
        (selected checked_policy None (cDeployments (sysview mem_view ?s)))
        (selected checked_policy None (cStatefulSets (sysview mem_view ?s))) ?k p' (sysview mem_view ?s)"
    using checking_resumes [OF mem_quiet waiting_in_charge [OF k] on, of None 1 "sample_pre ''shop.db''" ok_answer]
      waiting_restorable gated_checkable [of "''shop.db''"] met by (simp add: dotted_def)
  then show ?thesis by (auto simp: acted_def)
qed

definition balance_policy :: policy where
  "balance_policy = (sample_policy ''p'')\<lparr>Spec := sample_spec\<lparr>BalancePods := True\<rparr>,
     Status := empty_status\<lparr>LastHandledOperationId := ''op-1'', Phase := PhaseResumed,
       LastResumeAt := Some (900 * Second), NodeReadyEventDetectedAt := Some (950 * Second)\<rparr>\<rparr>"

theorem node_event_balances_witness:
  "\<exists>d. cDeployments (sysview mem_view (final (Reconcile 1 mem_api (''ops'', ''p'')) (waiting_sys balance_policy))) (''shop'', ''web'') =
      Some d \<and> restarted frozen_web d"
proof -
  let ?s = "waiting_sys balance_policy" and ?k = "(''ops'', ''p'')"
  have k: "policy_key balance_policy = ?k" by (simp add: balance_policy_def sample_defs key_defs)
  have "settled balance_policy" "FailedNodeName (Status balance_policy) = ''''" "shouldSkipOperation balance_policy"
    "selectorOf mem_api balance_policy = Inr None" "Phase (Status balance_policy) = PhaseResumed"
    "unhandledEvent (NodeReadyEventDetectedAt (Status balance_policy)) (NodeReadyEventHandledAt (Status balance_policy))"
    by (simp_all add: balance_policy_def settled_def hasNodeFailureEvent_def beingChecked_def selectorOf_def
        shouldSkipOperation_def unhandledEvent_def sample_defs)
  moreover have "balance_time mem_api ?k (world ?s) = 1000 * Second"
    by (simp add: balance_time_def entered_def mem_ops waiting_sys_def sample_mem_def)
  then have "balance_due (balance_time mem_api ?k (world ?s)) balance_policy"
    by (simp add: balance_due_def balance_policy_def balance_window_def sample_defs Second_def)
  ultimately have "\<exists>D. restarted_on (selected balance_policy None (cDeployments (sysview mem_view ?s))) (cDeployments (sysview mem_view ?s)) D \<and>
      cDeployments (sysview mem_view (final (Reconcile 1 mem_api ?k) ?s)) = D"
    using node_event_balances [OF mem_quiet waiting_in_charge [OF k], of None 1] by auto
  moreover have "(''shop'', ''web'') \<in> selected balance_policy None (cDeployments (sysview mem_view ?s))"
    by (simp add: selected_def waiting_view(2) balance_policy_def sample_spec_def)
  ultimately show ?thesis
    using restarted_onD [of _ "cDeployments (sysview mem_view ?s)" _ "(''shop'', ''web'')" frozen_web] waiting_view(2) by auto
qed

end
