(* ===== verification/Spec2Isabelle.thy ===== *)
theory Spec2Isabelle
  imports Upkeep
begin

text \<open>
  Verification of the namespace lifecycle operator (\<open>src/\<close>), a Kubernetes operator that freezes a
  namespace, by scaling its Deployments and StatefulSets to zero and noting the old counts in
  annotations, and resumes it.

  \<^bold>\<open>The parts of the program.\<close> A \<open>NamespaceLifecyclePolicy\<close> names a namespace, an action with an
  operation id, a policy for the start of the operator, priorities, delays, pre-conditions and
  throttling. Watches on policies and nodes decide which policies are handed to \<open>Reconcile\<close>. The
  handler first settles duplicates, then runs delayed freezes, pending resumes and node failures, and
  at last the action the user asked for. When the operator starts, a runnable in \<open>src/cmd/main.go\<close>
  polls the nodes, freezes policies in groups by priority, treats failed nodes and marks the policies
  to be resumed; it raises a flag at the end, and the handler resumes the marked policies, in the
  order that a priority gate allows. A resume runs at once or in batches that shrink and pause with
  the signals collected from nodes and pods.

  \<^bold>\<open>Theories and the code they model.\<close>
  \<^item> \<open>Prelude\<close>, \<open>GoLib\<close>: the state monad with the two loop shapes of the source; Go's integers,
    strings, \<open>strconv\<close> and durations.
  \<^item> \<open>Types\<close>: \<open>src/api/v1alpha1/namespacelifecyclepolicy_types.go\<close>, field for field, and the fields
    of Kubernetes objects that the operator uses.
  \<^item> \<open>Client\<close>: the record \<open>'w api\<close> of everything the repository calls but does not contain, and the
    hypotheses on it. \<open>Mem_Client\<close> is an instance, an API server in memory, for the witnesses.
  \<^item> \<open>Workloads\<close>, \<open>PolicyRules\<close>, \<open>PreConditions\<close>, \<open>Events\<close>, \<open>Reconcile\<close>:
    \<open>src/internal/controller/namespacelifecyclepolicy_controller.go\<close>: freezing, resuming and restarting
    single workloads; operation ids, status updates, the priority gate, the balancing window and the
    duplicate check; readiness of applications and endpoints and the wait for them; watch predicates
    and the mapping of node events to policies; the handler itself, one definition per stage, composed
    by \<open>reconcileStages\<close>.
  \<^item> \<open>Signals\<close>: \<open>signals.go\<close> and the metrics cache. \<open>Throttling\<close>: \<open>adaptive_throttling.go\<close> and
    \<open>adaptive_throttling_helper.go\<close>. \<open>NodeFailure\<close>: \<open>node_failure.go\<close>.
  \<^item> \<open>Startup\<close>: \<open>ApplyStartupPolicy\<close> and \<open>waitForNodesReady\<close> of the controller, and of
    \<open>src/cmd/main.go\<close> everything behind the startup runnable.
  \<^item> \<open>Commands\<close>, \<open>Recovery\<close> and \<open>Upkeep\<close> hold no model but the properties of the handler: commands
    of the user, the resumes it performs on its own, and what it does for policies already served.

  \<^bold>\<open>State.\<close> An effectful function is a computation over a world \<open>'w\<close>, reached only through the client
  record. The handler runs over \<open>'w sys\<close>, the world with the reconciler's own fields, the metrics cache
  and \<open>startupComplete\<close>. Errors are values of type \<open>err\<close>; a panic is one that unwinds. A stage of the
  handler either returns a result or hands a policy to the next stage.

  \<^bold>\<open>Hypotheses.\<close> \<open>retry_law\<close> is the documented behaviour of \<open>RetryOnConflict\<close>, \<open>sort_law\<close> that of
  \<open>sort.Slice\<close>, \<open>range_law\<close> that of \<open>range\<close> over a map; \<open>clock_law\<close> and \<open>timer_law\<close> say that the clock
  does not run backwards and that timers fire. \<open>quiet_cluster a view\<close> says that the API server answers
  and that nobody else writes meanwhile, where \<open>view\<close> is what the world stores; a status write keeps
  times at seconds, as the API server does. The memory client satisfies all of them, which the
  witnesses use. \<open>freezeDeployment_success\<close> needs no quiet cluster.

  \<^bold>\<open>What is shown.\<close>
  \<^item> Commands. A command that \<open>Reconcile\<close> serves does to each workload of the namespace what an abstract
    machine on replica counts does (\<open>command_refines_spec\<close>); a freeze and a resume restore the counts;
    over any sequence of commands and edits the intended counts are kept (\<open>commands_keep_counts\<close>); a
    throttled resume ends in the same workloads as a plain one.
  \<^item> Resumes by the operator. A policy waits while a more urgent one is pending or startup is not
    complete, some pending policy is always allowed, the resume runs when its turn has come and its
    pre-conditions hold, a node failure is handed over to it, and a failure followed by the recovery
    leaves the intended counts, the theorem of this file.
  \<^item> Policies already served. A failed node is watched until it is back, pods are spread over a node
    that came back exactly within the balancing window and without a change of any count, and a
    resume whose pre-conditions are being checked goes through as soon as they hold.
  \<^item> Components. The throttled batch loop and the waits end, with the rounds computed from sizes and
    timeouts; batch sizes stay in range without overflow of 32 bits; the checks of nodes, pods, usage
    and pre-conditions report exactly what they look for; a node failure selects exactly the workloads
    that live on the failed node alone; freeze groups run in the order of priority; the startup flag
    is raised after every policy is marked; the changes that need a reconciliation trigger one.
  \<^item> Behaviour against the comments of the code: a missing namespace is not retried, a failed command
    is not repeated, a passed check stays recorded as pending, two policies of equal age and name both
    pass the duplicate check, a pressure signal can enlarge batches, and the usage cache ignores
    the thresholds of the policy that reads it.

  \<^bold>\<open>Interfaces.\<close> \<open>object_store\<close> is what the clients rely on for a kind of object of the API server,
  \<open>workload_kind\<close> and \<open>freeze_kind\<close> what Deployments and StatefulSets have in common, \<open>priority_gate\<close>
  the order behind the gate, \<open>signal_check\<close> a check over listed objects; each is interpreted on the
  definitions of the model.

  \<^bold>\<open>Fuel.\<close> Loops that a clock or the cluster ends take fuel, one unit per round, and have the value
  \<open>None\<close> (\<open>NoFuel\<close> in the handler) without enough of it. One unit per workload is enough for a throttled
  resume that nothing disturbs, and the timeout divided by the interval for the wait for
  pre-conditions and for nodes; the theorems on these loops state that the result is produced.

  \<^bold>\<open>Not modelled.\<close> Flags, TLS, construction of the manager and its probes in \<open>main\<close>, which are calls
  of controller-runtime; \<open>zz_generated.deepcopy.go\<close>, since values are immutable here;
  \<open>groupversion_info.go\<close>, the registration of the types; log output.
\<close>

subsection \<open>From a failed node back to the intended counts\<close>

text \<open>
  C4: a node failure and the recovery from it leave every workload with the replicas it is meant to
  run. Let the handler deal with a reported node failure, scaling down whichever workloads it finds
  affected, and let it run again when the turn of the policy to be resumed has come and its
  pre-conditions hold. Then every selected Deployment and StatefulSet runs as many replicas as it was
  meant to run before the failure (its current number, or the saved one when it was frozen), and
  nothing is saved any more.
\<close>

theorem failure_and_recovery_restore_counts:
  assumes "quiet_cluster a view" and "in_charge (sysview view s) k p" and "hasNodeFailureEvent p"
    and "\<not> PendingFreeze (Status p)" and "\<not> PendingStartupResume (Status p)"
    and "NodeFailureEventDetectedAt (Status p) = Some t" and "t \<le> failure_time a k p (world s)"
    and "result (handleNodeFailureEvent a p) (entered a k (world s)) = Inr aff"
    and "\<And>d. d \<in> ran (cDeployments (sysview view s)) \<union> ran (cStatefulSets (sysview view s)) \<Longrightarrow> tidy d"
    and "selectorOf a p = Inr sel" and "\<not> throttlingOn p"
    and "sysview view s' = sysview view (final (Reconcile fuel a k) s)"
    and "due a view k p' s'" and "pre_clear a answer p' (sysview view s')"
  shows "Phase (Status (the (cPolicies (sysview view (final (Reconcile fuel a k) s')) k))) = PhaseResumed \<and>
    (\<forall>j \<in> selected p sel (cDeployments (sysview view s)).
       scales (cDeployments (sysview view (final (Reconcile fuel a k) s'))) j =
         map_option (\<lambda>n. \<lparr>running = n, saved = None\<rparr>) (wanted (cDeployments (sysview view s)) j)) \<and>
    (\<forall>j \<in> selected p sel (cStatefulSets (sysview view s)).
       scales (cStatefulSets (sysview view (final (Reconcile fuel a k) s'))) j =
         map_option (\<lambda>n. \<lparr>running = n, saved = None\<rparr>) (wanted (cStatefulSets (sysview view s)) j))"
proof -
  let ?c = "sysview view s"
  obtain p1 where p1: "Spec p1 = Spec p" "sysview view s' =
      (view (final (handleNodeFailureEvent a p) (entered a k (world s))))\<lparr>cPolicies := (cPolicies ?c)(k \<mapsto> p1)\<rparr>"
    using node_failure_run [OF assms(1-8), of fuel] assms(12) by auto
  obtain K L ps where "view (final (handleNodeFailureEvent a p) (entered a k (world s))) = ?c\<lparr>cPods := ps,
      cDeployments := on_keys (deployment_ops.frozen None) K (cDeployments ?c),
      cStatefulSets := on_keys (statefulSet_ops.frozen None) L (cStatefulSets ?c)\<rparr>"
    using handleNodeFailureEvent_freezes [OF assms(1), of p "entered a k (world s)"] reconcile_in_charge(1) [OF assms(1,2)] by auto
  with p1(2) have v: "sysview view s' = ?c\<lparr>cPods := ps,
      cDeployments := on_keys (deployment_ops.frozen None) K (cDeployments ?c),
      cStatefulSets := on_keys (statefulSet_ops.frozen None) L (cStatefulSets ?c), cPolicies := (cPolicies ?c)(k \<mapsto> p1)\<rparr>" by simp
  have "in_charge (sysview view s') k p'" using assms(13) by (simp add: due_def)
  then have "p' = p1" using v by (simp add: in_charge_def)
  have sp: "Spec p' = (Spec p)\<lparr>Action := Action (Spec p), OperationId := OperationId (Spec p)\<rparr>" using p1(1) \<open>p' = p1\<close> by simp
  have keys: "selected p' sel (cDeployments (sysview view s')) = selected p sel (cDeployments ?c)"
    "selected p' sel (cStatefulSets (sysview view s')) = selected p sel (cStatefulSets ?c)"
    unfolding v using selected_frozen [OF deployment_ops.frozen_Labels sp] selected_frozen [OF statefulSet_ops.frozen_Labels sp] by simp_all
  have tidy': "tidy d" if "d \<in> ran (cDeployments (sysview view s')) \<union> ran (cStatefulSets (sysview view s'))" for d
  proof -
    have "cDeployments (sysview view s') = on_keys (deployment_ops.frozen None) K (cDeployments ?c)"
      "cStatefulSets (sysview view s') = on_keys (statefulSet_ops.frozen None) L (cStatefulSets ?c)" using v by simp_all
    note split = that [unfolded this]
    show ?thesis
      using split deployment_ops.frozen_map_tidy [of "cDeployments ?c" d None K]
        statefulSet_ops.frozen_map_tidy [of "cStatefulSets ?c" d None L] assms(9) by blast
  qed
  have "\<not> throttlingOn p'" "selectorOf a p' = Inr sel" using assms(10,11) sp by (simp_all add: throttlingOn_def selectorOf_def)
  moreover have "throttle_ready fuel a view p' n s'" for n
    using calculation(1) by (auto simp: throttle_ready_def throttlingOn_def)
  then have "restorable fuel a p' sel view s'"
    unfolding restorable_def using tidy' tidy_readable by blast
  ultimately obtain p2 ps' where "resumed_policy p' p2"
    "sysview view (final (Reconcile fuel a k) s') = (acted deployment_ops.resumed statefulSet_ops.resumed
      (selected p sel (cDeployments ?c)) (selected p sel (cStatefulSets ?c)) k p2 (sysview view s'))\<lparr>cPods := ps'\<rparr>"
    using executed_due [OF assms(1,13) _ assms(14), of sel fuel] unfolding keys by blast
  then show ?thesis
    using deployment_ops.restored_counts [of "cDeployments ?c"] statefulSet_ops.restored_counts [of "cStatefulSets ?c"] assms(9)
    by (simp add: acted_def v resumed_policy_def)
qed

theorem failure_and_recovery_restore_counts_witness:
  "\<exists>s'. scales (cDeployments (sysview mem_view (final (Reconcile 1 mem_api (''ops'', ''p'')) s'))) (''shop'', ''web'') =
      Some \<lparr>running = 3, saved = None\<rparr> \<and>
    sysview mem_view s' = sysview mem_view (final (Reconcile 1 mem_api (''ops'', ''p'')) (waiting_sys failing_policy))"
proof -
  let ?s = "waiting_sys failing_policy" and ?k = "(''ops'', ''p'')"
  note f = failing_facts
  obtain p' where p': "sysview mem_view (final (Reconcile 1 mem_api ?k) ?s) =
      (sysview mem_view ?s)\<lparr>cPolicies := (cPolicies (sysview mem_view ?s))(?k \<mapsto> p')\<rparr>"
    "Spec p' = Spec failing_policy" "awaiting p'" "ResumeDelayStartedAt (Status p') = truncate_time (Some (1000 * Second))"
    using node_failure_run [OF mem_quiet waiting_in_charge [OF f(1)] f(2-5), of "[]" 1] f(6-8) by (auto simp: Second_def)
  have "cPolicies (sysview mem_view (final (Reconcile 1 mem_api ?k) ?s)) ?k = Some p'" unfolding p'(1) by simp
  then have k: "policy_key p' = ?k" by (rule quiet_keyed(1) [OF mem_quiet])
  have v: "sysview mem_view (waiting_sys p') = sysview mem_view (final (Reconcile 1 mem_api ?k) ?s)"
    unfolding p'(1) using waiting_view(1) [OF f(1)] waiting_view(1) [OF k] by (simp add: waiting_sys_def mem_view_def)
  have "\<not> held_back (sysview mem_view (waiting_sys p')) p'" by (simp add: held_back_def waiting_view(1) [OF k])
  then have d: "due mem_api mem_view ?k p' (waiting_sys p')"
    using waiting_in_charge [OF k] p'(2-4) waiting_view(5)
    unfolding due_def waiting_time by (auto simp: truncate_time_def Second_def failing_policy_def sample_spec_def)
  have web: "scale_of frozen_web = \<lparr>running = 0, saved = Some 3\<rparr>" "well_scaled frozen_web"
  proof -
    have "Atoi ''3'' = Inr 3" by (simp add: ParseInt_def ParseUint_def digit_val_def)
    then show "scale_of frozen_web = \<lparr>running = 0, saved = Some 3\<rparr>" "well_scaled frozen_web"
      by (simp_all add: scale_of_def well_scaled_def count_annotation_def frozen_web_def sample_defs)
  qed
  have tidy: "tidy x" if "x \<in> ran (cDeployments (sysview mem_view ?s)) \<union> ran (cStatefulSets (sysview mem_view ?s))" for x
    using that web unfolding waiting_view(2,3)
    by (auto simp: tidy_def) (auto simp: well_scaled_def scale_of_def count_annotation_def sample_defs)
  have sel: "selectorOf mem_api failing_policy = Inr None" "\<not> throttlingOn failing_policy"
    and pre: "pre_clear mem_api ok_answer p' (sysview mem_view (waiting_sys p'))"
    by (simp_all add: selectorOf_def throttlingOn_def pre_clear_def preConditionsOn_def p'(2) failing_policy_def sample_spec_def)
  have j: "(''shop'', ''web'') \<in> selected failing_policy None (cDeployments (sysview mem_view ?s))"
    by (simp add: selected_def waiting_view(2) failing_policy_def sample_spec_def)
  have t0: "0 \<le> failure_time mem_api ?k failing_policy (world ?s)" by (simp add: f(6) Second_def)
  have r: "result (handleNodeFailureEvent mem_api failing_policy) (entered mem_api ?k (world ?s)) = Inr []" by (simp add: f(7,8))
  note th = failure_and_recovery_restore_counts [OF mem_quiet waiting_in_charge [OF f(1)] f(2-5) t0 r tidy sel v d pre]
  have "scales (cDeployments (sysview mem_view (final (Reconcile 1 mem_api ?k) (waiting_sys p')))) (''shop'', ''web'') =
      map_option (\<lambda>n. \<lparr>running = n, saved = None\<rparr>) (wanted (cDeployments (sysview mem_view ?s)) (''shop'', ''web''))"
    using th j by blast
  then show ?thesis
    using v web(1) by (intro exI [of _ "waiting_sys p'"]) (simp add: waiting_view(2) wanted_def intended_def)
qed

end
